(* ===== verification/Prelude.thy ===== *)
theory Prelude
  imports Main "HOL-Library.Word"
begin

text \<open>
  Shared vocabulary of the development: the machine integers of the Rust sources as words,
  byte strings, the two result monads the code uses (a plain \<open>Result\<close> and a cursor over
  the unread bytes), big-endian integer layout, UTF-8 validity as \<open>String::from_utf8\<close>
  checks it, saturating increments, and the codec interface that every wire format of the
  program implements.

  A Rust \<open>String\<close> is modelled by \<open>string\<close>, one \<open>char\<close> per UTF-8 byte, so that
  \<open>length\<close> is Rust's \<open>len()\<close>; that the bytes are valid UTF-8 is the predicate
  \<open>rust_str\<close>. An \<open>i32\<close> is the 32-bit word of its two's complement; \<open>usize\<close> is
  \<open>nat\<close> (the code is built for 64-bit targets, where a \<open>u32\<close> always fits a
  \<open>usize\<close>).
\<close>

unbundle bit_operations_syntax

named_theorems cursor_iff \<open>successful cursor reads as equations on the unread bytes\<close>
named_theorems cursor_run \<open>evaluation of cursor reads on bytes the writers produced\<close>

section \<open>Machine integers, byte strings\<close>

type_synonym u8 = "8 word"
type_synonym u16 = "16 word"
type_synonym u32 = "32 word"
type_synonym i32 = "32 word"
type_synonym bytes = "8 word list"

text \<open>\<open>u8::try_from\<close>, \<open>u16::try_from\<close> and \<open>u32::try_from\<close> on a \<open>usize\<close>.\<close>

definition try_u8 :: "nat \<Rightarrow> u8 option" where
  "try_u8 n = (if n < 2 ^ 8 then Some (of_nat n) else None)"

definition try_u16 :: "nat \<Rightarrow> u16 option" where
  "try_u16 n = (if n < 2 ^ 16 then Some (of_nat n) else None)"

definition try_u32 :: "nat \<Rightarrow> u32 option" where
  "try_u32 n = (if n < 2 ^ 32 then Some (of_nat n) else None)"

text \<open>\<open>saturating_add(1)\<close> on an unsigned word.\<close>

definition saturating_inc :: "'a::len word \<Rightarrow> 'a word" where
  "saturating_inc w = (if w = - 1 then - 1 else w + 1)"

definition u16_to_be_bytes :: "u16 \<Rightarrow> bytes" where
  "u16_to_be_bytes w = [ucast (drop_bit 8 w), ucast w]"

definition u32_to_be_bytes :: "u32 \<Rightarrow> bytes" where
  "u32_to_be_bytes w = [ucast (drop_bit 24 w), ucast (drop_bit 16 w), ucast (drop_bit 8 w), ucast w]"

text \<open>The readers are applied to slices of exactly two and four bytes.\<close>

fun u16_from_be_bytes :: "bytes \<Rightarrow> u16" where
  "u16_from_be_bytes [a, b] = push_bit 8 (ucast a) OR ucast b"
| "u16_from_be_bytes _ = 0"

fun u32_from_be_bytes :: "bytes \<Rightarrow> u32" where
  "u32_from_be_bytes [a, b, c, d] =
     push_bit 24 (ucast a) OR push_bit 16 (ucast b) OR push_bit 8 (ucast c) OR ucast d"
| "u32_from_be_bytes _ = 0"

fun u16_from_le_bytes :: "bytes \<Rightarrow> u16" where
  "u16_from_le_bytes [a, b] = push_bit 8 (ucast b) OR ucast a"
| "u16_from_le_bytes _ = 0"

text \<open>\<open>str::as_bytes\<close> and its inverse.\<close>

definition as_bytes :: "string \<Rightarrow> bytes" where
  "as_bytes s = map (\<lambda>c. of_nat (of_char c)) s"

definition string_of_bytes :: "bytes \<Rightarrow> string" where
  "string_of_bytes bs = map (\<lambda>b. char_of (unat b)) bs"

text \<open>The bytes \<open>core::str::from_utf8\<close> accepts: the well-formed sequences of RFC 3629.\<close>

definition utf8_cont :: "u8 \<Rightarrow> bool" where
  "utf8_cont b = (0x80 \<le> b \<and> b \<le> 0xBF)"

definition utf8_lead3 :: "u8 \<Rightarrow> u8 \<Rightarrow> bool" where
  "utf8_lead3 a b =
     (a = 0xE0 \<and> 0xA0 \<le> b \<and> b \<le> 0xBF \<or>
      (0xE1 \<le> a \<and> a \<le> 0xEC \<or> 0xEE \<le> a \<and> a \<le> 0xEF) \<and> utf8_cont b \<or>
      a = 0xED \<and> 0x80 \<le> b \<and> b \<le> 0x9F)"

definition utf8_lead4 :: "u8 \<Rightarrow> u8 \<Rightarrow> bool" where
  "utf8_lead4 a b =
     (a = 0xF0 \<and> 0x90 \<le> b \<and> b \<le> 0xBF \<or>
      0xF1 \<le> a \<and> a \<le> 0xF3 \<and> utf8_cont b \<or>
      a = 0xF4 \<and> 0x80 \<le> b \<and> b \<le> 0x8F)"

fun valid_utf8 :: "bytes \<Rightarrow> bool" where
  "valid_utf8 [] = True"
| "valid_utf8 (a # r) =
     (if a < 0x80 then valid_utf8 r
      else case r of
        [] \<Rightarrow> False
      | b # r2 \<Rightarrow>
          if 0xC2 \<le> a \<and> a \<le> 0xDF \<and> utf8_cont b then valid_utf8 r2
          else case r2 of
            [] \<Rightarrow> False
          | c # r3 \<Rightarrow>
              if utf8_lead3 a b \<and> utf8_cont c then valid_utf8 r3
              else case r3 of
                [] \<Rightarrow> False
              | d # r4 \<Rightarrow> utf8_lead4 a b \<and> utf8_cont c \<and> utf8_cont d \<and> valid_utf8 r4)"

definition rust_str :: "string \<Rightarrow> bool" where
  "rust_str s = valid_utf8 (as_bytes s)"

section \<open>Results and cursors\<close>

definition bind_res :: "'e + 'a \<Rightarrow> ('a \<Rightarrow> 'e + 'b) \<Rightarrow> 'e + 'b" where
  "bind_res m f = (case m of Inl e \<Rightarrow> Inl e | Inr x \<Rightarrow> f x)"

text \<open>\<open>Option::ok_or_else\<close>.\<close>

definition ok_or :: "'e \<Rightarrow> 'a option \<Rightarrow> 'e + 'a" where
  "ok_or e v = (case v of None \<Rightarrow> Inl e | Some x \<Rightarrow> Inr x)"

type_synonym ('e, 'a) cursor = "bytes \<Rightarrow> 'e + ('a \<times> bytes)"

definition cbind :: "('e, 'a) cursor \<Rightarrow> ('a \<Rightarrow> ('e, 'b) cursor) \<Rightarrow> ('e, 'b) cursor" where
  "cbind m f = (\<lambda>rest. bind_res (m rest) (\<lambda>(x, rest'). f x rest'))"

definition cret :: "'a \<Rightarrow> ('e, 'a) cursor" where
  "cret x = (\<lambda>rest. Inr (x, rest))"

text \<open>\<open>f(..)?\<close> inside a cursor: a result that reads nothing.\<close>

definition clift :: "'e + 'a \<Rightarrow> ('e, 'a) cursor" where
  "clift r = (\<lambda>rest. bind_res r (\<lambda>x. Inr (x, rest)))"

text \<open>A \<open>for\<close> loop that appends the encoding of each element, stopping at the first error;
  and the loop that reads \<open>n\<close> elements.\<close>

fun put_all :: "('a \<Rightarrow> 'e + bytes) \<Rightarrow> 'a list \<Rightarrow> 'e + bytes" where
  "put_all put [] = Inr []"
| "put_all put (x # xs) = bind_res (put x) (\<lambda>p. bind_res (put_all put xs) (\<lambda>ps. Inr (p @ ps)))"

fun get_all :: "('e, 'a) cursor \<Rightarrow> nat \<Rightarrow> ('e, 'a list) cursor" where
  "get_all get 0 = cret []"
| "get_all get (Suc n) = cbind get (\<lambda>x. cbind (get_all get n) (\<lambda>xs. cret (x # xs)))"

section \<open>Lemmas on words and bytes\<close>

lemma unat_less [simp]: "unat (a :: u8) < 256" "unat (b :: u16) < 65536" "unat (c :: u32) < 4294967296"
  using unsigned_less [of a] unsigned_less [of b] unsigned_less [of c] by simp_all

lemma u8_bit_high [simp]:
  "\<not> bit (w :: u8) (8 + n)" "\<not> bit (w :: u8) (16 + n)" "\<not> bit (w :: u8) (24 + n)"
  using bit_imp_le_length [of w "8 + n"] bit_imp_le_length [of w "16 + n"]
    bit_imp_le_length [of w "24 + n"] by auto

lemma try_u8_Some [simp]: "try_u8 n = Some w \<longleftrightarrow> n = unat w"
  by (auto simp: try_u8_def unat_of_nat take_bit_nat_eq_self)

lemma try_u8_None [simp]: "try_u8 n = None \<longleftrightarrow> 255 < n"
  by (auto simp: try_u8_def)

lemma try_u16_Some [simp]: "try_u16 n = Some w \<longleftrightarrow> n = unat w"
  by (auto simp: try_u16_def unat_of_nat take_bit_nat_eq_self)

lemma try_u16_None [simp]: "try_u16 n = None \<longleftrightarrow> 65535 < n"
  by (auto simp: try_u16_def)

lemma try_u32_Some [simp]: "try_u32 n = Some w \<longleftrightarrow> n = unat w"
  by (auto simp: try_u32_def unat_of_nat take_bit_nat_eq_self)

lemma try_u32_None [simp]: "try_u32 n = None \<longleftrightarrow> 4294967295 < n"
  by (auto simp: try_u32_def)

lemma try_unat [simp]:
  "try_u8 (unat a) = Some a" "try_u16 (unat b) = Some b" "try_u32 (unat c) = Some c"
  by simp_all

lemma try_0 [simp]: "try_u8 0 = Some 0" "try_u16 0 = Some 0" "try_u32 0 = Some 0"
  by simp_all

lemma find_in_set: "find P xs = Some x \<Longrightarrow> x \<in> set xs \<and> P x"
  by (induction xs) (auto split: if_splits)

lemma length_be_bytes [simp]: "length (u16_to_be_bytes w) = 2" "length (u32_to_be_bytes v) = 4"
  by (simp_all add: u16_to_be_bytes_def u32_to_be_bytes_def)

lemma u16_from_to_be [simp]: "u16_from_be_bytes (u16_to_be_bytes w) = w"
  by (simp add: u16_to_be_bytes_def) (rule bit_word_eqI, auto simp: bit_simps)

lemma u32_from_to_be [simp]: "u32_from_be_bytes (u32_to_be_bytes w) = w"
proof (rule bit_word_eqI)
  fix n assume n: "n < LENGTH(32)"
  consider "n < 8" | "8 \<le> n" "n < 16" | "16 \<le> n" "n < 24" | "24 \<le> n"
    by linarith
  then show "bit (u32_from_be_bytes (u32_to_be_bytes w)) n \<longleftrightarrow> bit w n"
    using n by cases (auto simp: u32_to_be_bytes_def bit_simps)
qed

lemma two_bytes: "length bs = 2 \<Longrightarrow> \<exists>a b. bs = [a, b]"
  by (auto simp: eval_nat_numeral length_Suc_conv)

lemma four_bytes: "length bs = 4 \<Longrightarrow> \<exists>a b c d. bs = [a, b, c, d]"
  by (auto simp: eval_nat_numeral length_Suc_conv)

lemma u16_to_from_be [simp]: "length bs = 2 \<Longrightarrow> u16_to_be_bytes (u16_from_be_bytes bs) = bs"
  by (drule two_bytes) (auto simp: u16_to_be_bytes_def bit_simps
      intro!: bit_word_eqI)

lemma u32_to_from_be [simp]: "length bs = 4 \<Longrightarrow> u32_to_be_bytes (u32_from_be_bytes bs) = bs"
  by (drule four_bytes) (auto simp: u32_to_be_bytes_def bit_simps
      intro!: bit_word_eqI)

lemma u16_to_be_inject [simp]: "u16_to_be_bytes v = u16_to_be_bytes w \<longleftrightarrow> v = w"
  by (metis u16_from_to_be)

lemma u32_to_be_inject [simp]: "u32_to_be_bytes v = u32_to_be_bytes w \<longleftrightarrow> v = w"
  by (metis u32_from_to_be)

lemma length_as_bytes [simp]: "length (as_bytes s) = length s"
  by (simp add: as_bytes_def)

lemma length_string_of_bytes [simp]: "length (string_of_bytes bs) = length bs"
  by (simp add: string_of_bytes_def)

lemma of_char_less: "(of_char c :: nat) < 256"
  by (metis of_char_mod_256 mod_less_divisor zero_less_numeral)

lemma unat_of_char [simp]: "unat (of_nat (of_char c) :: u8) = of_char c"
  by (simp add: unat_of_nat take_bit_eq_mod)

lemma string_of_as_bytes [simp]: "string_of_bytes (as_bytes s) = s"
  by (simp add: as_bytes_def string_of_bytes_def comp_def)

lemma as_bytes_string_of [simp]: "as_bytes (string_of_bytes bs) = bs"
  by (simp add: as_bytes_def string_of_bytes_def comp_def)


lemma rust_str_string_of [simp]: "rust_str (string_of_bytes bs) = valid_utf8 bs"
  by (simp add: rust_str_def)

text \<open>ASCII text is valid UTF-8, so every literal of the sources is a Rust string.\<close>

lemma valid_utf8_ascii: "\<forall>b \<in> set bs. b < 0x80 \<Longrightarrow> valid_utf8 bs"
  by (induction bs) auto

lemma unat_saturating_inc:
  "unat (saturating_inc w) = min (2 ^ LENGTH('a) - 1) (Suc (unat (w :: 'a::len word)))"
proof (cases "w = - 1")
  case True
  then show ?thesis by (simp add: saturating_inc_def unsigned_minus_1_eq_mask mask_eq_exp_minus_1)
next
  case False
  then have "unat w \<noteq> 2 ^ LENGTH('a) - 1"
    by (metis mask_eq_exp_minus_1 unsigned_minus_1_eq_mask unsigned_word_eqI)
  moreover have "unat w < 2 ^ LENGTH('a)" by (rule unsigned_less)
  ultimately have "Suc (unat w) < 2 ^ LENGTH('a)" by linarith
  then have "unat (w + 1) = Suc (unat w)"
    by (simp add: unat_word_ariths)
  with False \<open>Suc (unat w) < 2 ^ LENGTH('a)\<close> show ?thesis
    by (simp add: saturating_inc_def)
qed

section \<open>Lemmas on results and cursors\<close>

lemma bind_res_simps [simp]: "bind_res (Inl e) f = Inl e" "bind_res (Inr x) f = f x"
  by (simp_all add: bind_res_def)

lemma bind_res_Inr [simp]: "bind_res m f = Inr y \<longleftrightarrow> (\<exists>x. m = Inr x \<and> f x = Inr y)"
  by (cases m) auto

lemma ok_or_simps [simp]:
  "ok_or e (Some x) = Inr x" "ok_or e None = Inl e" "ok_or e v = Inr y \<longleftrightarrow> v = Some y"
  "ok_or e v = Inl d \<longleftrightarrow> v = None \<and> d = e"
  by (auto simp: ok_or_def split: option.splits)

lemma cbind_Inr [cursor_iff]:
  "cbind m f bs = Inr (y, r) \<longleftrightarrow> (\<exists>x r'. m bs = Inr (x, r') \<and> f x r' = Inr (y, r))"
  by (auto simp: cbind_def)

lemma cret_Inr [cursor_iff]: "cret x bs = Inr (y, r) \<longleftrightarrow> y = x \<and> r = bs"
  by (auto simp: cret_def)

lemma clift_Inr [cursor_iff]: "clift v bs = Inr (y, r) \<longleftrightarrow> v = Inr y \<and> r = bs"
  by (auto simp: clift_def)

lemma cbind_run [cursor_run]: "m bs = Inr (x, r) \<Longrightarrow> cbind m f bs = f x r"
  by (simp add: cbind_def)

lemma cret_run [cursor_run]: "cret x bs = Inr (x, bs)"
  by (simp add: cret_def)

lemma clift_run [cursor_run]: "v = Inr x \<Longrightarrow> clift v bs = Inr (x, bs)"
  by (simp add: clift_def)

section \<open>The codec interface\<close>

text \<open>
  What a wire format promises: a well-formed value that can be written is read back with
  exactly its own bytes consumed, and whatever the reader accepts is well formed and was
  written by the writer. The second law says that the format is canonical: no two byte
  strings are read as the same value.
\<close>

locale codec =
  fixes put :: "'a \<Rightarrow> 'e + bytes"
    and get :: "('e, 'a) cursor"
    and wf :: "'a \<Rightarrow> bool"
  assumes get_put: "wf x \<Longrightarrow> put x = Inr p \<Longrightarrow> get (p @ rest) = Inr (x, rest)"
    and put_get: "get bs = Inr (x, rest) \<Longrightarrow> wf x \<and> (\<exists>p. put x = Inr p \<and> bs = p @ rest)"
begin

lemma get_iff: "get bs = Inr (x, rest) \<longleftrightarrow> wf x \<and> (\<exists>p. put x = Inr p \<and> bs = p @ rest)"
  using get_put put_get by blast

lemma put_inject: "wf x \<Longrightarrow> wf y \<Longrightarrow> put x = Inr p \<Longrightarrow> put y = Inr p \<Longrightarrow> x = y"
  using get_put [of x p "[]"] get_put [of y p "[]"] by simp

lemma put_prefix_free:
  "wf x \<Longrightarrow> wf y \<Longrightarrow> put x = Inr p \<Longrightarrow> put y = Inr (p @ q) \<Longrightarrow> q = []"
  using get_put [of x p q] get_put [of y "p @ q" "[]"] by simp

lemma get_all_put_all:
  "\<forall>x \<in> set xs. wf x \<Longrightarrow> put_all put xs = Inr p \<Longrightarrow> get_all get (length xs) (p @ rest) = Inr (xs, rest)"
  by (induction xs arbitrary: p) (auto simp: cursor_iff get_put)

lemma get_all_run:
  "put_all put xs = Inr p \<Longrightarrow> length xs = n \<Longrightarrow> \<forall>x \<in> set xs. wf x \<Longrightarrow>
     get_all get n (p @ rest) = Inr (xs, rest)"
  "put_all put xs = Inr p \<Longrightarrow> length xs = n \<Longrightarrow> \<forall>x \<in> set xs. wf x \<Longrightarrow>
     get_all get n p = Inr (xs, [])"
  using get_all_put_all [of xs p] get_all_put_all [of xs p "[]"] by auto

lemma put_all_get_all:
  "get_all get n bs = Inr (xs, rest) \<Longrightarrow>
     length xs = n \<and> (\<forall>x \<in> set xs. wf x) \<and> (\<exists>p. put_all put xs = Inr p \<and> bs = p @ rest)"
proof (induction n arbitrary: bs xs)
  case 0
  then show ?case by (auto simp: cursor_iff)
next
  case (Suc n)
  from Suc.prems obtain x ys r where "get bs = Inr (x, r)" "get_all get n r = Inr (ys, rest)" "xs = x # ys"
    by (auto simp: cursor_iff)
  with put_get Suc.IH show ?case by fastforce
qed

lemma get_all_iff:
  "get_all get n bs = Inr (xs, rest) \<longleftrightarrow>
     length xs = n \<and> (\<forall>x \<in> set xs. wf x) \<and> (\<exists>p. put_all put xs = Inr p \<and> bs = p @ rest)"
  using get_all_put_all put_all_get_all by blast

end

end
