(* ===== verification/Fingerprint.thy ===== *)
theory Fingerprint
  imports Prelude
begin

text \<open>
  Peer fingerprints (\<^verbatim>\<open>crates/farbus-core/src/fingerprint.rs\<close>): 32 bytes, printed as 64
  lower-case hex characters, and the parser for them, with the part of Rust's integer parsing
  and formatting that this file, the session store and the sysfs scanner use. The lemmas show
  that a printed fingerprint is read back and what else the parser accepts.
\<close>

section \<open>Integers as text\<close>

text \<open>\<open>char::to_digit(16)\<close> on one byte of the text.\<close>

definition hex_digit :: "char \<Rightarrow> nat option" where
  "hex_digit c =
     (let n = of_char c :: nat in
      if 48 \<le> n \<and> n \<le> 57 then Some (n - 48)
      else if 97 \<le> n \<and> n \<le> 102 then Some (n - 87)
      else if 65 \<le> n \<and> n \<le> 70 then Some (n - 55)
      else None)"

text \<open>
  The digit loop of \<open>from_str_radix(.., 16)\<close> for an unsigned type with largest value
  \<open>hi\<close>: a bad digit or an overflow ends it.
\<close>

fun radix16_loop :: "nat \<Rightarrow> nat \<Rightarrow> string \<Rightarrow> nat option" where
  "radix16_loop hi acc [] = Some acc"
| "radix16_loop hi acc (c # cs) =
     (case hex_digit c of
        None \<Rightarrow> None
      | Some d \<Rightarrow> if acc * 16 + d > hi then None else radix16_loop hi (acc * 16 + d) cs)"

text \<open>A lone sign is refused, one leading plus is skipped, a minus is not a digit.\<close>

definition from_str_radix16 :: "nat \<Rightarrow> string \<Rightarrow> nat option" where
  "from_str_radix16 hi src =
     (case src of
        [] \<Rightarrow> None
      | [c] \<Rightarrow> if c = CHR ''+'' \<or> c = CHR ''-'' then None else radix16_loop hi 0 [c]
      | c # cs \<Rightarrow> if c = CHR ''+'' then radix16_loop hi 0 cs else radix16_loop hi 0 src)"

definition u8_from_hex :: "string \<Rightarrow> u8 option" where
  "u8_from_hex s = map_option of_nat (from_str_radix16 255 s)"

definition u16_from_hex :: "string \<Rightarrow> u16 option" where
  "u16_from_hex s = map_option of_nat (from_str_radix16 65535 s)"

text \<open>A hex digit as \<open>{:x}\<close> prints it, and \<open>{byte:02x}\<close>.\<close>

definition hex_char :: "nat \<Rightarrow> char" where
  "hex_char n = char_of (if n < 10 then n + 48 else n + 87)"

definition hex_byte :: "u8 \<Rightarrow> string" where
  "hex_byte b = [hex_char (unat b div 16), hex_char (unat b mod 16)]"

definition hex_string :: "bytes \<Rightarrow> string" where
  "hex_string bs = concat (map hex_byte bs)"

section \<open>Fingerprints\<close>

type_synonym fingerprint = bytes

datatype fingerprint_error = BadLength | BadHex

text \<open>\<open>impl Display for PeerFingerprint\<close>.\<close>

definition fingerprint_to_string :: "fingerprint \<Rightarrow> string" where
  "fingerprint_to_string fp = hex_string fp"

text \<open>
  The loop over \<open>chunks_exact(2)\<close>: a chunk is first checked to be UTF-8, then parsed. An odd
  last byte, which \<open>chunks_exact\<close> drops, cannot occur after the length check.
\<close>

fun hex_chunks :: "string \<Rightarrow> fingerprint_error + bytes" where
  "hex_chunks (a # b # rest) =
     (if \<not> valid_utf8 (as_bytes [a, b]) then Inl BadHex
      else bind_res (ok_or BadHex (u8_from_hex [a, b])) (\<lambda>byte.
           bind_res (hex_chunks rest) (\<lambda>bs. Inr (byte # bs))))"
| "hex_chunks _ = Inr []"

definition fingerprint_from_str :: "string \<Rightarrow> fingerprint_error + fingerprint" where
  "fingerprint_from_str s = (if length s \<noteq> 64 then Inl BadLength else hex_chunks s)"

section \<open>Lemmas\<close>

lemma of_char_char_of_less: "n < 256 \<Longrightarrow> of_char (char_of n) = (n :: nat)"
  by simp

lemma hex_digit_hex_char: "n < 16 \<Longrightarrow> hex_digit (hex_char n) = Some n"
  by (auto simp: hex_digit_def hex_char_def Let_def)

lemma hex_char_not_sign: "n < 16 \<Longrightarrow> hex_char n \<noteq> CHR ''+'' \<and> hex_char n \<noteq> CHR ''-''"
proof
  assume n: "n < 16"
  then have v: "(of_char (hex_char n) :: nat) = (if n < 10 then n + 48 else n + 87)"
    by (simp add: hex_char_def)
  show "hex_char n \<noteq> CHR ''+''"
  proof
    assume "hex_char n = CHR ''+''"
    with v have "(of_char (CHR ''+'') :: nat) = (if n < 10 then n + 48 else n + 87)" by simp
    then show False by (simp split: if_splits)
  qed
  show "hex_char n \<noteq> CHR ''-''"
  proof
    assume "hex_char n = CHR ''-''"
    with v have "(of_char (CHR ''-'') :: nat) = (if n < 10 then n + 48 else n + 87)" by simp
    then show False by (simp split: if_splits)
  qed
qed

lemma hex_char_ascii: "n < 16 \<Longrightarrow> (of_nat (of_char (hex_char n)) :: u8) < 0x80"
  by (auto simp: hex_char_def word_less_nat_alt unat_of_nat)

lemma valid_utf8_hex_pair: "m < 16 \<Longrightarrow> n < 16 \<Longrightarrow> valid_utf8 (as_bytes [hex_char m, hex_char n])"
  by (rule valid_utf8_ascii) (auto simp: as_bytes_def hex_char_ascii)

lemma nibble: "unat (b :: u8) div 16 < 16" "unat b mod 16 < 16"
proof -
  have "unat b < 256" by (rule unat_less(1))
  then show "unat b div 16 < 16" by arith
  show "unat b mod 16 < 16" by simp
qed

lemma u8_from_hex_byte [simp]: "u8_from_hex (hex_byte b) = Some b"
proof -
  have "unat b \<le> 255" using unat_less(1) [of b] by linarith
  then have "from_str_radix16 255 (hex_byte b) = Some (unat b)"
    using nibble [of b] by (simp add: from_str_radix16_def hex_byte_def hex_char_not_sign hex_digit_hex_char)
  then show ?thesis by (simp add: u8_from_hex_def)
qed

lemma hex_chunks_hex_string: "hex_chunks (hex_string bs) = Inr bs"
proof (induction bs)
  case Nil
  then show ?case by (simp add: hex_string_def)
next
  case (Cons b bs)
  have "u8_from_hex [hex_char (unat b div 16), hex_char (unat b mod 16)] = Some b"
    using u8_from_hex_byte [of b] by (simp add: hex_byte_def)
  with Cons nibble [of b] show ?case by (simp add: hex_string_def hex_byte_def valid_utf8_hex_pair)
qed

lemma length_hex_string [simp]: "length (hex_string bs) = 2 * length bs"
  by (induction bs) (auto simp: hex_string_def hex_byte_def)

lemma hex_chunks_length: "hex_chunks s = Inr bs \<Longrightarrow> length bs = length s div 2"
  by (induction s arbitrary: bs rule: hex_chunks.induct) (auto split: if_splits)

section \<open>Properties\<close>

text \<open>
  A fingerprint that is printed is read back as itself, and everything the parser accepts
  is 32 bytes long.
\<close>

lemma fingerprint_print_parse:
  "(length fp = 32 \<longrightarrow> fingerprint_from_str (fingerprint_to_string fp) = Inr fp) \<and>
   (fingerprint_from_str s = Inr fp \<longrightarrow> length s = 64 \<and> length fp = 32)"
  by (auto simp: fingerprint_from_str_def fingerprint_to_string_def hex_chunks_hex_string
      dest: hex_chunks_length split: if_splits)

lemma fingerprint_print_parse_example:
  "fingerprint_from_str (fingerprint_to_string (replicate 32 0xAB)) = Inr (replicate 32 0xAB)"
  using fingerprint_print_parse [of "replicate 32 0xAB" "[]"] by simp

text \<open>
  The parser is more liberal than its error text says: it takes upper-case digits, and a plus
  sign in the place of the first digit of a byte.
\<close>

lemma fingerprint_from_str_liberal:
  "fingerprint_from_str (concat (replicate 32 ''AB'')) = Inr (replicate 32 0xAB)"
  "fingerprint_from_str (concat (replicate 32 ''+f'')) = Inr (replicate 32 15)"
  by code_simp+

end
