(* ===== verification/Identity.thy ===== *)
theory Identity
  imports Fingerprint
begin

text \<open>
  Identities, pairing PINs and bearer tokens (\<^verbatim>\<open>crates/farbus-core/src/identity.rs\<close>). The
  SHA-256 digest of the \<^verbatim>\<open>sha2\<close> crate is the parameter \<open>sha256\<close>; \<open>Instant::now()\<close> is
  the parameter \<open>now\<close>, in nanoseconds; what the random generator returns is a parameter of
  the operations that draw from it. The lemmas show that the constant-time comparison is
  equality, that a PIN is accepted at most once, before it expires and after fewer than five
  failures, and that a PIN with five failures is locked out for good.
\<close>

section \<open>Text of numbers\<close>

text \<open>Decimal digits as \<open>{}\<close> prints them, and zero padding to a width.\<close>

fun show_nat :: "nat \<Rightarrow> string" where
  "show_nat n = (if n < 10 then [char_of (n + 48)] else show_nat (n div 10) @ [char_of (n mod 10 + 48)])"

declare show_nat.simps [simp del]

definition zero_pad :: "nat \<Rightarrow> string \<Rightarrow> string" where
  "zero_pad w s = replicate (w - length s) (CHR ''0'') @ s"

section \<open>Identities\<close>

text \<open>Time in nanoseconds.\<close>

type_synonym instant = nat

definition secs :: "nat \<Rightarrow> nat" where
  "secs n = n * 1000000000"

definition PIN_TTL :: nat where
  "PIN_TTL = secs 120"

record identity =
  id_fingerprint :: fingerprint
  id_secret :: bytes

definition fingerprint_from_secret :: "(bytes \<Rightarrow> bytes) \<Rightarrow> bytes \<Rightarrow> fingerprint" where
  "fingerprint_from_secret sha256 secret = sha256 secret"

definition from_secret :: "(bytes \<Rightarrow> bytes) \<Rightarrow> bytes \<Rightarrow> identity" where
  "from_secret sha256 secret =
     \<lparr>id_fingerprint = fingerprint_from_secret sha256 secret, id_secret = secret\<rparr>"

text \<open>\<open>Identity::generate\<close>; \<open>drawn\<close> is what the generator fills the secret with.\<close>

definition generate :: "(bytes \<Rightarrow> bytes) \<Rightarrow> bytes \<Rightarrow> identity" where
  "generate sha256 drawn =
     (let secret = drawn; fp = fingerprint_from_secret sha256 secret
      in \<lparr>id_fingerprint = fp, id_secret = secret\<rparr>)"

definition hash_pin :: "(bytes \<Rightarrow> bytes) \<Rightarrow> string \<Rightarrow> fingerprint \<Rightarrow> bytes" where
  "hash_pin sha256 pin server = sha256 (as_bytes ''farbus-pin-v1'' @ server @ as_bytes pin)"

fun ct_diff :: "u8 \<Rightarrow> bytes \<Rightarrow> bytes \<Rightarrow> u8" where
  "ct_diff diff (l # ls) (r # rs) = ct_diff (diff OR (l XOR r)) ls rs"
| "ct_diff diff _ _ = diff"

definition constant_time_eq :: "bytes \<Rightarrow> bytes \<Rightarrow> bool" where
  "constant_time_eq a b = (if length a \<noteq> length b then False else ct_diff 0 a b = 0)"

section \<open>Pairing PINs\<close>

record pairing_pin =
  pin_text :: string
  pin_hash_value :: bytes
  expires_at :: instant
  attempts :: u8
  consumed :: bool

definition issue_with_ttl :: "(bytes \<Rightarrow> bytes) \<Rightarrow> nat \<Rightarrow> instant \<Rightarrow> fingerprint \<Rightarrow> nat \<Rightarrow> pairing_pin" where
  "issue_with_ttl sha256 drawn now server ttl =
     (let pin = zero_pad 6 (show_nat drawn)
      in \<lparr>pin_text = pin, pin_hash_value = hash_pin sha256 pin server, expires_at = now + ttl,
          attempts = 0, consumed = False\<rparr>)"

definition issue :: "(bytes \<Rightarrow> bytes) \<Rightarrow> nat \<Rightarrow> instant \<Rightarrow> fingerprint \<Rightarrow> pairing_pin" where
  "issue sha256 drawn now server = issue_with_ttl sha256 drawn now server PIN_TTL"

definition reissue_if_expired ::
    "(bytes \<Rightarrow> bytes) \<Rightarrow> nat \<Rightarrow> instant \<Rightarrow> fingerprint \<Rightarrow> pairing_pin \<Rightarrow> string option \<times> pairing_pin" where
  "reissue_if_expired sha256 drawn now server p =
     (if now \<le> expires_at p \<or> attempts p \<ge> 5 then (None, p)
      else let p' = issue sha256 drawn now server in (Some (pin_text p'), p'))"

definition is_valid :: "instant \<Rightarrow> bytes \<Rightarrow> pairing_pin \<Rightarrow> bool \<times> pairing_pin" where
  "is_valid now candidate_hash p =
     (if consumed p \<or> attempts p \<ge> 5 \<or> now > expires_at p then (False, p)
      else if constant_time_eq (pin_hash_value p) candidate_hash then (True, p\<lparr>consumed := True\<rparr>)
      else (False, p\<lparr>attempts := saturating_inc (attempts p)\<rparr>))"

text \<open>\<open>issue_auth_token\<close>: the 32 bytes the generator drew.\<close>

definition issue_auth_token :: "bytes \<Rightarrow> bytes" where
  "issue_auth_token drawn = (let token = drawn in token)"

section \<open>Lemmas\<close>

lemma word_or_eq_0: "(a OR b = (0 :: 'a::len word)) \<longleftrightarrow> a = 0 \<and> b = 0"
  by (auto simp: bit_eq_iff bit_simps)

lemma word_xor_eq_0: "(a XOR b = (0 :: 'a::len word)) \<longleftrightarrow> a = b"
  by (auto simp: bit_eq_iff bit_simps)

lemma ct_diff_eq_0: "length a = length b \<Longrightarrow> ct_diff d a b = 0 \<longleftrightarrow> d = 0 \<and> a = b"
proof (induction d a b rule: ct_diff.induct)
  case (1 diff l ls r rs)
  then show ?case by (auto simp: word_or_eq_0 word_xor_eq_0)
qed auto

lemma constant_time_eq_iff: "constant_time_eq a b \<longleftrightarrow> a = b"
  by (auto simp: constant_time_eq_def ct_diff_eq_0)

lemma five_le_iff: "(5 :: u8) \<le> a \<longleftrightarrow> 5 \<le> unat a"
  by (simp add: word_le_nat_alt)

lemma unat_saturating_inc_u8: "unat (saturating_inc (a :: u8)) = min 255 (Suc (unat a))"
  by (simp add: unat_saturating_inc)

lemma is_valid_True:
  "is_valid now h p = (True, q) \<longleftrightarrow>
     \<not> consumed p \<and> unat (attempts p) < 5 \<and> now \<le> expires_at p \<and> h = pin_hash_value p \<and>
     q = p\<lparr>consumed := True\<rparr>"
  by (auto simp: is_valid_def constant_time_eq_iff five_le_iff)

text \<open>Trying a list of candidate hashes against one PIN, each at its own time.\<close>

fun try_hashes :: "pairing_pin \<Rightarrow> (instant \<times> bytes) list \<Rightarrow> bool list \<times> pairing_pin" where
  "try_hashes p [] = ([], p)"
| "try_hashes p ((now, h) # hs) =
     (let (r, p') = is_valid now h p; (rs, p'') = try_hashes p' hs in (r # rs, p''))"

lemma is_valid_dead:
  "consumed p \<or> 5 \<le> unat (attempts p) \<Longrightarrow> is_valid now h p = (False, p)"
  by (auto simp: is_valid_def five_le_iff)

lemma try_hashes_dead:
  "consumed p \<or> 5 \<le> unat (attempts p) \<Longrightarrow> try_hashes p hs = (replicate (length hs) False, p)"
  by (induction hs) (auto simp: is_valid_dead)

lemma is_valid_cases:
  assumes "is_valid now h p = (r, q)"
  obtains (accept) "r" "q = p\<lparr>consumed := True\<rparr>" "h = pin_hash_value p" "now \<le> expires_at p"
  | (wrong) "\<not> r" "q = p\<lparr>attempts := saturating_inc (attempts p)\<rparr>" "h \<noteq> pin_hash_value p"
      "unat (attempts p) < 5"
  | (dead) "\<not> r" "q = p" "consumed p \<or> 5 \<le> unat (attempts p) \<or> expires_at p < now"
  using assms by (auto simp: is_valid_def constant_time_eq_iff five_le_iff split: if_splits)

lemma is_valid_expired: "expires_at p < now \<Longrightarrow> is_valid now h p = (False, p)"
  by (simp add: is_valid_def)

lemma try_hashes_expired:
  "\<forall>a \<in> set hs. expires_at p < fst a \<Longrightarrow> try_hashes p hs = (replicate (length hs) False, p)"
  by (induction hs) (auto simp: is_valid_expired)

lemma accepted_index:
  assumes "sorted (map fst hs)" "i < length hs" "fst (try_hashes p hs) ! i"
  shows "i + unat (attempts p) < 5 \<and> snd (hs ! i) = pin_hash_value p \<and> fst (hs ! i) \<le> expires_at p \<and>
    (\<forall>j < length hs. fst (try_hashes p hs) ! j \<longrightarrow> j = i)"
  using assms
proof (induction hs arbitrary: p i)
  case Nil
  then show ?case by simp
next
  case (Cons a hs)
  obtain now h where a: "a = (now, h)" by (cases a)
  obtain r q where v: "is_valid now h p = (r, q)" by (cases "is_valid now h p")
  have t: "fst (try_hashes p (a # hs)) = r # fst (try_hashes q hs)"
    by (simp add: a v Let_def split_beta)
  from v show ?case
  proof (cases rule: is_valid_cases)
    case accept
    with v have "unat (attempts p) < 5" by (simp add: is_valid_True)
    moreover have "fst (try_hashes q hs) = replicate (length hs) False"
      using accept by (simp add: try_hashes_dead)
    ultimately show ?thesis using accept Cons.prems a t
      by (auto simp: nth_Cons split: nat.splits)
  next
    case wrong
    then have q: "unat (attempts q) = Suc (unat (attempts p))" "pin_hash_value q = pin_hash_value p"
      "expires_at q = expires_at p"
      by (simp_all add: unat_saturating_inc_u8)
    obtain k where k: "i = Suc k" using Cons.prems t wrong by (cases i) auto
    have "k + unat (attempts q) < 5 \<and> snd (hs ! k) = pin_hash_value q \<and> fst (hs ! k) \<le> expires_at q \<and>
        (\<forall>j < length hs. fst (try_hashes q hs) ! j \<longrightarrow> j = k)"
      using Cons.prems t k by (intro Cons.IH) auto
    then show ?thesis using q k t wrong by (auto simp: nth_Cons split: nat.splits)
  next
    case dead
    have "fst (try_hashes q hs) = replicate (length hs) False"
    proof (cases "consumed p \<or> 5 \<le> unat (attempts p)")
      case True
      then show ?thesis using dead by (simp add: try_hashes_dead)
    next
      case False
      then have "expires_at p < now"
        using dead by blast
      then have "\<forall>b \<in> set hs. expires_at p < fst b"
        using Cons.prems(1) a by fastforce
      then show ?thesis using dead by (simp add: try_hashes_expired)
    qed
    then show ?thesis using Cons.prems t dead by (auto simp: nth_Cons split: nat.splits)
  qed
qed

section \<open>Properties\<close>

text \<open>
  The constant-time comparison, which folds the differences of all byte pairs before it
  looks at the result, decides equality.
\<close>

lemma constant_time_eq_correct: "constant_time_eq a b \<longleftrightarrow> a = b"
  by (rule constant_time_eq_iff)

text \<open>
  C20. A PIN gives an attacker five guesses: of any sequence of attempts in the order of time
  against a freshly issued PIN, only one of the first five can be accepted, only with the hash of
  the PIN, only before it expires, and no second attempt is accepted.
\<close>

theorem pin_five_guesses:
  assumes "sorted (map fst hs)" "i < length hs"
    and "fst (try_hashes (issue sha256 drawn now server) hs) ! i"
  shows "i < 5 \<and> snd (hs ! i) = hash_pin sha256 (zero_pad 6 (show_nat drawn)) server \<and>
    fst (hs ! i) \<le> now + PIN_TTL \<and>
    (\<forall>j < length hs. fst (try_hashes (issue sha256 drawn now server) hs) ! j \<longrightarrow> j = i)"
  using accepted_index [OF assms]
  by (simp add: issue_def issue_with_ttl_def Let_def)

theorem pin_five_guesses_witness:
  "let hs = [(1, []), (2, hash_pin id ''482910'' [7])] in
   fst (try_hashes (issue id 482910 0 [7]) hs) = [False, True] \<and> snd (hs ! 1) = hash_pin id ''482910'' [7]"
proof -
  define hs where "hs = [(1 :: nat, [] :: bytes), (2, hash_pin id ''482910'' [7])]"
  have p: "zero_pad 6 (show_nat 482910) = ''482910''"
    by (simp add: zero_pad_def show_nat.simps char_of_def bit_0)
  have s: "sorted (map fst hs)" and l: "1 < length hs" by (simp_all add: hs_def)
  have t: "fst (try_hashes (issue id 482910 0 [7]) hs) = [False, True]"
    by (simp add: hs_def issue_def issue_with_ttl_def p is_valid_def constant_time_eq_def
        hash_pin_def as_bytes_def PIN_TTL_def secs_def saturating_inc_def five_le_iff)
  have "fst (try_hashes (issue id 482910 0 [7]) hs) ! 1" unfolding t by simp
  from pin_five_guesses [OF s l this] have "snd (hs ! 1) = hash_pin id ''482910'' [7]"
    unfolding p by blast
  with t show ?thesis unfolding hs_def Let_def by blast
qed

end
