(* ===== verification/Protocol.thy ===== *)
theory Protocol
  imports Prelude
begin

text \<open>
  The FarBus control plane of \<^verbatim>\<open>crates/farbus-protocol/src/lib.rs\<close>: the message types, the
  bounded frame encoder \<open>encode\<close>, the fail-closed frame decoder \<open>decode\<close> and the cursor
  it reads payloads with. The lemmas show that the two are inverse to each other in both
  directions, that accepted frames are canonical and bounded, and which error each malformed
  frame gives.
\<close>

section \<open>Data\<close>

type_synonym device_id = u32

abbreviation VERSION :: u8 where "VERSION \<equiv> 2"
abbreviation MAX_PAYLOAD :: nat where "MAX_PAYLOAD \<equiv> 65600"
abbreviation HEADER_LEN :: nat where "HEADER_LEN \<equiv> 10"
abbreviation MAX_U8_STR :: nat where "MAX_U8_STR \<equiv> 255"

text \<open>The four bytes \<open>b"FARB"\<close>.\<close>

abbreviation MAGIC :: bytes where "MAGIC \<equiv> [0x46, 0x41, 0x52, 0x42]"

datatype usb_speed = SpeedLow | SpeedFull | SpeedHigh | SpeedSuper

datatype transfer_type = Control | Interrupt | Bulk | Isochronous

datatype error_code = Unauthorized | NotFound | Conflict | Unsupported

record hello =
  protocol_min :: u8
  protocol_max :: u8
  hello_fingerprint :: bytes
  hello_hostname :: string

record pair_request =
  client_fingerprint :: bytes
  pin_hash :: bytes
  client_name :: string

record pair_response =
  pair_success :: bool
  server_fingerprint :: bytes
  pair_auth_token :: bytes

record attach_request =
  attach_device_id :: device_id
  attach_auth_token :: bytes

record detach_request =
  detach_device_id :: device_id
  detach_auth_token :: bytes

record attach_response =
  attached_device_id :: device_id
  attach_success :: bool
  usbip_port :: u16
  attached_bus_id :: string

record urb_submit =
  submit_seq :: u32
  submit_device_id :: device_id
  endpoint :: u8
  transfer :: transfer_type
  requested_length :: u32
  submit_data :: bytes

record urb_complete =
  complete_seq :: u32
  complete_status :: i32
  complete_data :: bytes

record urb_unlink =
  unlink_seq :: u32
  unlink_device_id :: device_id

record urb_unlinked =
  unlinked_seq :: u32
  unlinked_status :: i32

record usb_interface_info =
  interface_number :: u8
  interface_class :: u8
  interface_subclass :: u8
  interface_protocol :: u8
  endpoints :: bytes

record device_info =
  info_id :: device_id
  bus_id :: string
  vid :: u16
  pid :: u16
  usb_class :: u8
  speed :: usb_speed
  product :: string
  exported :: bool
  interfaces :: "usb_interface_info list"

datatype message =
    Hello hello
  | Error error_code string
  | Detach device_id
  | DetachRequest detach_request
  | DeviceList "device_info list"
  | DeviceListRequest bytes
  | PairRequest pair_request
  | PairResponse pair_response
  | AttachRequest attach_request
  | AttachResponse attach_response
  | UrbSubmit urb_submit
  | UrbComplete urb_complete
  | UrbUnlink urb_unlink
  | UrbUnlinked urb_unlinked

fun ty :: "message \<Rightarrow> u8" where
  "ty (Hello _) = 1"
| "ty (Error _ _) = 2"
| "ty (Detach _) = 3"
| "ty (DetachRequest _) = 12"
| "ty (DeviceList _) = 4"
| "ty (DeviceListRequest _) = 11"
| "ty (PairRequest _) = 5"
| "ty (PairResponse _) = 6"
| "ty (AttachRequest _) = 7"
| "ty (AttachResponse _) = 8"
| "ty (UrbSubmit _) = 9"
| "ty (UrbComplete _) = 10"
| "ty (UrbUnlink _) = 13"
| "ty (UrbUnlinked _) = 14"

datatype proto_error =
    Truncated
  | BadMagic
  | UnsupportedVersion u8
  | PayloadTooLarge nat nat
  | FieldTooLong string nat nat
  | UnknownType u8
  | InvalidPayload

section \<open>Encoding\<close>

fun speed_to_u8 :: "usb_speed \<Rightarrow> u8" where
  "speed_to_u8 SpeedLow = 1"
| "speed_to_u8 SpeedFull = 2"
| "speed_to_u8 SpeedHigh = 3"
| "speed_to_u8 SpeedSuper = 4"

fun transfer_to_u8 :: "transfer_type \<Rightarrow> u8" where
  "transfer_to_u8 Control = 1"
| "transfer_to_u8 Interrupt = 2"
| "transfer_to_u8 Bulk = 3"
| "transfer_to_u8 Isochronous = 4"

fun code_to_u16 :: "error_code \<Rightarrow> u16" where
  "code_to_u16 Unauthorized = 1"
| "code_to_u16 NotFound = 2"
| "code_to_u16 Conflict = 3"
| "code_to_u16 Unsupported = 4"

text \<open>\<open>u8::from(bool)\<close>.\<close>

definition bool_to_u8 :: "bool \<Rightarrow> u8" where
  "bool_to_u8 b = (if b then 1 else 0)"

definition put_u8_str :: "string \<Rightarrow> string \<Rightarrow> proto_error + bytes" where
  "put_u8_str field value =
     bind_res (ok_or (FieldTooLong field (length value) MAX_U8_STR) (try_u8 (length value)))
       (\<lambda>len. Inr (len # as_bytes value))"

definition put_u16_str :: "string \<Rightarrow> string \<Rightarrow> proto_error + bytes" where
  "put_u16_str field value =
     bind_res (ok_or (FieldTooLong field (length value) 65535) (try_u16 (length value)))
       (\<lambda>len. Inr (u16_to_be_bytes len @ as_bytes value))"

text \<open>The body of the inner loop over \<open>device.interfaces\<close>.\<close>

definition put_interface :: "usb_interface_info \<Rightarrow> proto_error + bytes" where
  "put_interface iface =
     bind_res (ok_or (FieldTooLong ''interface.endpoints'' (length (endpoints iface)) 255)
         (try_u8 (length (endpoints iface))))
       (\<lambda>ep_count. Inr ([interface_number iface, interface_class iface,
          interface_subclass iface, interface_protocol iface, ep_count] @ endpoints iface))"

text \<open>The body of the outer loop over \<open>list.devices\<close>; the checks run in source order.\<close>

definition put_device :: "device_info \<Rightarrow> proto_error + bytes" where
  "put_device device =
     bind_res (put_u8_str ''bus_id'' (bus_id device)) (\<lambda>bus.
     bind_res (put_u8_str ''product'' (product device)) (\<lambda>prod.
     bind_res (ok_or (FieldTooLong ''device.interfaces'' (length (interfaces device)) 255)
         (try_u8 (length (interfaces device)))) (\<lambda>iface_count.
     bind_res (put_all put_interface (interfaces device)) (\<lambda>ifaces.
       Inr (u32_to_be_bytes (info_id device) @ bus @ u16_to_be_bytes (vid device)
         @ u16_to_be_bytes (pid device) @ [usb_class device, speed_to_u8 (speed device)] @ prod
         @ [bool_to_u8 (exported device), iface_count] @ ifaces)))))"

text \<open>The \<open>urb.data\<close> field of submits and completions.\<close>

definition put_urb_data :: "bytes \<Rightarrow> proto_error + bytes" where
  "put_urb_data d =
     bind_res (ok_or (FieldTooLong ''urb.data'' (length d) MAX_PAYLOAD) (try_u32 (length d)))
       (\<lambda>data_len. Inr (u32_to_be_bytes data_len @ d))"

fun encode_payload :: "message \<Rightarrow> proto_error + bytes" where
  "encode_payload (Hello hello) =
     bind_res (put_u8_str ''hostname'' (hello_hostname hello)) (\<lambda>host.
       Inr ([protocol_min hello, protocol_max hello] @ hello_fingerprint hello @ host))"
| "encode_payload (Error code detail) =
     bind_res (put_u16_str ''detail'' detail) (\<lambda>d. Inr (u16_to_be_bytes (code_to_u16 code) @ d))"
| "encode_payload (Detach device_id) = Inr (u32_to_be_bytes device_id)"
| "encode_payload (DetachRequest req) =
     Inr (u32_to_be_bytes (detach_device_id req) @ detach_auth_token req)"
| "encode_payload (DeviceListRequest auth_token) = Inr auth_token"
| "encode_payload (DeviceList devices) =
     bind_res (ok_or (FieldTooLong ''devices'' (length devices) 65535) (try_u16 (length devices)))
       (\<lambda>count. bind_res (put_all put_device devices) (\<lambda>ds. Inr (u16_to_be_bytes count @ ds)))"
| "encode_payload (PairRequest pair) =
     bind_res (put_u8_str ''client_name'' (client_name pair)) (\<lambda>name.
       Inr (client_fingerprint pair @ pin_hash pair @ name))"
| "encode_payload (PairResponse pair) =
     Inr (bool_to_u8 (pair_success pair) # server_fingerprint pair @ pair_auth_token pair)"
| "encode_payload (AttachRequest attach) =
     Inr (u32_to_be_bytes (attach_device_id attach) @ attach_auth_token attach)"
| "encode_payload (AttachResponse attach) =
     bind_res (put_u8_str ''bus_id'' (attached_bus_id attach)) (\<lambda>bus.
       Inr (u32_to_be_bytes (attached_device_id attach) @ [bool_to_u8 (attach_success attach)]
         @ u16_to_be_bytes (usbip_port attach) @ bus))"
| "encode_payload (UrbSubmit urb) =
     bind_res (put_urb_data (submit_data urb)) (\<lambda>d.
       Inr (u32_to_be_bytes (submit_seq urb) @ u32_to_be_bytes (submit_device_id urb)
         @ [endpoint urb, transfer_to_u8 (transfer urb)]
         @ u32_to_be_bytes (requested_length urb) @ d))"
| "encode_payload (UrbComplete urb) =
     bind_res (put_urb_data (complete_data urb)) (\<lambda>d.
       Inr (u32_to_be_bytes (complete_seq urb) @ u32_to_be_bytes (complete_status urb) @ d))"
| "encode_payload (UrbUnlink unlink) =
     Inr (u32_to_be_bytes (unlink_seq unlink) @ u32_to_be_bytes (unlink_device_id unlink))"
| "encode_payload (UrbUnlinked unlinked) =
     Inr (u32_to_be_bytes (unlinked_seq unlinked) @ u32_to_be_bytes (unlinked_status unlinked))"

definition encode :: "message \<Rightarrow> proto_error + bytes" where
  "encode msg =
     bind_res (encode_payload msg) (\<lambda>payload.
       if length payload > MAX_PAYLOAD then Inl (PayloadTooLarge (length payload) MAX_PAYLOAD)
       else bind_res (ok_or (PayloadTooLarge (length payload) MAX_PAYLOAD) (try_u32 (length payload)))
         (\<lambda>len. Inr (MAGIC @ [VERSION, ty msg] @ u32_to_be_bytes len @ payload)))"

section \<open>Decoding\<close>

fun u8_to_speed :: "u8 \<Rightarrow> proto_error + usb_speed" where
  "u8_to_speed value =
     (if value = 1 then Inr SpeedLow else if value = 2 then Inr SpeedFull
      else if value = 3 then Inr SpeedHigh else if value = 4 then Inr SpeedSuper
      else Inl InvalidPayload)"

fun u8_to_transfer :: "u8 \<Rightarrow> proto_error + transfer_type" where
  "u8_to_transfer value =
     (if value = 1 then Inr Control else if value = 2 then Inr Interrupt
      else if value = 3 then Inr Bulk else if value = 4 then Inr Isochronous
      else Inl InvalidPayload)"

fun u16_to_code :: "u16 \<Rightarrow> proto_error + error_code" where
  "u16_to_code value =
     (if value = 1 then Inr Unauthorized else if value = 2 then Inr NotFound
      else if value = 3 then Inr Conflict else if value = 4 then Inr Unsupported
      else Inl InvalidPayload)"

text \<open>\<open>match cur.u8()? { 0 => false, 1 => true, _ => InvalidPayload }\<close>.\<close>

fun u8_to_bool :: "u8 \<Rightarrow> proto_error + bool" where
  "u8_to_bool value = (if value = 0 then Inr False else if value = 1 then Inr True else Inl InvalidPayload)"

definition cur_take :: "nat \<Rightarrow> (proto_error, bytes) cursor" where
  "cur_take n = (\<lambda>rest. if length rest < n then Inl Truncated else Inr (take n rest, drop n rest))"

definition cur_u8 :: "(proto_error, u8) cursor" where
  "cur_u8 = cbind (cur_take 1) (\<lambda>b. cret (b ! 0))"

definition cur_u16 :: "(proto_error, u16) cursor" where
  "cur_u16 = cbind (cur_take 2) (\<lambda>b. cret (u16_from_be_bytes b))"

definition cur_u32 :: "(proto_error, u32) cursor" where
  "cur_u32 = cbind (cur_take 4) (\<lambda>b. cret (u32_from_be_bytes b))"

text \<open>\<open>read_exact\<close> into a buffer of \<open>n\<close> bytes.\<close>

definition cur_read_exact :: "nat \<Rightarrow> (proto_error, bytes) cursor" where
  "cur_read_exact n = cur_take n"

text \<open>\<open>String::from_utf8(..).map_err(|_| InvalidPayload)\<close>.\<close>

definition from_utf8 :: "bytes \<Rightarrow> proto_error + string" where
  "from_utf8 b = (if valid_utf8 b then Inr (string_of_bytes b) else Inl InvalidPayload)"

definition cur_u8_str :: "(proto_error, string) cursor" where
  "cur_u8_str = cbind cur_u8 (\<lambda>len. cbind (cur_take (unat len)) (\<lambda>b. clift (from_utf8 b)))"

definition cur_u16_str :: "(proto_error, string) cursor" where
  "cur_u16_str = cbind cur_u16 (\<lambda>len. cbind (cur_take (unat len)) (\<lambda>b. clift (from_utf8 b)))"

definition cur_finish :: "(proto_error, unit) cursor" where
  "cur_finish = (\<lambda>rest. if rest = [] then Inr ((), rest) else Inl InvalidPayload)"

text \<open>\<open>cur.finish()?; Ok(value)\<close>.\<close>

definition cur_done :: "'a \<Rightarrow> (proto_error, 'a) cursor" where
  "cur_done value = cbind cur_finish (\<lambda>_. cret value)"

definition parse_hello :: "(proto_error, message) cursor" where
  "parse_hello =
     cbind cur_u8 (\<lambda>pmin. cbind cur_u8 (\<lambda>pmax.
     cbind (cur_read_exact 32) (\<lambda>fp. cbind cur_u8_str (\<lambda>host.
     cur_done (Hello \<lparr>protocol_min = pmin, protocol_max = pmax, hello_fingerprint = fp,
       hello_hostname = host\<rparr>)))))"

definition parse_error :: "(proto_error, message) cursor" where
  "parse_error =
     cbind cur_u16 (\<lambda>c. cbind (clift (u16_to_code c)) (\<lambda>code.
     cbind cur_u16_str (\<lambda>detail. cur_done (Error code detail))))"

definition parse_detach :: "(proto_error, message) cursor" where
  "parse_detach = cbind cur_u32 (\<lambda>d. cur_done (Detach d))"

definition parse_detach_request :: "(proto_error, message) cursor" where
  "parse_detach_request =
     cbind cur_u32 (\<lambda>d. cbind (cur_read_exact 32) (\<lambda>tok.
     cur_done (DetachRequest \<lparr>detach_device_id = d, detach_auth_token = tok\<rparr>)))"

definition parse_device_list_request :: "(proto_error, message) cursor" where
  "parse_device_list_request =
     cbind (cur_read_exact 32) (\<lambda>tok. cur_done (DeviceListRequest tok))"

definition parse_interface :: "(proto_error, usb_interface_info) cursor" where
  "parse_interface =
     cbind cur_u8 (\<lambda>num. cbind cur_u8 (\<lambda>cls. cbind cur_u8 (\<lambda>sub. cbind cur_u8 (\<lambda>proto.
     cbind cur_u8 (\<lambda>ep_count.
     cbind (if unat ep_count > 0 then cur_read_exact (unat ep_count) else cret []) (\<lambda>eps.
     cret \<lparr>interface_number = num, interface_class = cls, interface_subclass = sub,
       interface_protocol = proto, endpoints = eps\<rparr>))))))"

definition parse_device :: "(proto_error, device_info) cursor" where
  "parse_device =
     cbind cur_u32 (\<lambda>id. cbind cur_u8_str (\<lambda>bus. cbind cur_u16 (\<lambda>v. cbind cur_u16 (\<lambda>p.
     cbind cur_u8 (\<lambda>cls. cbind cur_u8 (\<lambda>sp. cbind (clift (u8_to_speed sp)) (\<lambda>spd.
     cbind cur_u8_str (\<lambda>prod. cbind cur_u8 (\<lambda>ex. cbind (clift (u8_to_bool ex)) (\<lambda>exp.
     cbind cur_u8 (\<lambda>iface_count.
     cbind (get_all parse_interface (unat iface_count)) (\<lambda>ifs.
     cret \<lparr>info_id = id, bus_id = bus, vid = v, pid = p, usb_class = cls, speed = spd,
       product = prod, exported = exp, interfaces = ifs\<rparr>))))))))))))"

definition parse_device_list :: "(proto_error, message) cursor" where
  "parse_device_list =
     cbind cur_u16 (\<lambda>count. cbind (get_all parse_device (unat count)) (\<lambda>devices.
     cur_done (DeviceList devices)))"

definition parse_pair_request :: "(proto_error, message) cursor" where
  "parse_pair_request =
     cbind (cur_read_exact 32) (\<lambda>fp. cbind (cur_read_exact 32) (\<lambda>h. cbind cur_u8_str (\<lambda>name.
     cur_done (PairRequest \<lparr>client_fingerprint = fp, pin_hash = h, client_name = name\<rparr>))))"

definition parse_pair_response :: "(proto_error, message) cursor" where
  "parse_pair_response =
     cbind cur_u8 (\<lambda>s. cbind (clift (u8_to_bool s)) (\<lambda>success.
     cbind (cur_read_exact 32) (\<lambda>fp. cbind (cur_read_exact 32) (\<lambda>tok.
     cur_done (PairResponse \<lparr>pair_success = success, server_fingerprint = fp,
       pair_auth_token = tok\<rparr>)))))"

definition parse_attach_request :: "(proto_error, message) cursor" where
  "parse_attach_request =
     cbind cur_u32 (\<lambda>d. cbind (cur_read_exact 32) (\<lambda>tok.
     cur_done (AttachRequest \<lparr>attach_device_id = d, attach_auth_token = tok\<rparr>)))"

definition parse_attach_response :: "(proto_error, message) cursor" where
  "parse_attach_response =
     cbind cur_u32 (\<lambda>d. cbind cur_u8 (\<lambda>s. cbind (clift (u8_to_bool s)) (\<lambda>success.
     cbind cur_u16 (\<lambda>port. cbind cur_u8_str (\<lambda>bus.
     cur_done (AttachResponse \<lparr>attached_device_id = d, attach_success = success,
       usbip_port = port, attached_bus_id = bus\<rparr>))))))"

definition parse_urb_submit :: "(proto_error, message) cursor" where
  "parse_urb_submit =
     cbind cur_u32 (\<lambda>seq. cbind cur_u32 (\<lambda>d. cbind cur_u8 (\<lambda>ep.
     cbind cur_u8 (\<lambda>t. cbind (clift (u8_to_transfer t)) (\<lambda>tr.
     cbind cur_u32 (\<lambda>req. cbind cur_u32 (\<lambda>data_len. cbind (cur_take (unat data_len)) (\<lambda>dat.
     cur_done (UrbSubmit \<lparr>submit_seq = seq, submit_device_id = d, endpoint = ep, transfer = tr,
       requested_length = req, submit_data = dat\<rparr>)))))))))"

definition parse_urb_complete :: "(proto_error, message) cursor" where
  "parse_urb_complete =
     cbind cur_u32 (\<lambda>seq. cbind (cur_read_exact 4) (\<lambda>status_buf.
     cbind cur_u32 (\<lambda>data_len. cbind (cur_take (unat data_len)) (\<lambda>dat.
     cur_done (UrbComplete \<lparr>complete_seq = seq, complete_status = u32_from_be_bytes status_buf,
       complete_data = dat\<rparr>)))))"

definition parse_urb_unlink :: "(proto_error, message) cursor" where
  "parse_urb_unlink =
     cbind cur_u32 (\<lambda>seq. cbind cur_u32 (\<lambda>d.
     cur_done (UrbUnlink \<lparr>unlink_seq = seq, unlink_device_id = d\<rparr>)))"

definition parse_urb_unlinked :: "(proto_error, message) cursor" where
  "parse_urb_unlinked =
     cbind cur_u32 (\<lambda>seq. cbind (cur_read_exact 4) (\<lambda>status_buf.
     cur_done (UrbUnlinked \<lparr>unlinked_seq = seq, unlinked_status = u32_from_be_bytes status_buf\<rparr>)))"

definition parse_body :: "u8 \<Rightarrow> (proto_error, message) cursor" where
  "parse_body t =
     (if t = 1 then parse_hello
      else if t = 2 then parse_error
      else if t = 3 then parse_detach
      else if t = 12 then parse_detach_request
      else if t = 11 then parse_device_list_request
      else if t = 4 then parse_device_list
      else if t = 5 then parse_pair_request
      else if t = 6 then parse_pair_response
      else if t = 7 then parse_attach_request
      else if t = 8 then parse_attach_response
      else if t = 9 then parse_urb_submit
      else if t = 10 then parse_urb_complete
      else if t = 13 then parse_urb_unlink
      else if t = 14 then parse_urb_unlinked
      else clift (Inl (UnknownType t)))"

definition parse_payload :: "u8 \<Rightarrow> bytes \<Rightarrow> proto_error + message" where
  "parse_payload t payload = bind_res (parse_body t payload) (\<lambda>(msg, _). Inr msg)"

definition decode :: "bytes \<Rightarrow> proto_error + message" where
  "decode bs =
     (if length bs < HEADER_LEN then Inl Truncated
      else if take 4 bs \<noteq> MAGIC then Inl BadMagic
      else if bs ! 4 \<noteq> VERSION then Inl (UnsupportedVersion (bs ! 4))
      else
        let t = bs ! 5;
            len = unat (u32_from_be_bytes (take 4 (drop 6 bs)))
        in if len > MAX_PAYLOAD then Inl (PayloadTooLarge len MAX_PAYLOAD)
           else if length bs < HEADER_LEN + len then Inl Truncated
           else if length bs \<noteq> HEADER_LEN + len then Inl InvalidPayload
           else parse_payload t (take len (drop HEADER_LEN bs)))"

section \<open>Well-formed messages\<close>

text \<open>
  What the Rust types guarantee and the model's types do not: \<open>[u8; 32]\<close> fields have 32
  bytes, a \<open>String\<close> is valid UTF-8.
\<close>

definition wf_device :: "device_info \<Rightarrow> bool" where
  "wf_device d = (rust_str (bus_id d) \<and> rust_str (product d))"

fun wf_message :: "message \<Rightarrow> bool" where
  "wf_message (Hello h) = (length (hello_fingerprint h) = 32 \<and> rust_str (hello_hostname h))"
| "wf_message (Error _ detail) = rust_str detail"
| "wf_message (Detach _) = True"
| "wf_message (DetachRequest r) = (length (detach_auth_token r) = 32)"
| "wf_message (DeviceList ds) = (\<forall>d \<in> set ds. wf_device d)"
| "wf_message (DeviceListRequest tok) = (length tok = 32)"
| "wf_message (PairRequest r) =
     (length (client_fingerprint r) = 32 \<and> length (pin_hash r) = 32 \<and> rust_str (client_name r))"
| "wf_message (PairResponse r) = (length (server_fingerprint r) = 32 \<and> length (pair_auth_token r) = 32)"
| "wf_message (AttachRequest r) = (length (attach_auth_token r) = 32)"
| "wf_message (AttachResponse r) = rust_str (attached_bus_id r)"
| "wf_message (UrbSubmit _) = True"
| "wf_message (UrbComplete _) = True"
| "wf_message (UrbUnlink _) = True"
| "wf_message (UrbUnlinked _) = True"

section \<open>Cursor reads as equations\<close>

lemma cur_take_Inr [cursor_iff]: "cur_take n bs = Inr (h, t) \<longleftrightarrow> bs = h @ t \<and> length h = n"
  by (auto simp: cur_take_def)

lemma cur_read_exact_Inr [cursor_iff]:
  "cur_read_exact n bs = Inr (h, t) \<longleftrightarrow> bs = h @ t \<and> length h = n"
  by (simp add: cur_read_exact_def cur_take_Inr)

lemma cur_u8_Inr [cursor_iff]: "cur_u8 bs = Inr (w, r) \<longleftrightarrow> bs = w # r"
  by (auto simp: cur_u8_def cursor_iff length_Suc_conv)

lemma cur_u16_Inr [cursor_iff]: "cur_u16 bs = Inr (w, r) \<longleftrightarrow> bs = u16_to_be_bytes w @ r"
  by (auto simp: cur_u16_def cursor_iff)

lemma cur_u32_Inr [cursor_iff]: "cur_u32 bs = Inr (w, r) \<longleftrightarrow> bs = u32_to_be_bytes w @ r"
  by (auto simp: cur_u32_def cursor_iff)

lemma from_utf8_Inr [cursor_iff]: "from_utf8 b = Inr s \<longleftrightarrow> rust_str s \<and> b = as_bytes s"
  by (auto simp: from_utf8_def rust_str_def)

lemma cur_finish_Inr [cursor_iff]: "cur_finish bs = Inr (u, r) \<longleftrightarrow> bs = [] \<and> r = []"
  by (auto simp: cur_finish_def)

lemma cur_done_Inr [cursor_iff]: "cur_done v bs = Inr (y, r) \<longleftrightarrow> y = v \<and> bs = [] \<and> r = []"
  by (auto simp: cur_done_def cursor_iff)

lemma u8_le: "unat (w :: u8) \<le> 255"
  using unat_less(1) [of w] by linarith

lemma u16_le: "unat (w :: u16) \<le> 65535"
  using unat_less(2) [of w] by linarith

lemma put_u8_str_Inr:
  "put_u8_str f s = Inr p \<longleftrightarrow> length s \<le> 255 \<and> p = of_nat (length s) # as_bytes s"
  by (auto simp: put_u8_str_def try_u8_def)

lemma put_u16_str_Inr:
  "put_u16_str f s = Inr p \<longleftrightarrow> length s \<le> 65535 \<and> p = u16_to_be_bytes (of_nat (length s)) @ as_bytes s"
  by (auto simp: put_u16_str_def try_u16_def)

lemma cur_u8_str_Inr [cursor_iff]:
  "cur_u8_str bs = Inr (s, r) \<longleftrightarrow> 
     rust_str s \<and> length s \<le> 255 \<and> bs = of_nat (length s) # as_bytes s @ r"
  by (auto simp: cur_u8_str_def cursor_iff unat_of_nat take_bit_nat_eq_self u8_le)

lemma cur_u16_str_Inr [cursor_iff]:
  "cur_u16_str bs = Inr (s, r) \<longleftrightarrow> 
     rust_str s \<and> length s \<le> 65535 \<and> bs = u16_to_be_bytes (of_nat (length s)) @ as_bytes s @ r"
  by (auto simp: cur_u16_str_def cursor_iff unat_of_nat take_bit_nat_eq_self u16_le)

lemma u8_to_speed_Inr [cursor_iff]: "u8_to_speed v = Inr s \<longleftrightarrow> v = speed_to_u8 s"
  by (cases s) auto

lemma u8_to_transfer_Inr [cursor_iff]: "u8_to_transfer v = Inr t \<longleftrightarrow> v = transfer_to_u8 t"
  by (cases t) auto

lemma u16_to_code_Inr [cursor_iff]: "u16_to_code v = Inr c \<longleftrightarrow> v = code_to_u16 c"
  by (cases c) auto

lemma u8_to_bool_Inr [cursor_iff]: "u8_to_bool v = Inr b \<longleftrightarrow> v = bool_to_u8 b"
  by (cases b) (auto simp: bool_to_u8_def)

declare u8_to_speed.simps [simp del] u8_to_transfer.simps [simp del] u16_to_code.simps [simp del]
  u8_to_bool.simps [simp del]


lemma cursor_prims_run [cursor_run]:
  "length h = n \<Longrightarrow> cur_take n (h @ r) = Inr (h, r)"
  "length h = n \<Longrightarrow> cur_take n h = Inr (h, [])"
  "length h = n \<Longrightarrow> cur_read_exact n (h @ r) = Inr (h, r)"
  "length h = n \<Longrightarrow> cur_read_exact n h = Inr (h, [])"
  "cur_u8 (b # r) = Inr (b, r)"
  "cur_u16 (u16_to_be_bytes w @ r) = Inr (w, r)"
  "cur_u32 (u32_to_be_bytes v @ r) = Inr (v, r)"
  "cur_u32 (u32_to_be_bytes v) = Inr (v, [])"
  "rust_str s \<Longrightarrow> length s \<le> 255 \<Longrightarrow> cur_u8_str (of_nat (length s) # as_bytes s @ r) = Inr (s, r)"
  "rust_str s \<Longrightarrow> length s \<le> 255 \<Longrightarrow> cur_u8_str (of_nat (length s) # as_bytes s) = Inr (s, [])"
  "rust_str s \<Longrightarrow> length s \<le> 65535 \<Longrightarrow>
     cur_u16_str (u16_to_be_bytes (of_nat (length s)) @ as_bytes s) = Inr (s, [])"
  "u8_to_speed (speed_to_u8 sp) = Inr sp"
  "u8_to_transfer (transfer_to_u8 t) = Inr t"
  "u16_to_code (code_to_u16 c) = Inr c"
  "u8_to_bool (bool_to_u8 b') = Inr b'"
  "cur_done x [] = Inr (x, [])"
  by (simp_all add: cursor_iff)

interpretation u8_str: codec "put_u8_str field" cur_u8_str rust_str
  by unfold_locales (auto simp: cursor_iff put_u8_str_Inr)

interpretation u16_str: codec "put_u16_str field" cur_u16_str rust_str
  by unfold_locales (auto simp: cursor_iff put_u16_str_Inr)

interpretation interface: codec put_interface parse_interface "\<lambda>_. True"
proof unfold_locales
  show "parse_interface (p @ rest) = Inr (x, rest)" if "put_interface x = Inr p" for x p rest
    using that by (auto simp: parse_interface_def put_interface_def cursor_run)
  show "True \<and> (\<exists>p. put_interface x = Inr p \<and> bs = p @ rest)"
    if "parse_interface bs = Inr (x, rest)" for x bs rest
    using that by (auto simp: parse_interface_def put_interface_def cursor_iff split: if_splits)
qed

interpretation device: codec put_device parse_device wf_device
proof unfold_locales
  show "parse_device (p @ rest) = Inr (x, rest)" if "wf_device x" "put_device x = Inr p" for x p rest
    using that by (auto simp: parse_device_def put_device_def put_u8_str_Inr wf_device_def
        cursor_run interface.get_all_run)
  show "wf_device x \<and> (\<exists>p. put_device x = Inr p \<and> bs = p @ rest)"
    if "parse_device bs = Inr (x, rest)" for x bs rest
    using that by (auto simp: parse_device_def put_device_def put_u8_str_Inr wf_device_def
        cursor_iff interface.get_all_iff)
qed

section \<open>Payloads\<close>

lemmas parse_defs = parse_hello_def parse_error_def parse_detach_def parse_detach_request_def
  parse_device_list_request_def parse_device_list_def parse_pair_request_def
  parse_pair_response_def parse_attach_request_def parse_attach_response_def
  parse_urb_submit_def parse_urb_complete_def parse_urb_unlink_def parse_urb_unlinked_def

lemmas put_defs = put_u8_str_Inr put_u16_str_Inr put_urb_data_def

text \<open>A written payload is read back as the message it was written from.\<close>

lemma parse_body_encode_payload:
  assumes "wf_message m" "encode_payload m = Inr p"
  shows "parse_body (ty m) p = Inr (m, [])"
  using assms
  by (cases m) (auto simp: parse_body_def parse_defs put_defs cursor_run device.get_all_run)

text \<open>Whatever a payload parser accepts is the payload of the message it returns.\<close>

lemma encode_payload_parse_body:
  assumes "parse_body t p = Inr (m, r)"
  shows "r = [] \<and> ty m = t \<and> wf_message m \<and> encode_payload m = Inr p"
  using assms
  by (auto simp: parse_body_def parse_defs put_defs cursor_iff device.get_all_iff split: if_splits)

lemma parse_payload_iff:
  "parse_payload t p = Inr m \<longleftrightarrow> ty m = t \<and> wf_message m \<and> encode_payload m = Inr p"
  using parse_body_encode_payload encode_payload_parse_body
  by (fastforce simp: parse_payload_def)

section \<open>Frames\<close>

lemma header_split:
  assumes "HEADER_LEN \<le> length bs" "take 4 bs = MAGIC"
  shows "bs = MAGIC @ [bs ! 4, bs ! 5] @ take 4 (drop 6 bs) @ drop 10 bs"
proof -
  have "drop 4 bs = bs ! 4 # bs ! 5 # drop 6 bs"
    using assms(1) by (simp add: Cons_nth_drop_Suc numeral_eq_Suc)
  moreover have "drop 6 bs = take 4 (drop 6 bs) @ drop 10 bs"
    using append_take_drop_id [of 4 "drop 6 bs"] by simp
  ultimately show ?thesis
    using assms(2) append_take_drop_id [of 4 bs] by (metis append_Cons append_Nil)
qed

abbreviation wire_len :: "bytes \<Rightarrow> nat" where
  "wire_len bs \<equiv> unat (u32_from_be_bytes (take 4 (drop 6 bs)))"

lemma decode_Inr:
  "decode bs = Inr m \<longleftrightarrow>
     HEADER_LEN \<le> length bs \<and> take 4 bs = MAGIC \<and> bs ! 4 = VERSION \<and> wire_len bs \<le> MAX_PAYLOAD \<and>
     length bs = HEADER_LEN + wire_len bs \<and>
     parse_payload (bs ! 5) (take (wire_len bs) (drop HEADER_LEN bs)) = Inr m"
  unfolding decode_def Let_def
  by (auto simp only: not_less not_le not_not sum.inject sum.distinct simp_thms split: if_splits)

lemma decode_iff:
  "decode bs = Inr m \<longleftrightarrow> wf_message m \<and> encode m = Inr bs"
proof
  assume d: "decode bs = Inr m"
  let ?len = "u32_from_be_bytes (take 4 (drop 6 bs))"
  from d have h: "HEADER_LEN \<le> length bs" "take 4 bs = MAGIC" "bs ! 4 = VERSION"
    and len: "unat ?len \<le> MAX_PAYLOAD" "length bs = HEADER_LEN + unat ?len"
    and p: "parse_payload (bs ! 5) (take (unat ?len) (drop HEADER_LEN bs)) = Inr m"
    by (simp_all only: decode_Inr)
  have l: "length (drop HEADER_LEN bs) = unat ?len"
    unfolding length_drop len(2) by simp
  then have "take (unat ?len) (drop HEADER_LEN bs) = drop HEADER_LEN bs"
    by (metis order_refl take_all)
  with p have m: "ty m = bs ! 5" "wf_message m" "encode_payload m = Inr (drop HEADER_LEN bs)"
    by (simp_all only: parse_payload_iff)
  have w: "u32_to_be_bytes ?len = take 4 (drop 6 bs)"
    using h(1) by (intro u32_to_from_be) simp
  have "\<not> MAX_PAYLOAD < length (drop HEADER_LEN bs)" "try_u32 (length (drop HEADER_LEN bs)) = Some ?len"
    using len(1) l by (simp_all only: not_less try_u32_Some)
  with m(3) have "encode m = Inr (MAGIC @ [VERSION, ty m] @ u32_to_be_bytes ?len @ drop 10 bs)"
    unfolding encode_def by (simp only: bind_res_simps ok_or_simps if_False)
  with m(1) w h header_split [OF h(1,2)] m(2) show "wf_message m \<and> encode m = Inr bs"
    by simp
next
  assume m: "wf_message m \<and> encode m = Inr bs"
  then obtain p len where "encode_payload m = Inr p" "length p = unat len" "length p \<le> MAX_PAYLOAD"
    and "bs = MAGIC @ [VERSION, ty m] @ u32_to_be_bytes len @ p"
    by (auto simp: encode_def split: if_splits)
  with m show "decode bs = Inr m"
    by (simp add: decode_Inr parse_payload_iff)
qed

text \<open>\<open>decode\<close> on bytes that have a whole header.\<close>

lemma decode_frame:
  "decode (MAGIC @ [v, t] @ u32_to_be_bytes len @ p) =
     (if v \<noteq> VERSION then Inl (UnsupportedVersion v)
      else if unat len > MAX_PAYLOAD then Inl (PayloadTooLarge (unat len) MAX_PAYLOAD)
      else if length p < unat len then Inl Truncated
      else if length p \<noteq> unat len then Inl InvalidPayload
      else parse_payload t p)"
  by (simp add: decode_def)

lemma encode_frame:
  assumes "encode m = Inr bs"
  obtains p len where "bs = MAGIC @ [VERSION, ty m] @ u32_to_be_bytes len @ p"
    and "encode_payload m = Inr p" and "length p = unat len" and "unat len \<le> MAX_PAYLOAD"
  using assms by (auto simp: encode_def split: if_splits)

text \<open>The wire limits of a message, and the length of the payload it is written to.\<close>

definition interface_len :: "usb_interface_info \<Rightarrow> nat" where
  "interface_len i = 5 + length (endpoints i)"

definition device_len :: "device_info \<Rightarrow> nat" where
  "device_len d =
     14 + length (bus_id d) + length (product d) + sum_list (map interface_len (interfaces d))"

definition device_fits :: "device_info \<Rightarrow> bool" where
  "device_fits d \<longleftrightarrow>
     length (bus_id d) \<le> 255 \<and> length (product d) \<le> 255 \<and> length (interfaces d) \<le> 255 \<and>
     (\<forall>i \<in> set (interfaces d). length (endpoints i) \<le> 255)"

fun fields_fit :: "message \<Rightarrow> bool" where
  "fields_fit (Hello h) = (length (hello_hostname h) \<le> 255)"
| "fields_fit (Error _ detail) = (length detail \<le> 65535)"
| "fields_fit (DeviceList ds) = (length ds \<le> 65535 \<and> (\<forall>d \<in> set ds. device_fits d))"
| "fields_fit (PairRequest r) = (length (client_name r) \<le> 255)"
| "fields_fit (AttachResponse r) = (length (attached_bus_id r) \<le> 255)"
| "fields_fit _ = True"

fun payload_len :: "message \<Rightarrow> nat" where
  "payload_len (Hello h) = 35 + length (hello_hostname h)"
| "payload_len (Error _ detail) = 4 + length detail"
| "payload_len (Detach _) = 4"
| "payload_len (DetachRequest _) = 36"
| "payload_len (DeviceList ds) = 2 + sum_list (map device_len ds)"
| "payload_len (DeviceListRequest _) = 32"
| "payload_len (PairRequest r) = 65 + length (client_name r)"
| "payload_len (PairResponse _) = 65"
| "payload_len (AttachRequest _) = 36"
| "payload_len (AttachResponse r) = 8 + length (attached_bus_id r)"
| "payload_len (UrbSubmit u) = 18 + length (submit_data u)"
| "payload_len (UrbComplete u) = 12 + length (complete_data u)"
| "payload_len (UrbUnlink _) = 8"
| "payload_len (UrbUnlinked _) = 8"

lemma put_all_total:
  assumes "\<And>x. (\<exists>p. put x = Inr p) \<longleftrightarrow> ok x" "\<And>x p. put x = Inr p \<Longrightarrow> length p = len x"
  shows "(\<exists>p. put_all put xs = Inr p) \<longleftrightarrow> (\<forall>x \<in> set xs. ok x)"
    and "put_all put xs = Inr p \<Longrightarrow> length p = sum_list (map len xs)"
  using assms by (induction xs arbitrary: p) (fastforce simp: )+

lemma put_interface_total:
  "(\<exists>p. put_interface i = Inr p) \<longleftrightarrow> length (endpoints i) \<le> 255"
  "put_interface i = Inr p \<Longrightarrow> length p = interface_len i"
  by (auto simp: put_interface_def interface_len_def try_u8_def)

lemma put_device_total:
  "(\<exists>p. put_device d = Inr p) \<longleftrightarrow> device_fits d"
  "put_device d = Inr p \<Longrightarrow> length p = device_len d"
  using put_all_total(1) [of put_interface, OF put_interface_total]
    put_all_total(2) [of put_interface, OF put_interface_total]
  by (auto simp: put_device_def device_fits_def device_len_def put_u8_str_Inr try_u8_def)

lemma put_devices_fit: "put_all put_device ds = Inr p \<Longrightarrow> d \<in> set ds \<Longrightarrow> device_fits d"
  using put_all_total(1) [of put_device device_fits device_len ds] put_device_total by blast

lemma put_devices_len: "put_all put_device ds = Inr p \<Longrightarrow> length p = sum_list (map device_len ds)"
  using put_all_total(2) [of put_device device_fits device_len ds] put_device_total by blast

lemma put_devices_ex: "\<forall>d \<in> set ds. device_fits d \<Longrightarrow> \<exists>p. put_all put_device ds = Inr p"
  using put_all_total(1) [of put_device device_fits device_len ds] put_device_total by blast

lemma encode_payload_len:
  "wf_message m \<Longrightarrow> encode_payload m = Inr p \<Longrightarrow> length p = payload_len m \<and> fields_fit m"
  by (cases m) (auto simp: put_defs try_u16_def put_devices_len put_devices_fit split: if_splits)

lemma encode_payload_total:
  "wf_message m \<Longrightarrow> fields_fit m \<Longrightarrow> payload_len m \<le> MAX_PAYLOAD \<Longrightarrow> \<exists>p. encode_payload m = Inr p"
  by (cases m) (auto simp: put_defs try_u16_def try_u32_def put_devices_ex)

lemma encode_Inr:
  "encode m = Inr bs \<longleftrightarrow>
     (\<exists>p. encode_payload m = Inr p \<and> length p \<le> MAX_PAYLOAD \<and>
       bs = MAGIC @ [VERSION, ty m] @ u32_to_be_bytes (of_nat (length p)) @ p)"
  by (cases "encode_payload m") (auto simp: encode_def try_u32_def)

lemma encode_fits:
  assumes "wf_message m"
  shows "(\<exists>bs. encode m = Inr bs) \<longleftrightarrow> fields_fit m \<and> payload_len m \<le> MAX_PAYLOAD"
    and "encode m = Inr bs \<Longrightarrow> length bs = HEADER_LEN + payload_len m"
  using encode_payload_len [OF assms] encode_payload_total [OF assms] by (fastforce simp: encode_Inr)+

text \<open>Frames damaged on the way.\<close>

lemma decode_short: "length bs < HEADER_LEN \<Longrightarrow> decode bs = Inl Truncated"
  by (simp only: decode_def if_True)

lemma decode_bad_magic: "HEADER_LEN \<le> length bs \<Longrightarrow> take 4 bs \<noteq> MAGIC \<Longrightarrow> decode bs = Inl BadMagic"
  unfolding decode_def by (auto simp only: not_less [symmetric] if_True if_False simp_thms)

lemma decode_take_frame:
  assumes "encode m = Inr bs" "k < length bs"
  shows "decode (take k bs) = Inl Truncated"
proof (cases "k < HEADER_LEN")
  case True
  then show ?thesis by (intro decode_short) simp
next
  case False
  obtain p len where bs: "bs = MAGIC @ [VERSION, ty m] @ u32_to_be_bytes len @ p"
    and len: "length p = unat len" "unat len \<le> MAX_PAYLOAD"
    using assms(1) by (rule encode_frame)
  let ?h = "MAGIC @ [VERSION, ty m] @ u32_to_be_bytes len"
  have "take k bs = ?h @ take (k - 10) p"
    using False unfolding bs append_assoc [symmetric] take_append by simp
  then have "decode (take k bs) = decode (MAGIC @ [VERSION, ty m] @ u32_to_be_bytes len @ take (k - 10) p)"
    by simp
  also have "\<dots> = Inl Truncated"
    using assms(2) False len unfolding decode_frame by (simp add: bs)
  finally show ?thesis .
qed

lemma decode_extended_frame:
  assumes "encode m = Inr bs" "x \<noteq> []"
  shows "decode (bs @ x) = Inl InvalidPayload"
proof -
  obtain p len where bs: "bs = MAGIC @ [VERSION, ty m] @ u32_to_be_bytes len @ p"
    and len: "length p = unat len" "unat len \<le> MAX_PAYLOAD"
    using assms(1) by (rule encode_frame)
  have "decode (bs @ x) = decode (MAGIC @ [VERSION, ty m] @ u32_to_be_bytes len @ (p @ x))"
    by (simp add: bs)
  then show ?thesis using len assms(2) unfolding decode_frame by simp
qed

lemma decode_other_version:
  assumes "encode m = Inr bs" "v \<noteq> VERSION"
  shows "decode (bs[4 := v]) = Inl (UnsupportedVersion v)"
proof -
  obtain p len where bs: "bs = MAGIC @ [VERSION, ty m] @ u32_to_be_bytes len @ p"
    using assms(1) by (rule encode_frame)
  have "bs[4 := v] = MAGIC @ [v, ty m] @ u32_to_be_bytes len @ p"
    by (simp add: bs numeral_eq_Suc)
  then show ?thesis using assms(2) by (simp only: decode_frame simp_thms if_True)
qed

lemma decode_other_magic:
  assumes "encode m = Inr bs" "i < 4" "b \<noteq> bs ! i"
  shows "decode (bs[i := b]) = Inl BadMagic"
proof -
  obtain p len where bs: "bs = MAGIC @ [VERSION, ty m] @ u32_to_be_bytes len @ p"
    using assms(1) by (rule encode_frame)
  have "i \<in> {0, 1, 2, 3}" using assms(2) by auto
  then have "take 4 (bs[i := b]) \<noteq> MAGIC"
    using assms(3) by (auto simp: bs numeral_eq_Suc)
  moreover have "HEADER_LEN \<le> length (bs[i := b])"
    unfolding length_list_update by (simp add: bs)
  ultimately show ?thesis by (intro decode_bad_magic)
qed

section \<open>Properties\<close>

text \<open>
  C7. Round trip and canonicity of frames: the decoder accepts a byte string as a message
  exactly when the message is well formed and the encoder writes it to these very bytes.
  So every frame that is sent is understood as what was sent, and no message has a second
  wire form.
\<close>

theorem decode_encode_exact: "decode bs = Inr m \<longleftrightarrow> wf_message m \<and> encode m = Inr bs"
  by (rule decode_iff)



text \<open>
  C23. Fail-closed framing: of a frame that the encoder wrote, every proper prefix is reported
  as truncated, every extension as an invalid payload, a changed version byte as an
  unsupported version and a changed magic byte as a bad magic; none of them is accepted.
\<close>

theorem decode_rejects_mangled_frames:
  assumes "encode m = Inr bs"
  shows "(\<forall>k < length bs. decode (take k bs) = Inl Truncated) \<and>
    (\<forall>x. x \<noteq> [] \<longrightarrow> decode (bs @ x) = Inl InvalidPayload) \<and>
    (\<forall>v. v \<noteq> VERSION \<longrightarrow> decode (bs[4 := v]) = Inl (UnsupportedVersion v)) \<and>
    (\<forall>i < 4. \<forall>b. b \<noteq> bs ! i \<longrightarrow> decode (bs[i := b]) = Inl BadMagic)"
  using decode_take_frame [OF assms] decode_extended_frame [OF assms]
    decode_other_version [OF assms] decode_other_magic [OF assms] by simp

theorem decode_rejects_mangled_frames_witness:
  "encode (Detach 7) = Inr [0x46, 0x41, 0x52, 0x42, 2, 3, 0, 0, 0, 4, 0, 0, 0, 7] \<and>
   decode (take 13 [0x46, 0x41, 0x52, 0x42, 2, 3, 0, 0, 0, 4, 0, 0, 0, 7]) = Inl Truncated \<and>
   decode ([0x46, 0x41, 0x52, 0x42, 2, 3, 0, 0, 0, 4, 0, 0, 0, 7][4 := 99]) = Inl (UnsupportedVersion 99)"
proof -
  define bs :: bytes where "bs = [0x46, 0x41, 0x52, 0x42, 2, 3, 0, 0, 0, 4, 0, 0, 0, 7]"
  have e: "encode (Detach 7) = Inr bs"
    by (simp add: bs_def encode_def try_u32_def u32_to_be_bytes_def drop_bit_eq_div)
  have "13 < length bs" by (simp add: bs_def)
  with decode_rejects_mangled_frames [OF e] have "decode (take 13 bs) = Inl Truncated" by blast
  moreover have "99 \<noteq> VERSION" by simp
  with decode_rejects_mangled_frames [OF e] have "decode (bs[4 := 99]) = Inl (UnsupportedVersion 99)"
    by blast
  ultimately show ?thesis using e unfolding bs_def by blast
qed

end
