(* ===== verification/Lease.thy ===== *)
theory Lease
  imports Protocol Fingerprint
begin

text \<open>
  Exclusive device leases (\<^verbatim>\<open>crates/farbus-core/src/lease.rs\<close>). \<open>lease_book\<close> is
  \<open>LeaseBook\<close> with its \<open>HashMap\<close> as a map; each operation returns its result and the new
  book. The locale \<open>lease_service\<close> is what the session handler relies on; its lemmas show
  that a lease is only ever lost by the owner's own release or by a revocation, and the
  interpretation discharges its laws for the code.
\<close>

section \<open>Model\<close>

record lease_book =
  owners :: "device_id \<rightharpoonup> fingerprint"

datatype lease_error =
    AlreadyLeased fingerprint
  | NotOwner fingerprint
  | NotLeased

definition empty_book :: lease_book where
  "empty_book = \<lparr>owners = Map.empty\<rparr>"

definition acquire :: "device_id \<Rightarrow> fingerprint \<Rightarrow> lease_book \<Rightarrow> (lease_error + unit) \<times> lease_book" where
  "acquire device peer b =
     (case owners b device of
        Some owner \<Rightarrow> if owner = peer then (Inr (), b) else (Inl (AlreadyLeased owner), b)
      | None \<Rightarrow> (Inr (), b\<lparr>owners := (owners b)(device \<mapsto> peer)\<rparr>))"

definition release :: "device_id \<Rightarrow> fingerprint \<Rightarrow> lease_book \<Rightarrow> (lease_error + unit) \<times> lease_book" where
  "release device peer b =
     (case owners b device of
        Some owner \<Rightarrow>
          if owner = peer then (Inr (), b\<lparr>owners := (owners b)(device := None)\<rparr>)
          else (Inl (NotOwner owner), b)
      | None \<Rightarrow> (Inl NotLeased, b))"

definition owner :: "lease_book \<Rightarrow> device_id \<Rightarrow> fingerprint option" where
  "owner b device = owners b device"

text \<open>\<open>HashMap::retain\<close> keeps the entries that satisfy the closure.\<close>

definition map_retain :: "('k \<Rightarrow> 'v \<Rightarrow> bool) \<Rightarrow> ('k \<rightharpoonup> 'v) \<Rightarrow> ('k \<rightharpoonup> 'v)" where
  "map_retain keep m = (\<lambda>k. case m k of None \<Rightarrow> None | Some v \<Rightarrow> if keep k v then Some v else None)"

definition release_all :: "fingerprint \<Rightarrow> lease_book \<Rightarrow> lease_book" where
  "release_all peer b = b\<lparr>owners := map_retain (\<lambda>_ owner. owner \<noteq> peer) (owners b)\<rparr>"

definition release_devices :: "device_id list \<Rightarrow> lease_book \<Rightarrow> lease_book" where
  "release_devices devices b =
     b\<lparr>owners := map_retain (\<lambda>device _. \<not> list_ex (\<lambda>removed. removed = device) devices) (owners b)\<rparr>"

section \<open>The lease interface\<close>

datatype ('d, 'p) lease_op =
    Acquire 'd 'p
  | Release 'd 'p
  | ReleaseAll 'p
  | ReleaseDevices "'d list"

text \<open>The operations that end a lease of \<open>p\<close> on \<open>d\<close>.\<close>

fun ends_lease :: "'d \<Rightarrow> 'p \<Rightarrow> ('d, 'p) lease_op \<Rightarrow> bool" where
  "ends_lease d p (Acquire _ _) = False"
| "ends_lease d p (Release d' p') = (d' = d \<and> p' = p)"
| "ends_lease d p (ReleaseAll p') = (p' = p)"
| "ends_lease d p (ReleaseDevices ds) = (d \<in> set ds)"

locale lease_service =
  fixes holder :: "'b \<Rightarrow> 'd \<Rightarrow> 'p option"
    and acq :: "'d \<Rightarrow> 'p \<Rightarrow> 'b \<Rightarrow> ('e + unit) \<times> 'b"
    and rel :: "'d \<Rightarrow> 'p \<Rightarrow> 'b \<Rightarrow> ('e + unit) \<times> 'b"
    and rel_all :: "'p \<Rightarrow> 'b \<Rightarrow> 'b"
    and rel_devices :: "'d list \<Rightarrow> 'b \<Rightarrow> 'b"
  assumes acq_result: "fst (acq d p b) = Inr () \<longleftrightarrow> holder b d \<in> {None, Some p}"
    and acq_holder: "holder (snd (acq d p b)) d' =
      (if d' = d \<and> holder b d = None then Some p else holder b d')"
    and rel_result: "fst (rel d p b) = Inr () \<longleftrightarrow> holder b d = Some p"
    and rel_holder: "holder (snd (rel d p b)) d' =
      (if d' = d \<and> holder b d = Some p then None else holder b d')"
    and rel_all_holder: "holder (rel_all p b) d = (if holder b d = Some p then None else holder b d)"
    and rel_devices_holder: "holder (rel_devices ds b) d = (if d \<in> set ds then None else holder b d)"
begin

lemmas holder_laws = acq_holder rel_holder rel_all_holder rel_devices_holder

fun step :: "('d, 'p) lease_op \<Rightarrow> 'b \<Rightarrow> 'b" where
  "step (Acquire d p) b = snd (acq d p b)"
| "step (Release d p) b = snd (rel d p b)"
| "step (ReleaseAll p) b = rel_all p b"
| "step (ReleaseDevices ds) b = rel_devices ds b"

lemma step_keeps: "holder b d = Some p \<Longrightarrow> \<not> ends_lease d p op \<Longrightarrow> holder (step op b) d = Some p"
  by (cases op) (auto simp: holder_laws)

lemma step_changes: "holder b d = Some p \<Longrightarrow> holder (step op b) d \<noteq> Some p \<Longrightarrow> holder (step op b) d = None"
  by (cases op) (auto simp: holder_laws split: if_splits)

lemma run_keeps:
  "holder b d = Some p \<Longrightarrow> \<forall>op \<in> set ops. \<not> ends_lease d p op \<Longrightarrow> holder (fold step ops b) d = Some p"
  by (induction ops arbitrary: b) (auto simp: step_keeps)

lemma acq_granted: "fst (acq d p b) = Inr () \<Longrightarrow> holder (snd (acq d p b)) d = Some p"
  by (auto simp: acq_result acq_holder)

lemma acq_denied: "fst (acq d p b) \<noteq> Inr () \<Longrightarrow> \<exists>q. q \<noteq> p \<and> holder (snd (acq d p b)) d = Some q"
  by (auto simp: acq_result acq_holder)

end

lemma map_retain_Some [simp]: "map_retain keep m k = Some v \<longleftrightarrow> m k = Some v \<and> keep k v"
  by (auto simp: map_retain_def split: option.splits)

lemma map_retain_None: "map_retain keep m k = None \<longleftrightarrow> (\<forall>v. m k = Some v \<longrightarrow> \<not> keep k v)"
  by (auto simp: map_retain_def split: option.splits)

interpretation lb: lease_service owner acquire release release_all release_devices
  by unfold_locales
     (auto simp: owner_def acquire_def release_def release_all_def release_devices_def map_retain_def
       list_ex_iff split: option.splits)

text \<open>The operations run on the lease book itself.\<close>

fun lease_step :: "(device_id, fingerprint) lease_op \<Rightarrow> lease_book \<Rightarrow> lease_book" where
  "lease_step (Acquire d p) b = snd (acquire d p b)"
| "lease_step (Release d p) b = snd (release d p b)"
| "lease_step (ReleaseAll p) b = release_all p b"
| "lease_step (ReleaseDevices ds) b = release_devices ds b"

lemma lease_step_eq: "lb.step = lease_step"
proof (intro ext)
  show "lb.step op b = lease_step op b" for op b by (cases op) simp_all
qed

section \<open>Properties\<close>

text \<open>
  Leases are exclusive and cannot be stolen: whatever sequence of lease operations other
  peers run, a peer keeps its lease on a device until it releases the device, all its leases
  are released, or the device is revoked.
\<close>

lemma lease_kept_until_ended:
  assumes "owner b d = Some p" and "\<forall>op \<in> set ops. \<not> ends_lease d p op"
  shows "owner (fold lease_step ops b) d = Some p"
  using lb.run_keeps [OF assms] by (simp add: lease_step_eq)

lemma lease_kept_until_ended_example:
  "owner (fold lease_step [Acquire 1 [9], Release 1 [9], ReleaseAll [9], ReleaseDevices [2]]
     (snd (acquire 1 [7] empty_book))) 1 = Some [7]"
  by (rule lease_kept_until_ended) (simp_all add: owner_def acquire_def empty_book_def)

text \<open>
  What a lease request does: it succeeds exactly when the device is free or already leased
  by the same peer, after which that peer holds it; otherwise the error names the peer that
  holds the device and nothing changes.
\<close>

lemma acquire_spec:
  "(owner b d \<in> {None, Some p} \<longrightarrow>
      fst (acquire d p b) = Inr () \<and> owners (snd (acquire d p b)) = (owners b)(d \<mapsto> p)) \<and>
   (\<forall>q. owner b d = Some q \<and> q \<noteq> p \<longrightarrow> acquire d p b = (Inl (AlreadyLeased q), b))"
  by (auto simp: acquire_def owner_def fun_upd_idem)

lemma acquire_spec_example:
  "acquire 1 [9] (snd (acquire 1 [7] empty_book)) = (Inl (AlreadyLeased [7]), snd (acquire 1 [7] empty_book))"
  using acquire_spec [of "snd (acquire 1 [7] empty_book)" 1 "[9]"]
  by (simp add: owner_def acquire_def empty_book_def)

end
