(* ===== verification/Urb.thy ===== *)
theory Urb
  imports Protocol
begin

text \<open>
  The in-process USB emulator of \<^verbatim>\<open>crates/farbus-core/src/urb.rs\<close>, which completes every URB of
  an emulated device and of the plain USB/IP proxy.
\<close>

section \<open>Model\<close>

definition hid_keyboard_descriptor :: bytes where
  "hid_keyboard_descriptor =
     [18, 1, 0x00, 0x02, 0, 0, 0, 8, 0x6d, 0x04, 0x1c, 0xc3, 0x00, 0x01, 1, 2, 0, 1]"

definition serial_descriptor :: bytes where
  "serial_descriptor =
     [18, 1, 0x00, 0x02, 0xff, 0, 0, 8, 0x03, 0x04, 0x01, 0x60, 0x00, 0x06, 1, 2, 0, 1]"

definition mass_storage_descriptor :: bytes where
  "mass_storage_descriptor =
     [18, 1, 0x00, 0x02, 8, 6, 80, 64, 0x81, 0x07, 0x67, 0x55, 0x00, 0x01, 1, 2, 0, 1]"

definition completed :: "u32 \<Rightarrow> i32 \<Rightarrow> bytes \<Rightarrow> urb_complete" where
  "completed seq st dat = \<lparr>complete_seq = seq, complete_status = st, complete_data = dat\<rparr>"

definition control_complete :: "urb_submit \<Rightarrow> urb_complete" where
  "control_complete submit =
     (if length (submit_data submit) \<ge> 8 \<and> submit_data submit ! 1 = 0x06
      then completed (submit_seq submit) 0
        (if submit_device_id submit = 1 then hid_keyboard_descriptor
         else if submit_device_id submit = 2 then serial_descriptor
         else mass_storage_descriptor)
      else completed (submit_seq submit) 0 [])"

definition interrupt_complete :: "urb_submit \<Rightarrow> urb_complete" where
  "interrupt_complete submit =
     (if endpoint submit AND 0x80 \<noteq> 0
      then completed (submit_seq submit) 0 [0x00, 0x41, 0x00, 0x00, 0x00, 0x00, 0x00, 0x00]
      else completed (submit_seq submit) 0 [])"

text \<open>\<open>Ord::clamp\<close>.\<close>

definition clamp_nat :: "nat \<Rightarrow> nat \<Rightarrow> nat \<Rightarrow> nat" where
  "clamp_nat lo hi x = (if x < lo then lo else if x > hi then hi else x)"

definition bulk_complete :: "urb_submit \<Rightarrow> urb_complete" where
  "bulk_complete submit =
     (if endpoint submit AND 0x80 \<noteq> 0
      then let requested = clamp_nat 1 65536 (unat (requested_length submit))
           in completed (submit_seq submit) 0 (map (\<lambda>i. of_nat (i mod 251)) [0..<requested])
      else completed (submit_seq submit) 0 [])"

definition complete_urb :: "urb_submit \<Rightarrow> urb_complete" where
  "complete_urb submit =
     (case transfer submit of
        Control \<Rightarrow> control_complete submit
      | Interrupt \<Rightarrow> interrupt_complete submit
      | Bulk \<Rightarrow> bulk_complete submit
      | Isochronous \<Rightarrow> completed (submit_seq submit) (- 32) [])"

section \<open>Lemmas\<close>

lemmas urb_defs = complete_urb_def control_complete_def interrupt_complete_def bulk_complete_def
  completed_def hid_keyboard_descriptor_def serial_descriptor_def mass_storage_descriptor_def

lemma complete_urb_seq: "complete_seq (complete_urb u) = submit_seq u"
  by (simp add: urb_defs Let_def split: transfer_type.splits)

lemma length_complete_urb: "length (complete_data (complete_urb u)) \<le> 65536"
  by (simp add: urb_defs Let_def clamp_nat_def split: transfer_type.splits)

text \<open>
  Every completion the emulator gives answers the submitted sequence number and fits one
  frame: the encoder accepts it.
\<close>

lemma complete_urb_answers:
  "complete_seq (complete_urb u) = submit_seq u \<and> (\<exists>bs. encode (UrbComplete (complete_urb u)) = Inr bs)"
proof -
  have "payload_len (UrbComplete (complete_urb u)) \<le> MAX_PAYLOAD"
    using length_complete_urb [of u] by simp
  then show ?thesis
    using encode_fits(1) [of "UrbComplete (complete_urb u)"] complete_urb_seq [of u] by simp
qed

end
