(* ===== verification/Inventory.thy ===== *)
theory Inventory
  imports Protocol Ordered_Map
begin

text \<open>
  The device inventory of \<^verbatim>\<open>crates/farbus-core/src/usb.rs\<close>: devices by id, stable ids by device
  key, and one presence flag per device. The flags are \<open>Arc<AtomicBool>\<close>, shared with the
  URBs in flight, so they live in an explicit store \<open>cells\<close> and the inventory holds their
  addresses; an address stays valid for whoever copied it.
  The lemmas give the invariant of the inventory, that \<open>refresh_hosts\<close> keeps it, keeps the id
  of every device that stays, never reuses the id of one that left, and switches off exactly the
  flags of the devices that left.
\<close>

section \<open>Data\<close>

datatype device_backend = Emulated | Host

record local_device =
  info :: device_info
  backend :: device_backend

record device_key =
  key_backend :: device_backend
  key_bus_id :: string
  key_vid :: u16
  key_pid :: u16

text \<open>\<open>impl From<&LocalDevice> for DeviceKey\<close>.\<close>

definition key_of :: "local_device \<Rightarrow> device_key" where
  "key_of device = \<lparr>key_backend = backend device, key_bus_id = bus_id (info device),
     key_vid = vid (info device), key_pid = pid (info device)\<rparr>"

record inventory_delta =
  added :: "device_id list"
  removed :: "device_id list"

record device_inventory =
  present :: "(u32, local_device) btree"
  known_ids :: "device_key \<rightharpoonup> device_id"
  presence :: "u32 \<rightharpoonup> nat"
  next_id :: u32
  cells :: "bool list"

text \<open>\<open>device.info.id = id\<close>.\<close>

definition set_id :: "device_id \<Rightarrow> local_device \<Rightarrow> local_device" where
  "set_id did device = device\<lparr>info := (info device)\<lparr>info_id := did\<rparr>\<rparr>"

section \<open>Operations\<close>

definition allocate_id :: "device_inventory \<Rightarrow> device_id \<times> device_inventory" where
  "allocate_id v = (next_id v, v\<lparr>next_id := saturating_inc (next_id v)\<rparr>)"

text \<open>\<open>presence.insert(id, Arc::new(AtomicBool::new(true)))\<close>: a fresh cell.\<close>

definition insert_presence :: "u32 \<Rightarrow> device_inventory \<Rightarrow> device_inventory" where
  "insert_presence did v =
     v\<lparr>presence := (presence v)(did \<mapsto> length (cells v)), cells := cells v @ [True]\<rparr>"

definition add_device :: "local_device \<Rightarrow> device_inventory \<Rightarrow> device_inventory" where
  "add_device device v =
     (let key = key_of device;
          requested = info_id (info device);
          (did, v1) = (if requested \<noteq> 0 \<and> bt_get (present v) requested = None
                      then (requested, v\<lparr>next_id := max (next_id v) (saturating_inc requested)\<rparr>)
                      else allocate_id v);
          v2 = insert_presence did (v1\<lparr>known_ids := (known_ids v1)(key \<mapsto> did)\<rparr>)
      in v2\<lparr>present := bt_insert did (set_id did device) (present v2)\<rparr>)"

definition empty_inventory :: device_inventory where
  "empty_inventory =
     \<lparr>present = [], known_ids = Map.empty, presence = Map.empty, next_id = 1, cells = []\<rparr>"

definition inventory_new :: "local_device list \<Rightarrow> device_inventory" where
  "inventory_new devices = fold add_device devices empty_inventory"

definition snapshot :: "device_inventory \<Rightarrow> local_device list" where
  "snapshot v = bt_values (present v)"

definition inventory_get :: "device_inventory \<Rightarrow> device_id \<Rightarrow> local_device option" where
  "inventory_get v did = bt_get (present v) did"

text \<open>A cloned \<open>Arc\<close> is the address of the cell.\<close>

definition presence_token :: "device_inventory \<Rightarrow> device_id \<Rightarrow> nat option" where
  "presence_token v did = presence v did"

text \<open>\<open>token.load(Acquire)\<close>.\<close>

definition cell_load :: "device_inventory \<Rightarrow> nat \<Rightarrow> bool" where
  "cell_load v a = (a < length (cells v) \<and> cells v ! a)"

text \<open>The first loop of \<open>refresh_hosts\<close>: ids for the scanned devices.\<close>

definition scan_step ::
    "local_device \<Rightarrow> device_inventory \<times> device_id list \<times> (device_id \<times> local_device) list
     \<Rightarrow> device_inventory \<times> device_id list \<times> (device_id \<times> local_device) list" where
  "scan_step device = (\<lambda>(v, new_ids, next_hosts).
     let key = key_of device;
         (did, v1) = (case known_ids v key of
             Some did \<Rightarrow> (did, v)
           | None \<Rightarrow> let (did, v') = allocate_id v
                     in (did, v'\<lparr>known_ids := (known_ids v')(key \<mapsto> did)\<rparr>));
         new_ids' = (if bt_get (present v1) did = None then new_ids @ [did] else new_ids)
     in (v1, new_ids', next_hosts @ [(did, set_id did device)]))"

text \<open>The second loop: a removed device leaves every table and its flag is switched off.\<close>

definition remove_host :: "device_id \<Rightarrow> device_inventory \<Rightarrow> device_inventory" where
  "remove_host did v =
     (let v1 = (case bt_get (present v) did of
                  Some device \<Rightarrow> v\<lparr>present := bt_remove did (present v),
                                   known_ids := (known_ids v)(key_of device := None)\<rparr>
                | None \<Rightarrow> v)
      in case presence v1 did of
           Some token \<Rightarrow> v1\<lparr>presence := (presence v1)(did := None), cells := (cells v1)[token := False]\<rparr>
         | None \<Rightarrow> v1)"

text \<open>The third loop: \<open>presence.entry(id).or_insert_with(..)\<close>, \<open>present.insert\<close>.\<close>

definition insert_host :: "device_id \<times> local_device \<Rightarrow> device_inventory \<Rightarrow> device_inventory" where
  "insert_host = (\<lambda>(did, device) v.
     let v1 = (case presence v did of Some _ \<Rightarrow> v | None \<Rightarrow> insert_presence did v)
     in v1\<lparr>present := bt_insert did device (present v1)\<rparr>)"

definition refresh_hosts :: "local_device list \<Rightarrow> device_inventory \<Rightarrow> inventory_delta \<times> device_inventory" where
  "refresh_hosts scanned v =
     (let old_host_ids = map (\<lambda>d. info_id (info d)) (filter (\<lambda>d. backend d = Host) (snapshot v));
          (v1, new_ids, next_hosts) = fold scan_step scanned (v, [], []);
          next_set = fst ` set next_hosts;
          gone = filter (\<lambda>did. did \<notin> next_set) old_host_ids;
          v2 = fold remove_host gone v1;
          v3 = fold insert_host next_hosts v2
      in (\<lparr>added = new_ids, removed = gone\<rparr>, v3))"

section \<open>The built-in devices\<close>

text \<open>\<open>usb_interface\<close> and \<open>lab_device\<close> only abbreviate the struct literals.\<close>

definition usb_interface :: "u8 \<Rightarrow> u8 \<Rightarrow> u8 \<Rightarrow> u8 \<Rightarrow> bytes \<Rightarrow> usb_interface_info" where
  "usb_interface n c sc p eps = \<lparr>interface_number = n, interface_class = c, interface_subclass = sc,
     interface_protocol = p, endpoints = eps\<rparr>"

definition lab_device ::
    "device_id \<Rightarrow> string \<Rightarrow> u16 \<Rightarrow> u16 \<Rightarrow> u8 \<Rightarrow> usb_speed \<Rightarrow> string \<Rightarrow> usb_interface_info list \<Rightarrow> local_device" where
  "lab_device did bus v p c sp name ifaces =
     \<lparr>info = \<lparr>info_id = did, bus_id = bus, vid = v, pid = p, usb_class = c, speed = sp, product = name,
       exported = True, interfaces = ifaces\<rparr>, backend = Emulated\<rparr>"

definition simulated_lab_devices :: "local_device list" where
  "simulated_lab_devices =
    [lab_device 1 ''1-1.2'' 0x046d 0xc31c 3 SpeedFull ''USB Keyboard'' [usb_interface 0 3 1 1 [0x81]],
     lab_device 2 ''1-2'' 0x0403 0x6001 255 SpeedFull ''FT232 Serial'' [usb_interface 0 255 255 255 [0x81, 0x02]],
     lab_device 3 ''2-1'' 0x0781 0x5567 8 SpeedHigh ''USB Disk'' [usb_interface 0 8 6 0x50 [0x81, 0x02]],
     lab_device 4 ''1-4'' 0x046d 0xc52b 0 SpeedFull ''Composite Receiver''
       [usb_interface 0 3 1 1 [0x81], usb_interface 1 3 1 2 [0x82]]]"

section \<open>Invariant\<close>

definition inv_ids :: "device_inventory \<Rightarrow> bool" where
  "inv_ids v \<longleftrightarrow> bt_sorted (present v) \<and>
     (\<forall>i d. inventory_get v i = Some d \<longrightarrow> info_id (info d) = i \<and> unat i < unat (next_id v))"

definition inv_keys :: "device_inventory \<Rightarrow> bool" where
  "inv_keys v \<longleftrightarrow>
     (\<forall>k i. known_ids v k = Some i \<longleftrightarrow> (\<exists>d. inventory_get v i = Some d \<and> key_of d = k))"

definition inv_presence :: "device_inventory \<Rightarrow> bool" where
  "inv_presence v \<longleftrightarrow> dom (presence v) = dom (inventory_get v) \<and> inj_on (presence v) (dom (presence v)) \<and>
     (\<forall>i a. presence v i = Some a \<longrightarrow> cell_load v a)"

definition inventory_wf :: "device_inventory \<Rightarrow> bool" where
  "inventory_wf v \<longleftrightarrow> inv_ids v \<and> inv_keys v \<and> inv_presence v"

text \<open>Ids are handed out from a \<open>u32\<close> that saturates; \<open>n\<close> more fit.\<close>

definition room :: "nat \<Rightarrow> device_inventory \<Rightarrow> bool" where
  "room n v \<longleftrightarrow> unat (next_id v) + n < 2 ^ 32"

lemma set_id_simps [simp]:
  "key_of (set_id i d) = key_of d" "info_id (info (set_id i d)) = i" "backend (set_id i d) = backend d"
  by (simp_all add: key_of_def set_id_def)

lemma unat_saturating_inc_u32: "unat w + 1 < 2 ^ 32 \<Longrightarrow> unat (saturating_inc (w :: u32)) = Suc (unat w)"
  by (simp add: unat_saturating_inc)

subsection \<open>The scan loop\<close>

text \<open>
  What the scan loop leaves: the tables of the devices are as before, every scanned key has an
  id, ids given before stay, and the new ones are fresh and distinct.
\<close>

definition scanned_from ::
    "device_inventory \<Rightarrow> local_device list \<Rightarrow>
     device_inventory \<times> device_id list \<times> (device_id \<times> local_device) list \<Rightarrow> bool" where
  "scanned_from v ds = (\<lambda>(v1, new_ids, hosts).
     present v1 = present v \<and> presence v1 = presence v \<and> cells v1 = cells v \<and>
     unat (next_id v) \<le> unat (next_id v1) \<and> unat (next_id v1) \<le> unat (next_id v) + length ds \<and>
     (\<forall>k i. known_ids v k = Some i \<longrightarrow> known_ids v1 k = Some i) \<and>
     dom (known_ids v1) = dom (known_ids v) \<union> key_of ` set ds \<and>
     (\<forall>k i. known_ids v1 k = Some i \<longrightarrow>
        known_ids v k = Some i \<or> unat (next_id v) \<le> unat i \<and> unat i < unat (next_id v1)) \<and>
     (\<forall>k k' i. known_ids v1 k = Some i \<and> known_ids v1 k' = Some i \<longrightarrow> k = k') \<and>
     hosts = map (\<lambda>d. let i = the (known_ids v1 (key_of d)) in (i, set_id i d)) ds \<and>
     new_ids = filter (\<lambda>i. inventory_get v i = None) (map fst hosts))"

lemma known_id_less:
  "inventory_wf v \<Longrightarrow> known_ids v k = Some i \<Longrightarrow> unat i < unat (next_id v)"
  by (auto simp: inventory_wf_def inv_keys_def inv_ids_def)

lemma known_id_inject:
  "inventory_wf v \<Longrightarrow> known_ids v k = Some i \<Longrightarrow> known_ids v k' = Some i \<Longrightarrow> k = k'"
  by (auto simp: inventory_wf_def inv_keys_def)

lemma scanned_from_Nil: "inventory_wf v \<Longrightarrow> scanned_from v [] (v, [], [])"
  by (auto simp: scanned_from_def dest: known_id_inject)

lemma scan_step_known:
  assumes "known_ids v1 (key_of x) = Some i"
  shows "scan_step x (v1, new, hosts) =
    (v1, if inventory_get v1 i = None then new @ [i] else new, hosts @ [(i, set_id i x)])"
  using assms by (simp add: scan_step_def Let_def inventory_get_def)

lemma scan_step_fresh:
  assumes "known_ids v1 (key_of x) = None"
  shows "scan_step x (v1, new, hosts) =
    (v1\<lparr>next_id := saturating_inc (next_id v1), known_ids := (known_ids v1)(key_of x \<mapsto> next_id v1)\<rparr>,
     if inventory_get v1 (next_id v1) = None then new @ [next_id v1] else new,
     hosts @ [(next_id v1, set_id (next_id v1) x)])"
  using assms by (simp add: scan_step_def Let_def inventory_get_def allocate_id_def)

lemma inventory_get_cong: "present v1 = present v \<Longrightarrow> inventory_get v1 = inventory_get v"
  by (simp add: inventory_get_def fun_eq_iff)

lemma scanned_from_known:
  assumes s: "scanned_from v ds (v1, new, hosts)" and k: "known_ids v1 (key_of x) = Some i"
  shows "scanned_from v (ds @ [x]) (scan_step x (v1, new, hosts))"
proof -
  note s' = s [unfolded scanned_from_def prod.case]
  have g: "inventory_get v1 = inventory_get v"
    using s' by (intro inventory_get_cong) blast
  have d: "dom (known_ids v1) = dom (known_ids v) \<union> key_of ` set (ds @ [x])"
    using s' k by auto
  show ?thesis
    unfolding scan_step_known [OF k] scanned_from_def prod.case
  proof (intro conjI, goal_cases)
    case 7
    show ?case by (rule d)
  qed (use s' g k in \<open>auto simp: Let_def\<close>)
qed

lemma scanned_from_fresh:
  assumes wf: "inventory_wf v" and r: "room (Suc (length ds)) v"
    and s: "scanned_from v ds (v1, new, hosts)" and k: "known_ids v1 (key_of x) = None"
  shows "scanned_from v (ds @ [x]) (scan_step x (v1, new, hosts))"
proof -
  note s' = s [unfolded scanned_from_def prod.case]
  have n: "unat (saturating_inc (next_id v1)) = Suc (unat (next_id v1))"
    using s' r by (intro unat_saturating_inc_u32) (auto simp: room_def)
  have lt: "\<forall>j k. known_ids v1 k = Some j \<longrightarrow> unat j < unat (next_id v1)"
    using s' known_id_less [OF wf] by fastforce
  then have ne: "\<forall>k. known_ids v1 k \<noteq> Some (next_id v1)" by blast
  have dm: "dom (known_ids v1) = dom (known_ids v) \<union> key_of ` set ds" using s' by blast
  have "key_of x \<notin> dom (known_ids v1)" using k by blast
  with dm have kv: "known_ids v (key_of x) = None" and kx: "key_of x \<notin> key_of ` set ds" by auto
  then have kd: "\<forall>d \<in> set ds. key_of d \<noteq> key_of x" by (metis imageI)
  have g: "inventory_get v1 = inventory_get v"
    using s' by (intro inventory_get_cong) blast
  show ?thesis
    unfolding scan_step_fresh [OF k] scanned_from_def prod.case
  proof (intro conjI allI impI, goal_cases)
    case (8 kk i)
    then show ?case using s' n lt by (auto split: if_splits)
  next
    case (9 k1 k2 i)
    then show ?case using s' ne by (auto split: if_splits)
  qed (use s' n g kv kd in \<open>auto simp: Let_def split: if_splits\<close>)
qed

lemma scanned_from_fold:
  "inventory_wf v \<Longrightarrow> room (length ds) v \<Longrightarrow> scanned_from v ds (fold scan_step ds (v, [], []))"
proof (induction ds rule: rev_induct)
  case Nil
  then show ?case by (simp add: scanned_from_Nil)
next
  case (snoc x ds)
  obtain v1 new hosts where st: "fold scan_step ds (v, [], []) = (v1, new, hosts)"
    by (cases "fold scan_step ds (v, [], [])")
  from snoc have s: "scanned_from v ds (v1, new, hosts)" by (simp add: st room_def)
  show ?case
    using scanned_from_known [OF s, of x] scanned_from_fresh [OF snoc.prems(1) _ s, of x] snoc.prems(2)
    by (cases "known_ids v1 (key_of x)") (simp_all add: st room_def)
qed

subsection \<open>The removal and the insertion loop\<close>

lemma remove_host_fields:
  assumes "bt_sorted (present v)"
  shows "bt_sorted (present (remove_host i v))"
    and "inventory_get (remove_host i v) = (inventory_get v)(i := None)"
    and "known_ids (remove_host i v) =
      (\<lambda>k. if \<exists>d. inventory_get v i = Some d \<and> key_of d = k then None else known_ids v k)"
    and "presence (remove_host i v) = (presence v)(i := None)"
    and "next_id (remove_host i v) = next_id v"
    and "cells (remove_host i v) =
      (case presence v i of None \<Rightarrow> cells v | Some a \<Rightarrow> (cells v)[a := False])"
  using assms
  by (auto simp: remove_host_def Let_def inventory_get_def bt.get_remove bt.inv_remove fun_eq_iff
      split: option.splits)

lemma fold_remove_host:
  assumes "bt_sorted (present v)"
  shows "bt_sorted (present (fold remove_host gone v)) \<and>
    inventory_get (fold remove_host gone v) = (\<lambda>i. if i \<in> set gone then None else inventory_get v i) \<and>
    known_ids (fold remove_host gone v) =
      (\<lambda>k. if \<exists>i \<in> set gone. \<exists>d. inventory_get v i = Some d \<and> key_of d = k then None else known_ids v k) \<and>
    presence (fold remove_host gone v) = (\<lambda>i. if i \<in> set gone then None else presence v i) \<and>
    next_id (fold remove_host gone v) = next_id v"
  using assms
proof (induction gone arbitrary: v)
  case (Cons g gone)
  from Cons.IH [OF remove_host_fields(1) [OF Cons.prems, of g]] show ?case
    by (auto simp: remove_host_fields [OF Cons.prems] fun_eq_iff)
qed simp

text \<open>The flags of removed devices are switched off, the others are untouched.\<close>

lemma fold_remove_host_cells:
  assumes "bt_sorted (present v)"
  shows "length (cells (fold remove_host gone v)) = length (cells v) \<and>
    (\<forall>a < length (cells v). cells (fold remove_host gone v) ! a \<longleftrightarrow>
       cells v ! a \<and> \<not> (\<exists>i \<in> set gone. presence v i = Some a))"
  using assms
proof (induction gone arbitrary: v)
  case (Cons g gone)
  let ?w = "remove_host g v"
  have l: "length (cells ?w) = length (cells v)"
    by (simp add: remove_host_fields [OF Cons.prems] split: option.splits)
  have c: "cells ?w ! a \<longleftrightarrow> cells v ! a \<and> presence v g \<noteq> Some a" if "a < length (cells v)" for a
    using that
    by (cases "presence v g") (auto simp: remove_host_fields(6) [OF Cons.prems], metis nth_list_update_eq nth_list_update_neq)
  from Cons.IH [OF remove_host_fields(1) [OF Cons.prems, of g]] show ?case
    using l c by (auto simp: remove_host_fields(4) [OF Cons.prems] split: if_splits)
qed simp

lemma insert_host_fields:
  assumes "bt_sorted (present v)"
  shows "bt_sorted (present (insert_host (i, d) v))"
    and "inventory_get (insert_host (i, d) v) = (inventory_get v)(i \<mapsto> d)"
    and "known_ids (insert_host (i, d) v) = known_ids v"
    and "next_id (insert_host (i, d) v) = next_id v"
    and "presence (insert_host (i, d) v) =
      (if presence v i = None then (presence v)(i \<mapsto> length (cells v)) else presence v)"
    and "cells (insert_host (i, d) v) = (if presence v i = None then cells v @ [True] else cells v)"
  using assms
  by (auto simp: insert_host_def insert_presence_def Let_def inventory_get_def bt.get_insert bt.inv_insert
      fun_eq_iff split: option.splits)

lemma fold_insert_host:
  assumes "bt_sorted (present v)"
  shows "bt_sorted (present (fold insert_host hosts v)) \<and>
    inventory_get (fold insert_host hosts v) = inventory_get v ++ map_of (rev hosts) \<and>
    known_ids (fold insert_host hosts v) = known_ids v \<and>
    next_id (fold insert_host hosts v) = next_id v"
  using assms
proof (induction hosts arbitrary: v)
  case (Cons h hosts)
  obtain i d where h: "h = (i, d)" by (cases h)
  from Cons.IH [OF insert_host_fields(1) [OF Cons.prems, of i d]] show ?case
    by (auto simp: h insert_host_fields [OF Cons.prems] fun_eq_iff map_add_def split: option.splits)
qed simp

text \<open>Tokens of devices that were there keep their address, the others get a fresh one.\<close>

lemma fold_insert_host_presence:
  assumes "bt_sorted (present v)" "\<forall>i a. presence v i = Some a \<longrightarrow> a < length (cells v)"
    "inj_on (presence v) (dom (presence v))"
  shows "(\<forall>i a. presence v i = Some a \<longrightarrow> presence (fold insert_host hosts v) i = Some a) \<and>
    dom (presence (fold insert_host hosts v)) = dom (presence v) \<union> fst ` set hosts \<and>
    inj_on (presence (fold insert_host hosts v)) (dom (presence (fold insert_host hosts v))) \<and>
    (\<exists>n. cells (fold insert_host hosts v) = cells v @ replicate n True) \<and>
    (\<forall>i a. presence (fold insert_host hosts v) i = Some a \<longrightarrow>
       presence v i = Some a \<or> length (cells v) \<le> a \<and> a < length (cells (fold insert_host hosts v)))"
  using assms
proof (induction hosts arbitrary: v)
  case Nil
  then show ?case by (auto intro: exI [of _ 0])
next
  case (Cons h hosts)
  obtain i d where h: "h = (i, d)" by (cases h)
  show ?case
  proof (cases "presence v i")
    case None
    let ?w = "insert_host (i, d) v"
    have w: "presence ?w = (presence v)(i \<mapsto> length (cells v))" "cells ?w = cells v @ [True]"
      using None by (simp_all add: insert_host_fields [OF Cons.prems(1)])
    have "\<forall>j a. presence ?w j = Some a \<longrightarrow> a < length (cells ?w)"
      using Cons.prems(2) by (auto simp: w intro: less_SucI)
    moreover have "inj_on (presence ?w) (dom (presence ?w))"
      using Cons.prems(2,3) None by (auto simp: w inj_on_def) (metis less_irrefl)+
    ultimately have IH: "(\<forall>j a. presence ?w j = Some a \<longrightarrow> presence (fold insert_host hosts ?w) j = Some a) \<and>
        dom (presence (fold insert_host hosts ?w)) = dom (presence ?w) \<union> fst ` set hosts \<and>
        inj_on (presence (fold insert_host hosts ?w)) (dom (presence (fold insert_host hosts ?w))) \<and>
        (\<exists>n. cells (fold insert_host hosts ?w) = cells ?w @ replicate n True) \<and>
        (\<forall>j a. presence (fold insert_host hosts ?w) j = Some a \<longrightarrow>
           presence ?w j = Some a \<or> length (cells ?w) \<le> a \<and> a < length (cells (fold insert_host hosts ?w)))"
      by (intro Cons.IH) (simp_all add: insert_host_fields(1) [OF Cons.prems(1)])
    then obtain n where n: "cells (fold insert_host hosts ?w) = cells v @ [True] @ replicate n True"
      by (auto simp: w)
    show ?thesis
      unfolding h fold_simps
    proof (intro conjI allI impI, goal_cases)
      case (1 j a)
      then have "presence ?w j = Some a" using None by (auto simp: w)
      with IH show ?case by blast
    next
      case 4
      show ?case using n by (intro exI [of _ "Suc n"]) simp
    next
      case (5 j a)
      then have "presence ?w j = Some a \<or> length (cells ?w) \<le> a \<and> a < length (cells (fold insert_host hosts ?w))"
        using IH by blast
      then show ?case using n by (auto simp: w split: if_splits)
    qed (use IH None in \<open>auto simp: w split: if_splits\<close>)
  next
    case (Some b)
    then have "presence (insert_host (i, d) v) = presence v" "cells (insert_host (i, d) v) = cells v"
      by (simp_all add: insert_host_fields [OF Cons.prems(1)])
    with Some Cons.IH [OF insert_host_fields(1) [OF Cons.prems(1), of i d]] Cons.prems(2,3) show ?thesis
      by (auto simp: h insert_absorb domIff)
  qed
qed

subsection \<open>The whole refresh\<close>

lemma set_old_host_ids:
  assumes "inventory_wf v"
  shows "set (map (\<lambda>d. info_id (info d)) (filter (\<lambda>d. backend d = Host) (snapshot v))) =
    {i. \<exists>d. inventory_get v i = Some d \<and> backend d = Host}"
proof -
  have "set (snapshot v) = ran (inventory_get v)"
    using assms by (simp add: inventory_wf_def inv_ids_def snapshot_def bt.set_vals inventory_get_def [abs_def])
  then show ?thesis using assms by (auto simp: inventory_wf_def inv_ids_def ran_def)
qed

text \<open>
  A refresh in closed form: \<open>K\<close> is the key table after the scan loop and \<open>H\<close> the scanned
  devices by id.
\<close>

definition refreshed ::
    "device_inventory \<Rightarrow> local_device list \<Rightarrow> (device_key \<rightharpoonup> device_id) \<Rightarrow> (device_id \<rightharpoonup> local_device) \<Rightarrow>
     inventory_delta \<Rightarrow> device_inventory \<Rightarrow> bool" where
  "refreshed v scanned K H delta v' \<longleftrightarrow>
     (\<forall>k i. known_ids v k = Some i \<longrightarrow> K k = Some i) \<and>
     dom K = dom (known_ids v) \<union> key_of ` set scanned \<and>
     (\<forall>k i. K k = Some i \<longrightarrow>
        known_ids v k = Some i \<or> unat (next_id v) \<le> unat i \<and> unat i < unat (next_id v')) \<and>
     (\<forall>k k' i. K k = Some i \<and> K k' = Some i \<longrightarrow> k = k') \<and>
     (\<forall>i d. H i = Some d \<longrightarrow> (\<exists>x \<in> set scanned. K (key_of x) = Some i \<and> d = set_id i x)) \<and>
     (\<forall>i. H i = None \<longleftrightarrow> (\<forall>x \<in> set scanned. K (key_of x) \<noteq> Some i)) \<and>
     set (removed delta) = {i. \<exists>d. inventory_get v i = Some d \<and> backend d = Host \<and> H i = None} \<and>
     set (added delta) = {i. inventory_get v i = None \<and> H i \<noteq> None} \<and>
     unat (next_id v) \<le> unat (next_id v') \<and>
     bt_sorted (present v') \<and>
     inventory_get v' = (\<lambda>i. if i \<in> set (removed delta) then None else inventory_get v i) ++ H \<and>
     known_ids v' = (\<lambda>k. if \<exists>i \<in> set (removed delta). \<exists>d. inventory_get v i = Some d \<and> key_of d = k
                        then None else K k)"

lemma map_of_rev_hosts:
  fixes K :: "device_key \<rightharpoonup> device_id"
  assumes "key_of ` set ds \<subseteq> dom K"
    "hosts = map (\<lambda>d. let i = the (K (key_of d)) in (i, set_id i d)) ds"
  shows "map_of (rev hosts) i = Some d \<Longrightarrow> \<exists>x \<in> set ds. K (key_of x) = Some i \<and> d = set_id i x"
    and "map_of (rev hosts) i = None \<longleftrightarrow> (\<forall>x \<in> set ds. K (key_of x) \<noteq> Some i)"
proof -
  assume "map_of (rev hosts) i = Some d"
  then have "(i, d) \<in> set hosts" by (auto dest: map_of_SomeD)
  with assms show "\<exists>x \<in> set ds. K (key_of x) = Some i \<and> d = set_id i x"
    by (fastforce simp: Let_def image_subset_iff)
next
  show "map_of (rev hosts) i = None \<longleftrightarrow> (\<forall>x \<in> set ds. K (key_of x) \<noteq> Some i)"
    using assms by (force simp: Let_def map_of_eq_None_iff image_subset_iff image_image)
qed

lemma refresh_hosts_refreshed:
  assumes wf: "inventory_wf v" and r: "room (length scanned) v"
    and run: "refresh_hosts scanned v = (delta, v')"
  shows "\<exists>K H. refreshed v scanned K H delta v'"
proof -
  obtain v1 new hosts where st: "fold scan_step scanned (v, [], []) = (v1, new, hosts)"
    by (cases "fold scan_step scanned (v, [], [])")
  note s = scanned_from_fold [OF wf r, unfolded st scanned_from_def prod.case]
  define gone where "gone = filter (\<lambda>did. did \<notin> fst ` set hosts)
     (map (\<lambda>d. info_id (info d)) (filter (\<lambda>d. backend d = Host) (snapshot v)))"
  have v': "v' = fold insert_host hosts (fold remove_host gone v1)"
    and delta: "delta = \<lparr>added = new, removed = gone\<rparr>"
    using run by (simp_all add: refresh_hosts_def st gone_def Let_def)
  let ?H = "map_of (rev hosts)"
  have hosts: "hosts = map (\<lambda>d. let i = the (known_ids v1 (key_of d)) in (i, set_id i d)) scanned"
    and dom: "key_of ` set scanned \<subseteq> dom (known_ids v1)" using s by auto
  note H = map_of_rev_hosts [OF dom hosts]
  have HN: "?H i = None \<longleftrightarrow> i \<notin> fst ` set hosts" for i
    by (simp add: map_of_eq_None_iff)
  have g1: "inventory_get v1 = inventory_get v" using s by (intro inventory_get_cong) blast
  have sorted1: "bt_sorted (present v1)" using s wf by (simp add: inventory_wf_def inv_ids_def)
  note rm = fold_remove_host [OF sorted1, of gone, unfolded g1]
  note ins = fold_insert_host [OF rm [THEN conjunct1], of hosts]
  have new: "set new = {i. inventory_get v i = None \<and> ?H i \<noteq> None}"
    using s unfolding HN by auto
  have gone: "set gone = {i. \<exists>d. inventory_get v i = Some d \<and> backend d = Host \<and> ?H i = None}"
    unfolding gone_def HN set_filter set_old_host_ids [OF wf] by auto
  have nx: "next_id v' = next_id v1" using ins rm by (simp add: v')
  have "refreshed v scanned (known_ids v1) ?H delta v'"
    unfolding refreshed_def nx delta inventory_delta.simps
  proof (intro conjI, goal_cases)
    case 5 then show ?case using H(1) by blast
  next
    case 6 then show ?case using H(2) by blast
  next
    case 7 then show ?case by (rule gone)
  next
    case 8 then show ?case by (rule new)
  next
    case 10 then show ?case using ins by (simp add: v')
  next
    case 11 then show ?case using ins rm by (simp add: v')
  next
    case 12 then show ?case using ins rm by (simp add: v')
  qed (use s in blast)+
  then show ?thesis by blast
qed

text \<open>The flags after a refresh.\<close>

lemma refresh_hosts_cells:
  assumes wf: "inventory_wf v" and r: "room (length scanned) v"
    and run: "refresh_hosts scanned v = (delta, v')"
  shows "dom (presence v') = dom (inventory_get v')"
    and "inj_on (presence v') (dom (presence v'))"
    and "\<forall>i a. presence v' i = Some a \<longrightarrow> cell_load v' a"
    and "\<forall>i a. presence v i = Some a \<longrightarrow> (cell_load v' a \<longleftrightarrow> i \<notin> set (removed delta))"
    and "\<forall>i a. presence v i = Some a \<and> i \<notin> set (removed delta) \<longrightarrow> presence v' i = Some a"
    and "\<forall>a < length (cells v). \<not> cell_load v a \<longrightarrow> \<not> cell_load v' a"
proof -
  obtain v1 new hosts where st: "fold scan_step scanned (v, [], []) = (v1, new, hosts)"
    by (cases "fold scan_step scanned (v, [], [])")
  note s = scanned_from_fold [OF wf r, unfolded st scanned_from_def prod.case]
  define gone where "gone = filter (\<lambda>did. did \<notin> fst ` set hosts)
     (map (\<lambda>d. info_id (info d)) (filter (\<lambda>d. backend d = Host) (snapshot v)))"
  let ?v2 = "fold remove_host gone v1"
  have v': "v' = fold insert_host hosts ?v2" and delta: "removed delta = gone"
    using run by (auto simp: refresh_hosts_def st gone_def Let_def)
  have same: "presence v1 = presence v" "cells v1 = cells v" using s by simp_all
  have g1: "inventory_get v1 = inventory_get v" using s by (intro inventory_get_cong) blast
  have sorted1: "bt_sorted (present v1)" using s wf by (simp add: inventory_wf_def inv_ids_def)
  note p = wf [unfolded inventory_wf_def inv_presence_def cell_load_def]
  have inj: "i = j" if "presence v i = Some a" "presence v j = Some a" for i j a
    using that p by (metis domI inj_onD)
  note rm = fold_remove_host [OF sorted1, of gone, unfolded same g1]
  note cl = fold_remove_host_cells [OF sorted1, of gone, unfolded same]
  have p2: "presence ?v2 = (\<lambda>i. if i \<in> set gone then None else presence v i)" using rm by blast
  have inj2: "inj_on (presence ?v2) (dom (presence ?v2))"
    using inj unfolding p2 inj_on_def by (auto split: if_splits)
  have b2: "\<forall>i a. presence ?v2 i = Some a \<longrightarrow> a < length (cells ?v2)"
    using p cl unfolding p2 by auto
  note ins = fold_insert_host_presence [OF rm [THEN conjunct1] b2 inj2, of hosts, folded v']
  note insd = fold_insert_host [OF rm [THEN conjunct1], of hosts, folded v']
  obtain n where cells': "cells v' = cells ?v2 @ replicate n True" using ins by blast
  have old: "cell_load v' a \<longleftrightarrow> cell_load v a \<and> (\<forall>i \<in> set gone. presence v i \<noteq> Some a)"
    if "a < length (cells v)" for a
    using that cl by (auto simp: cell_load_def cells' nth_append)
  have new: "cell_load v' a" if "length (cells v) \<le> a" "a < length (cells v')" for a
    using that cl by (auto simp: cell_load_def cells' nth_append)
  show "inj_on (presence v') (dom (presence v'))" using ins by blast
  show "\<forall>i a. presence v i = Some a \<and> i \<notin> set (removed delta) \<longrightarrow> presence v' i = Some a"
    using ins p2 by (simp add: delta)
  show "\<forall>a < length (cells v). \<not> cell_load v a \<longrightarrow> \<not> cell_load v' a" using old by blast
  show off: "\<forall>i a. presence v i = Some a \<longrightarrow> (cell_load v' a \<longleftrightarrow> i \<notin> set (removed delta))"
    using old inj p unfolding delta cell_load_def by blast
  show "\<forall>i a. presence v' i = Some a \<longrightarrow> cell_load v' a"
  proof (intro allI impI)
    fix i a assume "presence v' i = Some a"
    then have "presence ?v2 i = Some a \<or> length (cells ?v2) \<le> a \<and> a < length (cells v')" using ins by blast
    then show "cell_load v' a" using off new cl by (auto simp: p2 delta split: if_splits)
  qed
  have "dom (presence v') = dom (presence ?v2) \<union> fst ` set hosts" using ins by blast
  also have "dom (presence ?v2) = dom (inventory_get ?v2)" using p rm by (auto simp: p2 dom_def)
  also have "\<dots> \<union> fst ` set hosts = dom (inventory_get v')"
    using insd by (auto simp: dom_map_of_conv_image_fst)
  finally show "dom (presence v') = dom (inventory_get v')" .
qed

lemma refreshed_get:
  assumes "refreshed v scanned K H delta v'"
  shows "inventory_get v' i =
    (case H i of Some d \<Rightarrow> Some d | None \<Rightarrow> if i \<in> set (removed delta) then None else inventory_get v i)"
proof -
  have "inventory_get v' = (\<lambda>i. if i \<in> set (removed delta) then None else inventory_get v i) ++ H"
    using assms unfolding refreshed_def by blast
  then show ?thesis by (simp add: map_add_def)
qed

lemma refreshedD:
  assumes "refreshed v scanned K H delta v'"
  shows "known_ids v k = Some i \<Longrightarrow> K k = Some i"
    and "dom K = dom (known_ids v) \<union> key_of ` set scanned"
    and "K k = Some i \<Longrightarrow>
      known_ids v k = Some i \<or> unat (next_id v) \<le> unat i \<and> unat i < unat (next_id v')"
    and "K k = Some i \<Longrightarrow> K k' = Some i \<Longrightarrow> k = k'"
    and "H i = Some d \<Longrightarrow> \<exists>x \<in> set scanned. K (key_of x) = Some i \<and> d = set_id i x"
    and "H i = None \<longleftrightarrow> (\<forall>x \<in> set scanned. K (key_of x) \<noteq> Some i)"
    and "set (removed delta) = {i. \<exists>d. inventory_get v i = Some d \<and> backend d = Host \<and> H i = None}"
    and "set (added delta) = {i. inventory_get v i = None \<and> H i \<noteq> None}"
    and "unat (next_id v) \<le> unat (next_id v')"
    and "bt_sorted (present v')"
    and "known_ids v' k =
      (if \<exists>i \<in> set (removed delta). \<exists>d. inventory_get v i = Some d \<and> key_of d = k then None else K k)"
proof -
  note f = assms [unfolded refreshed_def]
  show "known_ids v k = Some i \<Longrightarrow> K k = Some i" using f by blast
  show "dom K = dom (known_ids v) \<union> key_of ` set scanned" using f by (elim conjE)
  show "K k = Some i \<Longrightarrow>
      known_ids v k = Some i \<or> unat (next_id v) \<le> unat i \<and> unat i < unat (next_id v')" using f by blast
  show "K k = Some i \<Longrightarrow> K k' = Some i \<Longrightarrow> k = k'" using f by blast
  show "H i = Some d \<Longrightarrow> \<exists>x \<in> set scanned. K (key_of x) = Some i \<and> d = set_id i x" using f by blast
  show "H i = None \<longleftrightarrow> (\<forall>x \<in> set scanned. K (key_of x) \<noteq> Some i)" using f by blast
  show "set (removed delta) = {i. \<exists>d. inventory_get v i = Some d \<and> backend d = Host \<and> H i = None}"
    using f by (elim conjE)
  show "set (added delta) = {i. inventory_get v i = None \<and> H i \<noteq> None}" using f by (elim conjE)
  show "unat (next_id v) \<le> unat (next_id v')" using f by (elim conjE)
  show "bt_sorted (present v')" using f by (elim conjE)
  have "known_ids v' = (\<lambda>k. if \<exists>i \<in> set (removed delta). \<exists>d. inventory_get v i = Some d \<and> key_of d = k
      then None else K k)" using f by (elim conjE)
  then show "known_ids v' k =
      (if \<exists>i \<in> set (removed delta). \<exists>d. inventory_get v i = Some d \<and> key_of d = k then None else K k)"
    by simp
qed

lemma refreshed_present:
  assumes wf: "inventory_wf v" and rf: "refreshed v scanned K H delta v'" and d: "inventory_get v' i = Some d"
  shows "K (key_of d) = Some i" "info_id (info d) = i" "unat i < unat (next_id v')" "i \<notin> set (removed delta)"
proof -
  note w = wf [unfolded inventory_wf_def inv_ids_def inv_keys_def] and f = refreshedD [OF rf]
  consider (host) x where "K (key_of x) = Some i" "d = set_id i x" "H i = Some d"
    | (old) "H i = None" "i \<notin> set (removed delta)" "inventory_get v i = Some d"
    using d f(5) by (auto simp: refreshed_get [OF rf] split: option.splits if_splits)
  then have "K (key_of d) = Some i \<and> info_id (info d) = i \<and> i \<notin> set (removed delta)"
  proof cases
    case host
    then show ?thesis using f(7) by simp
  next
    case old
    then have "known_ids v (key_of d) = Some i" "info_id (info d) = i" using w by blast+
    with f(1) old show ?thesis by blast
  qed
  then show K: "K (key_of d) = Some i" and "info_id (info d) = i" "i \<notin> set (removed delta)" by blast+
  show "unat i < unat (next_id v')"
    using f(3) [OF K] known_id_less [OF wf] f(9) by (meson less_le_trans)
qed

lemma refreshed_keys:
  assumes wf: "inventory_wf v" and rf: "refreshed v scanned K H delta v'"
  shows "inv_ids v'" "inv_keys v'"
proof -
  note w = wf [unfolded inventory_wf_def inv_keys_def] and f = refreshedD [OF rf]
    and P = refreshed_present [OF wf rf]
  show "inv_ids v'" using P(2,3) f(10) by (simp add: inv_ids_def)
  show "inv_keys v'"
    unfolding inv_keys_def
  proof (intro allI iffI)
    fix k i assume "\<exists>d. inventory_get v' i = Some d \<and> key_of d = k"
    then obtain d where d: "inventory_get v' i = Some d" "key_of d = k" by blast
    have "\<not> (\<exists>j \<in> set (removed delta). \<exists>e. inventory_get v j = Some e \<and> key_of e = k)"
    proof
      assume "\<exists>j \<in> set (removed delta). \<exists>e. inventory_get v j = Some e \<and> key_of e = k"
      then obtain j where j: "j \<in> set (removed delta)" "known_ids v k = Some j" using w by blast
      from f(1) [OF j(2)] P(1) [OF d(1)] d(2) have "j = i" by simp
      with P(4) [OF d(1)] j(1) show False by simp
    qed
    then show "known_ids v' k = Some i" using P(1) [OF d(1)] d(2) unfolding f(11) by auto
  next
    fix k i assume "known_ids v' k = Some i"
    then have Kk: "K k = Some i"
      and nr: "\<forall>j \<in> set (removed delta). \<forall>e. inventory_get v j = Some e \<longrightarrow> key_of e \<noteq> k"
      unfolding f(11) by (auto split: if_splits)
    have "inventory_get v' i \<noteq> None"
    proof (cases "known_ids v k = Some i")
      case True
      then obtain d where "inventory_get v i = Some d" "key_of d = k" using w by blast
      then show ?thesis using nr by (auto simp: refreshed_get [OF rf] split: option.splits)
    next
      case False
      have "k \<in> dom (known_ids v) \<union> key_of ` set scanned" using f(2) Kk by (metis domI)
      with f(1) False Kk have "k \<in> key_of ` set scanned" by auto
      then have "H i \<noteq> None" using f(6) Kk by blast
      then show ?thesis by (auto simp: refreshed_get [OF rf])
    qed
    then obtain d where d: "inventory_get v' i = Some d" by blast
    moreover have "key_of d = k" using P(1) [OF d] Kk by (rule f(4))
    ultimately show "\<exists>d. inventory_get v' i = Some d \<and> key_of d = k" by blast
  qed
qed

lemma refreshed_scanned:
  assumes wf: "inventory_wf v" and rf: "refreshed v scanned K H delta v'"
    and d: "inventory_get v i = Some d"
  shows "H i = None \<longleftrightarrow> key_of d \<notin> key_of ` set scanned"
proof -
  note f = refreshedD [OF rf]
  have "known_ids v (key_of d) = Some i" using wf d by (auto simp: inventory_wf_def inv_keys_def)
  then have K: "K (key_of d) = Some i" by (rule f(1))
  have inj: "K k = Some i \<Longrightarrow> k = key_of d" for k using K by (rule f(4) [rotated])
  have "H i = None \<longleftrightarrow> (\<forall>x \<in> set scanned. K (key_of x) \<noteq> Some i)" by (rule f(6))
  also have "\<dots> \<longleftrightarrow> key_of d \<notin> key_of ` set scanned" using K inj by (metis image_iff)
  finally show ?thesis .
qed

lemma refreshed_host:
  assumes rf: "refreshed v scanned K H delta v'" and x: "x \<in> set scanned"
  shows "\<exists>i d. inventory_get v' i = Some d \<and> key_of d = key_of x"
proof -
  note f = refreshedD [OF rf]
  have "key_of x \<in> dom K" using f(2) x by blast
  then obtain i where i: "K (key_of x) = Some i" by blast
  then obtain d where d: "H i = Some d" using f(6) [of i] x by fastforce
  then obtain y where "K (key_of y) = Some i" "d = set_id i y" using f(5) by blast
  then have "key_of d = key_of x" using f(4) i by (metis set_id_simps(1))
  moreover have "inventory_get v' i = Some d" using d by (simp add: refreshed_get [OF rf])
  ultimately show ?thesis by blast
qed

lemma refreshed_added:
  assumes wf: "inventory_wf v" and rf: "refreshed v scanned K H delta v'" and k: "k \<in> set (added delta)"
  shows "unat (next_id v) \<le> unat k \<and> inventory_get v' k \<noteq> None"
proof -
  note f = refreshedD [OF rf]
  obtain d where n: "inventory_get v k = None" and d: "H k = Some d" using f(8) k by blast
  then obtain y where K: "K (key_of y) = Some k" using f(5) by blast
  have "known_ids v (key_of y) \<noteq> Some k" using wf n by (auto simp: inventory_wf_def inv_keys_def)
  then have "unat (next_id v) \<le> unat k" using f(3) [OF K] by blast
  moreover have "inventory_get v' k = Some d" using d by (simp add: refreshed_get [OF rf])
  ultimately show ?thesis by simp
qed

lemma refreshed_kept:
  assumes wf: "inventory_wf v" and rf: "refreshed v scanned K H delta v'"
    and d: "inventory_get v i = Some d" and i: "i \<notin> set (removed delta)"
  shows "\<exists>d'. inventory_get v' i = Some d' \<and> key_of d' = key_of d"
proof (cases "H i")
  case None
  then have "inventory_get v' i = Some d" using d i by (simp add: refreshed_get [OF rf])
  then show ?thesis by blast
next
  case (Some e)
  note f = refreshedD [OF rf]
  have "known_ids v (key_of d) = Some i" using wf d by (auto simp: inventory_wf_def inv_keys_def)
  then have K: "K (key_of d) = Some i" by (rule f(1))
  obtain y where y: "K (key_of y) = Some i" "e = set_id i y" using f(5) [OF Some] by blast
  then have "key_of y = key_of d" using K f(4) by blast
  with y have "key_of e = key_of d" by simp
  moreover have "inventory_get v' i = Some e" using Some by (simp add: refreshed_get [OF rf])
  ultimately show ?thesis by blast
qed

text \<open>Without any assumption on ids: a device that is not reported as removed stays.\<close>

lemma fold_scan_step_present: "present (fst (fold scan_step ds st)) = present (fst st)"
proof (induction ds arbitrary: st)
  case (Cons x ds)
  have "present (fst (scan_step x st)) = present (fst st)"
    by (auto simp: scan_step_def Let_def allocate_id_def split: option.splits prod.splits)
  with Cons show ?case by simp
qed simp

lemma refresh_hosts_keeps:
  assumes "bt_sorted (present v)" "refresh_hosts scanned v = (delta, v')"
  shows "bt_sorted (present v')"
    and "i \<in> dom (inventory_get v) - set (removed delta) \<Longrightarrow> i \<in> dom (inventory_get v')"
proof -
  obtain v1 new hosts where st: "fold scan_step scanned (v, [], []) = (v1, new, hosts)"
    by (cases "fold scan_step scanned (v, [], [])")
  then have p1: "present v1 = present v" using fold_scan_step_present [of scanned "(v, [], [])"] by simp
  have v': "v' = fold insert_host hosts (fold remove_host (removed delta) v1)"
    using assms(2) by (auto simp: refresh_hosts_def st Let_def)
  note rm = fold_remove_host [of v1 "removed delta", unfolded p1, OF assms(1)]
  note ins = fold_insert_host [OF rm [THEN conjunct1], of hosts]
  show "bt_sorted (present v')" using ins by (simp add: v')
  show "i \<in> dom (inventory_get v')" if "i \<in> dom (inventory_get v) - set (removed delta)"
    using that ins rm inventory_get_cong [OF p1] by (auto simp: v' map_add_def split: option.splits)
qed

subsection \<open>Building the inventory\<close>

lemma add_device_wf:
  assumes wf: "inventory_wf v" and new: "known_ids v (key_of d) = None" and r: "room 1 v"
    and req: "unat (info_id (info d)) + 1 < 2 ^ 32"
  shows "inventory_wf (add_device d v)"
    and "known_ids (add_device d v) k = None \<longleftrightarrow> known_ids v k = None \<and> k \<noteq> key_of d"
    and "unat (next_id (add_device d v)) \<le> Suc (max (unat (next_id v)) (unat (info_id (info d))))"
proof -
  define i where "i = (if info_id (info d) \<noteq> 0 \<and> inventory_get v (info_id (info d)) = None
    then info_id (info d) else next_id v)"
  define v' where "v' = add_device d v"
  note w = wf [unfolded inventory_wf_def inv_ids_def inv_keys_def inv_presence_def]
  have free: "inventory_get v i = None"
    using w by (cases "inventory_get v (next_id v)") (auto simp: i_def)
  have sat: "unat (saturating_inc (next_id v)) = Suc (unat (next_id v))"
    "unat (saturating_inc (info_id (info d))) = Suc (unat (info_id (info d)))"
    using r req by (simp_all add: room_def unat_saturating_inc_u32)
  have nx: "unat (next_id v') = max (unat (next_id v)) (Suc (unat i))"
    by (auto simp: v'_def add_device_def Let_def insert_presence_def allocate_id_def i_def inventory_get_def sat
        max_def word_le_nat_alt split: if_splits)
  have ps: "present v' = bt_insert i (set_id i d) (present v)"
    "known_ids v' = (known_ids v)(key_of d \<mapsto> i)" "presence v' = (presence v)(i \<mapsto> length (cells v))"
    "cells v' = cells v @ [True]"
    by (auto simp: v'_def add_device_def Let_def insert_presence_def allocate_id_def i_def inventory_get_def)
  have get': "inventory_get v' = (inventory_get v)(i \<mapsto> set_id i d)"
    using w by (simp add: inventory_get_def [abs_def] ps bt.get_insert)
  have "inv_ids v'" using w by (auto simp: inv_ids_def get' nx ps(1) bt.inv_insert less_max_iff_disj)
  moreover have "inv_keys v'"
  proof -
    have k: "known_ids v k = Some j \<longleftrightarrow> (\<exists>e. inventory_get v j = Some e \<and> key_of e = k)" for k j
      using w by blast
    then have "\<forall>j e. inventory_get v j = Some e \<longrightarrow> key_of e \<noteq> key_of d"
      using new by (metis option.distinct(1))
    then show ?thesis using k free by (auto simp: inv_keys_def get' ps(2))
  qed
  moreover have "inv_presence v'"
  proof -
    have l: "presence v j = Some a \<Longrightarrow> a < length (cells v)" for j a using w by (auto simp: cell_load_def)
    then have "inj_on (presence v') (dom (presence v'))"
      using w by (auto simp: ps inj_on_def split: if_splits) (metis domI less_irrefl option.inject)+
    then show ?thesis using w by (auto simp: inv_presence_def get' ps(3,4) cell_load_def nth_append intro: less_SucI)
  qed
  ultimately show "inventory_wf (add_device d v)" by (simp add: inventory_wf_def v'_def)
  show "known_ids (add_device d v) k = None \<longleftrightarrow> known_ids v k = None \<and> k \<noteq> key_of d"
    by (simp add: ps(2) flip: v'_def)
  show "unat (next_id (add_device d v)) \<le> Suc (max (unat (next_id v)) (unat (info_id (info d))))"
    using nx by (auto simp: i_def max_def simp flip: v'_def split: if_splits)
qed

lemma empty_inventory_wf: "inventory_wf empty_inventory"
  by (simp add: empty_inventory_def inventory_wf_def inv_ids_def inv_keys_def inv_presence_def
      inventory_get_def bt_get_def bt_sorted_def dom_def)

lemma fold_add_device_wf:
  "inventory_wf v \<Longrightarrow> distinct (map key_of ds) \<Longrightarrow> \<forall>d \<in> set ds. known_ids v (key_of d) = None \<Longrightarrow>
     unat (next_id v) \<le> m \<Longrightarrow> \<forall>d \<in> set ds. unat (info_id (info d)) \<le> m \<Longrightarrow> m + length ds < 2 ^ 32 \<Longrightarrow>
     inventory_wf (fold add_device ds v) \<and> unat (next_id (fold add_device ds v)) \<le> m + length ds"
proof (induction ds arbitrary: v m)
  case (Cons d ds)
  have a: "known_ids v (key_of d) = None" "room 1 v" "unat (info_id (info d)) + 1 < 2 ^ 32"
    using Cons.prems by (auto simp: room_def)
  note w = add_device_wf [OF Cons.prems(1) a]
  have "inventory_wf (fold add_device ds (add_device d v)) \<and>
      unat (next_id (fold add_device ds (add_device d v))) \<le> Suc m + length ds"
  proof (rule Cons.IH [OF w(1)])
    show "\<forall>e \<in> set ds. known_ids (add_device d v) (key_of e) = None"
      using Cons.prems(2,3) by (auto simp: w(2) image_iff)
    show "unat (next_id (add_device d v)) \<le> Suc m"
      using w(3) Cons.prems(4,5) by (simp add: max_def split: if_splits)
  qed (use Cons.prems in \<open>auto intro: le_SucI\<close>)
  then show ?case by simp
qed simp

text \<open>Devices with distinct keys and ids a \<open>u32\<close> counter can pass make a well-formed inventory.\<close>

lemma inventory_new_wf:
  assumes "distinct (map key_of ds)" "\<forall>d \<in> set ds. unat (info_id (info d)) \<le> m" "1 \<le> m"
    "m + length ds < 2 ^ 32"
  shows "inventory_wf (inventory_new ds)" "unat (next_id (inventory_new ds)) \<le> m + length ds"
  using fold_add_device_wf [OF empty_inventory_wf assms(1), of m] assms
  by (auto simp: inventory_new_def empty_inventory_def)

lemma refresh_hosts_wf:
  assumes "inventory_wf v" "room (length scanned) v" "refresh_hosts scanned v = (delta, v')"
  shows "inventory_wf v'"
    and "i \<in> set (removed delta) \<Longrightarrow> inventory_get v' i = None"
proof -
  obtain K H where rf: "refreshed v scanned K H delta v'"
    using refresh_hosts_refreshed [OF assms] by blast
  from refreshed_keys [OF assms(1) rf] refresh_hosts_cells(1-3) [OF assms] show "inventory_wf v'"
    by (simp add: inventory_wf_def inv_presence_def)
  show "inventory_get v' i = None" if "i \<in> set (removed delta)"
    using that refreshedD(7) [OF rf] by (auto simp: refreshed_get [OF rf])
qed

section \<open>Properties\<close>

text \<open>
  A refresh keeps the inventory well formed: ids are the keys of their devices and below
  \<open>next_id\<close>, the key table names exactly the present devices, one id per key, and every
  present device has a presence flag of its own, which reads true.
\<close>

lemma refresh_hosts_invariant:
  assumes "inventory_wf v" "room (length scanned) v"
  shows "inventory_wf (snd (refresh_hosts scanned v))"
  using refresh_hosts_wf(1) [OF assms] by (metis prod.collapse)

text \<open>The built-in devices and a host stick; the stick leaves and another one arrives.\<close>

definition host_device :: "device_id \<Rightarrow> string \<Rightarrow> local_device" where
  "host_device did bus = (lab_device did bus 0x0781 0x5583 8 SpeedSuper ''Ultra'' [])\<lparr>backend := Host\<rparr>"

definition sample_inventory :: device_inventory where
  "sample_inventory = inventory_new (simulated_lab_devices @ [host_device 5 ''4-1''])"

definition sample_scan :: "local_device list" where
  "sample_scan = [host_device 1 ''4-2'']"

lemmas sample_defs = simulated_lab_devices_def host_device_def lab_device_def sample_scan_def

lemma sample_inventory_wf: "inventory_wf sample_inventory" "room (length sample_scan) sample_inventory"
proof -
  have "inventory_wf sample_inventory \<and> unat (next_id sample_inventory) \<le> 10"
    using inventory_new_wf [of "simulated_lab_devices @ [host_device 5 ''4-1'']" 5]
    by (simp add: sample_inventory_def sample_defs key_of_def)
  then show "inventory_wf sample_inventory" "room (length sample_scan) sample_inventory"
    by (auto simp: room_def sample_scan_def)
qed

lemma refresh_hosts_invariant_example: "inventory_wf (snd (refresh_hosts sample_scan sample_inventory))"
  using refresh_hosts_invariant [OF sample_inventory_wf] .

text \<open>
  C16. What a refresh does. The host devices whose key was not scanned are reported as removed,
  are gone, and their presence flag reads false from then on; every other device keeps its id,
  its key and its flag; every scanned device is present; the ids reported as added are fresh:
  they were never given out before.
\<close>

theorem refresh_hosts_spec:
  assumes "inventory_wf v" "room (length scanned) v" "refresh_hosts scanned v = (delta, v')"
  shows "set (removed delta) =
      {i. \<exists>d. inventory_get v i = Some d \<and> backend d = Host \<and> key_of d \<notin> key_of ` set scanned} \<and>
    (\<forall>i \<in> set (removed delta).
      inventory_get v' i = None \<and> (\<exists>a. presence_token v i = Some a \<and> \<not> cell_load v' a)) \<and>
    (\<forall>i d. inventory_get v i = Some d \<and> i \<notin> set (removed delta) \<longrightarrow>
      (\<exists>d'. inventory_get v' i = Some d' \<and> key_of d' = key_of d) \<and>
      presence_token v' i = presence_token v i) \<and>
    (\<forall>x \<in> set scanned. \<exists>i d. inventory_get v' i = Some d \<and> key_of d = key_of x) \<and>
    (\<forall>i \<in> set (added delta). unat (next_id v) \<le> unat i \<and> inventory_get v' i \<noteq> None)"
proof -
  obtain K H where rf: "refreshed v scanned K H delta v'"
    using refresh_hosts_refreshed [OF assms] by blast
  note f = refreshedD [OF rf] and c = refresh_hosts_cells [OF assms]
  note rem = f(7)
  have tok: "dom (presence v) = dom (inventory_get v)"
    using assms(1) by (simp add: inventory_wf_def inv_presence_def)
  show ?thesis
  proof (intro conjI ballI allI impI, goal_cases)
    case 1
    show ?case unfolding rem using refreshed_scanned [OF assms(1) rf] by blast
  next
    case (2 i)
    then show ?case by (rule refresh_hosts_wf(2) [OF assms])
  next
    case (3 i)
    then have "i \<in> dom (presence v)" unfolding tok rem by blast
    with 3 c(4) show ?case by (auto simp: presence_token_def)
  next
    case (4 i d)
    then show ?case using refreshed_kept [OF assms(1) rf] by blast
  next
    case (5 i d)
    then have "i \<in> dom (presence v)" unfolding tok by blast
    with 5 c(5) show ?case by (auto simp: presence_token_def)
  next
    case (6 x)
    then show ?case by (rule refreshed_host [OF rf])
  next
    case (7 i)
    then show ?case using refreshed_added [OF assms(1) rf] by blast
  next
    case (8 i)
    then show ?case using refreshed_added [OF assms(1) rf] by blast
  qed
qed

theorem refresh_hosts_spec_witness:
  "\<exists>a. presence_token sample_inventory 5 = Some a \<and>
     \<not> cell_load (snd (refresh_hosts sample_scan sample_inventory)) a"
proof -
  obtain delta v' where run: "refresh_hosts sample_scan sample_inventory = (delta, v')"
    by (cases "refresh_hosts sample_scan sample_inventory")
  have "inventory_get sample_inventory 5 = Some (host_device 5 ''4-1'')" by code_simp
  moreover have "key_of (host_device 5 ''4-1'') \<notin> key_of ` set sample_scan"
    "backend (host_device 5 ''4-1'') = Host"
    by (simp_all add: sample_defs key_of_def)
  ultimately have "5 \<in> set (removed delta)"
    using refresh_hosts_spec [OF sample_inventory_wf run] by blast
  then show ?thesis
    using refresh_hosts_spec [OF sample_inventory_wf run] run by auto
qed

end
