(* ===== verification/Session.thy ===== *)
theory Session
  imports Identity Lease Urb Inventory "HOL-Library.AList" "HOL-Library.Multiset"
begin

text \<open>
  The server of \<^verbatim>\<open>crates/farbus-core/src/session.rs\<close>: the state all sessions share, the message
  handler of \<open>serve_session\<close>, the URB tasks it spawns, and the system of any number of
  concurrent sessions.

  Granularity. The shared state is behind locks, and a handler may be overtaken by another
  session only where it holds none. The handler is therefore cut into atomic steps at exactly
  these points: \<open>receive\<close> runs from the receipt of a message to the first release of a lock
  and \<open>advance\<close> each following stretch; the program counter \<open>pc\<close> says where the reader
  stands and holds its local variables. \<open>AttachRequest\<close> keeps the inventory read-locked while
  it takes the lease, and \<open>refresh_host_devices\<close> keeps it write-locked while it releases
  leases, so each of them is one step. A URB task is a small machine of its own,
  \<open>task_step\<close>, cut at its loads of the presence flag.

  The parameters of the model are SHA-256, the text of \<open>{:?}\<close>, the completer installed by the
  embedding program and the host USB stack; time and random draws come with every step in
  \<open>env\<close>. The queue to the writer is the list \<open>out\<close> of the messages sent so far (the
  channel's capacity only delays a sender). The semaphore is never closed, so waiting for a
  permit cannot fail. The warning printed for HID devices is left out.
\<close>

section \<open>Server state\<close>

record env =
  now :: instant
  pin_draw :: nat
  token_draw :: bytes

record world =
  sha256 :: "bytes \<Rightarrow> bytes"
  debug_text :: "message \<Rightarrow> string"
  host_complete :: "instant \<Rightarrow> urb_submit \<Rightarrow> local_device list \<Rightarrow> urb_complete option"

record server_state =
  hostname :: string
  srv_fingerprint :: fingerprint
  srv_pin :: pairing_pin
  pin_updates :: "string list"
  leases :: lease_book
  tokens :: "(bytes \<times> fingerprint \<times> instant) list"
  devices :: device_inventory
  urb_completer :: "(instant \<Rightarrow> urb_submit \<Rightarrow> urb_complete) option"

definition server_new :: "world \<Rightarrow> env \<Rightarrow> string \<Rightarrow> fingerprint \<Rightarrow> local_device list \<Rightarrow> server_state" where
  "server_new w e host fp devs =
     \<lparr>hostname = host, srv_fingerprint = fp, srv_pin = issue (sha256 w) (pin_draw e) (now e) fp,
      pin_updates = [], leases = empty_book, tokens = [], devices = inventory_new devs,
      urb_completer = None\<rparr>"

definition with_urb_completer ::
    "(instant \<Rightarrow> urb_submit \<Rightarrow> urb_complete) \<Rightarrow> server_state \<Rightarrow> server_state" where
  "with_urb_completer completer s = s\<lparr>urb_completer := Some completer\<rparr>"

definition renew_expired_pin :: "world \<Rightarrow> env \<Rightarrow> server_state \<Rightarrow> string option \<times> server_state" where
  "renew_expired_pin w e s =
     (case reissue_if_expired (sha256 w) (pin_draw e) (now e) (srv_fingerprint s) (srv_pin s) of
        (None, p) \<Rightarrow> (None, s\<lparr>srv_pin := p\<rparr>)
      | (Some new_pin, p) \<Rightarrow> (Some new_pin, s\<lparr>srv_pin := p, pin_updates := pin_updates s @ [new_pin]\<rparr>))"

definition validate_pairing_pin :: "world \<Rightarrow> env \<Rightarrow> bytes \<Rightarrow> server_state \<Rightarrow> bool \<times> server_state" where
  "validate_pairing_pin w e candidate_hash s =
     (case reissue_if_expired (sha256 w) (pin_draw e) (now e) (srv_fingerprint s) (srv_pin s) of
        (Some new_pin, p) \<Rightarrow> (False, s\<lparr>srv_pin := p, pin_updates := pin_updates s @ [new_pin]\<rparr>)
      | (None, p) \<Rightarrow>
          let (success, p1) = is_valid (now e) candidate_hash p
          in if success
             then let p2 = issue (sha256 w) (pin_draw e) (now e) (srv_fingerprint s)
                  in (True, s\<lparr>srv_pin := p2, pin_updates := pin_updates s @ [pin_text p2]\<rparr>)
             else (False, s\<lparr>srv_pin := p1\<rparr>))"

definition device_list :: "server_state \<Rightarrow> device_info list" where
  "device_list s = map info (filter (\<lambda>d. exported (info d)) (snapshot (devices s)))"

definition devices_snapshot :: "server_state \<Rightarrow> local_device list" where
  "devices_snapshot s = snapshot (devices s)"

definition refresh_host_devices :: "local_device list \<Rightarrow> server_state \<Rightarrow> inventory_delta \<times> server_state" where
  "refresh_host_devices devs s =
     (let (delta, inventory) = refresh_hosts devs (devices s);
          s1 = s\<lparr>devices := inventory\<rparr>
      in (delta, if removed delta \<noteq> [] then s1\<lparr>leases := release_devices (removed delta) (leases s1)\<rparr> else s1))"

section \<open>URB tasks\<close>

abbreviation MAX_IN_FLIGHT_URBS :: nat where "MAX_IN_FLIGHT_URBS \<equiv> 64"

definition failed_urb :: "u32 \<Rightarrow> urb_complete" where
  "failed_urb seq = completed seq (- 1) []"

text \<open>
  The stages of a spawned task: at the first load of the presence flag, at the device snapshot,
  inside \<open>spawn_blocking\<close>, at the last load of the flag, returned, and past \<open>drop(permit)\<close>.
\<close>

datatype task_stage =
    TStart
  | TSnapshot
  | TBlocking "local_device list"
  | TResult urb_complete
  | TDone urb_complete
  | TSending urb_complete

record urb_task =
  task_urb :: urb_submit
  task_presence :: nat
  stage :: task_stage

definition backend_of :: "device_id \<Rightarrow> local_device list \<Rightarrow> device_backend option" where
  "backend_of did devs = map_option backend (find (\<lambda>device. info_id (info device) = did) devs)"

definition task_step :: "world \<Rightarrow> env \<Rightarrow> server_state \<Rightarrow> urb_task \<Rightarrow> urb_task" where
  "task_step w e s t =
     (let urb = task_urb t;
          seq = submit_seq urb;
          here = cell_load (devices s) (task_presence t)
      in case stage t of
           TStart \<Rightarrow>
             if \<not> here then t\<lparr>stage := TDone (failed_urb seq)\<rparr>
             else (case urb_completer s of
                     Some custom \<Rightarrow> t\<lparr>stage := TResult (custom (now e) urb)\<rparr>
                   | None \<Rightarrow> t\<lparr>stage := TSnapshot\<rparr>)
         | TSnapshot \<Rightarrow>
             let devs = devices_snapshot s; b = backend_of (submit_device_id urb) devs
             in if b = Some Host then t\<lparr>stage := TBlocking devs\<rparr>
                else if b = Some Emulated then t\<lparr>stage := TDone (complete_urb urb)\<rparr>
                else t\<lparr>stage := TDone (failed_urb seq)\<rparr>
         | TBlocking devs \<Rightarrow>
             if \<not> here then t\<lparr>stage := TResult (failed_urb seq)\<rparr>
             else (case host_complete w (now e) urb devs of
                     Some result \<Rightarrow> t\<lparr>stage := TResult result\<rparr>
                   | None \<Rightarrow> t\<lparr>stage := TResult (failed_urb seq)\<rparr>)
         | TResult result \<Rightarrow> t\<lparr>stage := TDone (if here then result else failed_urb seq)\<rparr>
         | TDone complete \<Rightarrow> t\<lparr>stage := TSending complete\<rparr>
         | TSending complete \<Rightarrow> t)"

fun holds_permit :: "task_stage \<Rightarrow> bool" where
  "holds_permit (TSending _) = False"
| "holds_permit _ = True"

section \<open>Sessions\<close>

datatype reader_pc =
    Idle
  | Pairing pair_request bool
  | Listing
  | Attaching attach_request fingerprint
  | Detaching detach_request fingerprint
  | Checking urb_submit fingerprint bool
  | Fetching urb_submit
  | Waiting urb_submit nat

record session =
  peer :: "fingerprint option"
  principal :: "fingerprint option"
  pc :: reader_pc
  tasks :: "urb_task list"
  out :: "message list"
  reader_done :: bool

definition session_new :: session where
  "session_new = \<lparr>peer = None, principal = None, pc = Idle, tasks = [], out = [], reader_done = False\<rparr>"

definition send :: "message \<Rightarrow> session \<Rightarrow> session" where
  "send m l = l\<lparr>out := out l @ [m]\<rparr>"

definition send_error :: "error_code \<Rightarrow> string \<Rightarrow> session \<Rightarrow> session" where
  "send_error code detail l = send (Error code detail) l"

definition permits_used :: "session \<Rightarrow> nat" where
  "permits_used l = length (filter (\<lambda>t. holds_permit (stage t)) (tasks l))"

text \<open>The token check that opens three of the handlers.\<close>

definition authorize :: "env \<Rightarrow> server_state \<Rightarrow> session \<Rightarrow> bytes \<Rightarrow> string + fingerprint" where
  "authorize e s l auth_token =
     (case map_of (tokens s) auth_token of
        None \<Rightarrow> Inl ''invalid token''
      | Some (p, expires) \<Rightarrow>
          if peer l \<noteq> Some p \<or> now e > expires then Inl ''expired token'' else Inr p)"

definition token_active :: "env \<Rightarrow> server_state \<Rightarrow> fingerprint \<Rightarrow> bool" where
  "token_active e s p = list_ex (\<lambda>(_, token_owner, expires). token_owner = p \<and> now e \<le> expires) (tokens s)"

definition receive ::
    "world \<Rightarrow> env \<Rightarrow> message \<Rightarrow> server_state \<Rightarrow> session \<Rightarrow> server_state \<times> session" where
  "receive w e msg s l =
     (case msg of
        Hello h \<Rightarrow>
          (s, send (Hello \<lparr>protocol_min = VERSION, protocol_max = VERSION,
                           hello_fingerprint = srv_fingerprint s, hello_hostname = hostname s\<rparr>)
                (l\<lparr>peer := Some (hello_fingerprint h)\<rparr>))
      | PairRequest req \<Rightarrow>
          if peer l = Some (client_fingerprint req)
          then let (success, s1) = validate_pairing_pin w e (pin_hash req) s
               in (s1, l\<lparr>pc := Pairing req success\<rparr>)
          else (s, l\<lparr>pc := Pairing req False\<rparr>)
      | DeviceListRequest auth_token \<Rightarrow>
          (case authorize e s l auth_token of
             Inl detail \<Rightarrow> (s, send_error Unauthorized detail l)
           | Inr p \<Rightarrow> (s, l\<lparr>principal := Some p, pc := Listing\<rparr>))
      | DeviceList _ \<Rightarrow> (s, send_error Unauthorized ''pairing required'' l)
      | AttachRequest req \<Rightarrow>
          (case authorize e s l (attach_auth_token req) of
             Inl detail \<Rightarrow> (s, send_error Unauthorized detail l)
           | Inr p \<Rightarrow> (s, l\<lparr>principal := Some p, pc := Attaching req p\<rparr>))
      | DetachRequest req \<Rightarrow>
          (case authorize e s l (detach_auth_token req) of
             Inl detail \<Rightarrow> (s, send_error Unauthorized detail l)
           | Inr p \<Rightarrow> (s, l\<lparr>principal := Some p, pc := Detaching req p\<rparr>))
      | Detach _ \<Rightarrow> (s, send_error Unauthorized ''token required'' l)
      | UrbSubmit urb \<Rightarrow>
          (case principal l of
             None \<Rightarrow> (s, send (UrbComplete (completed (submit_seq urb) (- 13) [])) l)
           | Some p \<Rightarrow> (s, l\<lparr>pc := Checking urb p (token_active e s p)\<rparr>))
      | UrbUnlink unlink \<Rightarrow>
          let leased = (case principal l of
                          Some p \<Rightarrow> owner (leases s) (unlink_device_id unlink) = Some p
                        | None \<Rightarrow> False);
              status = (if leased then 0 else - 13)
          in (s, send (UrbUnlinked \<lparr>unlinked_seq = unlink_seq unlink, unlinked_status = status\<rparr>) l)
      | other \<Rightarrow> (s, send_error Unsupported (''unsupported '' @ debug_text w other) l))"

text \<open>The token lives for a day.\<close>

definition advance :: "env \<Rightarrow> server_state \<Rightarrow> session \<Rightarrow> server_state \<times> session" where
  "advance e s l =
     (case pc l of
        Idle \<Rightarrow> (s, l)
      | Pairing req success \<Rightarrow>
          let token = (if success then issue_auth_token (token_draw e) else replicate 32 0);
              (s1, l1) =
                (if success
                 then (s\<lparr>tokens := AList.update token (client_fingerprint req, now e + secs (24 * 60 * 60)) (tokens s)\<rparr>,
                       l\<lparr>principal := Some (client_fingerprint req)\<rparr>)
                 else (s, l))
          in (s1, send (PairResponse \<lparr>pair_success = success, server_fingerprint = srv_fingerprint s,
                          pair_auth_token = token\<rparr>) (l1\<lparr>pc := Idle\<rparr>))
      | Listing \<Rightarrow> (s, send (DeviceList (device_list s)) (l\<lparr>pc := Idle\<rparr>))
      | Attaching req p \<Rightarrow>
          (case inventory_get (devices s) (attach_device_id req) of
             None \<Rightarrow> (s, send_error NotFound ''unknown device'' (l\<lparr>pc := Idle\<rparr>))
           | Some device \<Rightarrow>
               if \<not> exported (info device) then (s, send_error NotFound ''unknown device'' (l\<lparr>pc := Idle\<rparr>))
               else let (res, book) = acquire (attach_device_id req) p (leases s)
                    in (s\<lparr>leases := book\<rparr>,
                        send (AttachResponse \<lparr>attached_device_id = attach_device_id req,
                                attach_success = (res = Inr ()), usbip_port = 3240,
                                attached_bus_id = bus_id (info device)\<rparr>) (l\<lparr>pc := Idle\<rparr>)))
      | Detaching req p \<Rightarrow>
          (s\<lparr>leases := snd (release (detach_device_id req) p (leases s))\<rparr>,
           send (Detach (detach_device_id req)) (l\<lparr>pc := Idle\<rparr>))
      | Checking urb p active \<Rightarrow>
          let leased = (owner (leases s) (submit_device_id urb) = Some p)
          in if \<not> active \<or> \<not> leased
             then (s, send (UrbComplete (completed (submit_seq urb) (- 13) [])) (l\<lparr>pc := Idle\<rparr>))
             else (s, l\<lparr>pc := Fetching urb\<rparr>)
      | Fetching urb \<Rightarrow>
          (case presence_token (devices s) (submit_device_id urb) of
             None \<Rightarrow> (s, send (UrbComplete (completed (submit_seq urb) (- 1) [])) (l\<lparr>pc := Idle\<rparr>))
           | Some token \<Rightarrow> (s, l\<lparr>pc := Waiting urb token\<rparr>))
      | Waiting urb token \<Rightarrow>
          if permits_used l < MAX_IN_FLIGHT_URBS
          then (s, l\<lparr>tasks := tasks l @ [\<lparr>task_urb = urb, task_presence = token, stage = TStart\<rparr>], pc := Idle\<rparr>)
          else (s, l))"

text \<open>What \<open>serve_session\<close> does when its reader and writer are done.\<close>

definition end_session :: "session \<Rightarrow> server_state \<Rightarrow> server_state" where
  "end_session l s =
     (case principal l of Some p \<Rightarrow> s\<lparr>leases := release_all p (leases s)\<rparr> | None \<Rightarrow> s)"

text \<open>A message handled to the end while no other session moves.\<close>

definition handle_message ::
    "world \<Rightarrow> env \<Rightarrow> message \<Rightarrow> server_state \<Rightarrow> session \<Rightarrow> server_state \<times> session" where
  "handle_message w e msg s l = ((\<lambda>(s, l). advance e s l) ^^ 3) (receive w e msg s l)"

section \<open>The system of sessions\<close>

text \<open>
  \<open>received\<close> is history only: the messages a session has taken from its transport.
\<close>

record sys =
  server :: server_state
  sessions :: "nat \<rightharpoonup> session"
  received :: "nat \<Rightarrow> message list"
  clock :: instant

definition set_session :: "nat \<Rightarrow> session \<Rightarrow> sys \<Rightarrow> sys" where
  "set_session i l y = y\<lparr>sessions := (sessions y)(i \<mapsto> l)\<rparr>"

text \<open>\<open>rand::random\<close> does not repeat a 256-bit token.\<close>

definition fresh_token :: "env \<Rightarrow> server_state \<Rightarrow> bool" where
  "fresh_token e s = (map_of (tokens s) (token_draw e) = None)"

text \<open>
  One step of the server process: a client connects, a reader takes a message or goes on, a task
  goes on or delivers its completion, a reader meets the end of the stream, a session ends (after
  the end of the stream when its tasks are done, or at once on an I/O or framing error), the host
  devices are scanned again, the PIN timer fires.
\<close>

inductive sys_step :: "world \<Rightarrow> sys \<Rightarrow> sys \<Rightarrow> bool" for w where
  connect: "sessions y i = None \<Longrightarrow>
    sys_step w y ((set_session i session_new y)\<lparr>received := (received y)(i := [])\<rparr>)"
| receive: "sessions y i = Some l \<Longrightarrow> pc l = Idle \<Longrightarrow> \<not> reader_done l \<Longrightarrow> clock y \<le> now e \<Longrightarrow>
    receive w e msg (server y) l = (s', l') \<Longrightarrow>
    sys_step w y ((set_session i l' y)\<lparr>server := s', clock := now e,
      received := (received y)(i := received y i @ [msg])\<rparr>)"
| advance: "sessions y i = Some l \<Longrightarrow> pc l \<noteq> Idle \<Longrightarrow> clock y \<le> now e \<Longrightarrow> fresh_token e (server y) \<Longrightarrow>
    advance e (server y) l = (s', l') \<Longrightarrow>
    sys_step w y ((set_session i l' y)\<lparr>server := s', clock := now e\<rparr>)"
| task: "sessions y i = Some l \<Longrightarrow> k < length (tasks l) \<Longrightarrow> clock y \<le> now e \<Longrightarrow>
    sys_step w y ((set_session i (l\<lparr>tasks := (tasks l)[k := task_step w e (server y) (tasks l ! k)]\<rparr>) y)
      \<lparr>clock := now e\<rparr>)"
| deliver: "sessions y i = Some l \<Longrightarrow> k < length (tasks l) \<Longrightarrow> stage (tasks l ! k) = TSending c \<Longrightarrow>
    sys_step w y (set_session i (send (UrbComplete c)
      (l\<lparr>tasks := take k (tasks l) @ drop (Suc k) (tasks l)\<rparr>)) y)"
| eof: "sessions y i = Some l \<Longrightarrow> pc l = Idle \<Longrightarrow>
    sys_step w y (set_session i (l\<lparr>reader_done := True\<rparr>) y)"
| finish: "sessions y i = Some l \<Longrightarrow> reader_done l \<Longrightarrow> tasks l = [] \<Longrightarrow>
    sys_step w y (y\<lparr>sessions := (sessions y)(i := None), server := end_session l (server y)\<rparr>)"
| abort: "sessions y i = Some l \<Longrightarrow>
    sys_step w y (y\<lparr>sessions := (sessions y)(i := None), server := end_session l (server y)\<rparr>)"
| refresh: "refresh_host_devices devs (server y) = (delta, s') \<Longrightarrow> sys_step w y (y\<lparr>server := s'\<rparr>)"
| renew: "clock y \<le> now e \<Longrightarrow> renew_expired_pin w e (server y) = (p, s') \<Longrightarrow>
    sys_step w y (y\<lparr>server := s', clock := now e\<rparr>)"

inductive_cases sys_stepE: "sys_step w y y'"

definition sys_init :: "server_state \<Rightarrow> instant \<Rightarrow> sys" where
  "sys_init s t = \<lparr>server = s, sessions = Map.empty, received = (\<lambda>_. []), clock = t\<rparr>"

inductive reachable :: "world \<Rightarrow> sys \<Rightarrow> sys \<Rightarrow> bool" for w y0 where
  start: "reachable w y0 y0"
| more: "reachable w y0 y \<Longrightarrow> sys_step w y y' \<Longrightarrow> reachable w y0 y'"

lemma reachable_invariant:
  assumes "reachable w y0 y" "I y0" "\<And>y y'. I y \<Longrightarrow> sys_step w y y' \<Longrightarrow> I y'"
  shows "I y"
  using assms(1) by (induction rule: reachable.induct) (use assms(2,3) in auto)

section \<open>What the steps change\<close>

lemma inventory_new_sorted: "bt_sorted (present (inventory_new ds))"
proof -
  have "bt_sorted (present v) \<Longrightarrow> bt_sorted (present (fold add_device ds v))" for v
    by (induction ds arbitrary: v)
       (auto simp: add_device_def insert_presence_def allocate_id_def Let_def bt.inv_insert)
  then show ?thesis by (simp add: inventory_new_def empty_inventory_def bt_sorted_def)
qed

lemma validate_pairing_pin_fields:
  "validate_pairing_pin w e h s = (ok, s') \<Longrightarrow>
     devices s' = devices s \<and> leases s' = leases s \<and> tokens s' = tokens s \<and> urb_completer s' = urb_completer s"
  by (auto simp: validate_pairing_pin_def Let_def split: option.splits prod.splits if_splits)

lemma renew_expired_pin_fields:
  "renew_expired_pin w e s = (p, s') \<Longrightarrow>
     devices s' = devices s \<and> leases s' = leases s \<and> tokens s' = tokens s \<and> urb_completer s' = urb_completer s"
  by (auto simp: renew_expired_pin_def split: option.splits prod.splits)

lemma send_simps [simp]:
  "peer (send m l) = peer l" "principal (send m l) = principal l" "pc (send m l) = pc l"
  "tasks (send m l) = tasks l" "out (send m l) = out l @ [m]" "reader_done (send m l) = reader_done l"
  "peer (send_error c d l) = peer l" "principal (send_error c d l) = principal l"
  "pc (send_error c d l) = pc l" "tasks (send_error c d l) = tasks l"
  "out (send_error c d l) = out l @ [Error c d]" "reader_done (send_error c d l) = reader_done l"
  by (simp_all add: send_def send_error_def)

lemma receive_fields:
  assumes "receive w e msg s l = (s', l')"
  shows "devices s' = devices s" "leases s' = leases s" "tokens s' = tokens s" "tasks l' = tasks l"
    "urb_completer s' = urb_completer s"
  using assms by (auto simp: receive_def Let_def split: message.splits if_splits sum.splits option.splits
      prod.splits dest: validate_pairing_pin_fields)

lemma advance_fields:
  assumes "advance e s l = (s', l')"
  shows "devices s' = devices s" "urb_completer s' = urb_completer s"
    "tokens s' = tokens s \<or> (\<exists>req. pc l = Pairing req True \<and>
       tokens s' = AList.update (token_draw e) (client_fingerprint req, now e + secs (24 * 60 * 60)) (tokens s) \<and>
       principal l' = Some (client_fingerprint req))"
  using assms by (auto simp: advance_def Let_def issue_auth_token_def split: reader_pc.splits if_splits
      option.splits prod.splits)

text \<open>A lease appears only where an attach request with a checked token asked for a present device.\<close>

lemma advance_leases:
  assumes "advance e s l = (s', l')" "owner (leases s') d = Some p" "owner (leases s) d \<noteq> Some p"
  shows "\<exists>req. pc l = Attaching req p \<and> d = attach_device_id req \<and> inventory_get (devices s) d \<noteq> None"
  using assms by (auto simp: advance_def Let_def split_beta lb.acq_holder lb.rel_holder
      split: reader_pc.splits if_splits option.splits)

section \<open>Invariants of the system\<close>

subsection \<open>Leases\<close>

definition leases_present :: "server_state \<Rightarrow> bool" where
  "leases_present s \<longleftrightarrow> bt_sorted (present (devices s)) \<and>
     (\<forall>d p. owner (leases s) d = Some p \<longrightarrow> inventory_get (devices s) d \<noteq> None)"

text \<open>A token was issued to \<open>p\<close>.\<close>

definition paired :: "server_state \<Rightarrow> fingerprint \<Rightarrow> bool" where
  "paired s p \<longleftrightarrow> (\<exists>tok expires. map_of (tokens s) tok = Some (p, expires))"

fun pc_peer :: "reader_pc \<Rightarrow> fingerprint option" where
  "pc_peer (Attaching _ p) = Some p"
| "pc_peer (Detaching _ p) = Some p"
| "pc_peer (Checking _ p _) = Some p"
| "pc_peer _ = None"

definition leases_paired :: "sys \<Rightarrow> bool" where
  "leases_paired y \<longleftrightarrow>
     (\<forall>d p. owner (leases (server y)) d = Some p \<longrightarrow> paired (server y) p) \<and>
     (\<forall>i l p. sessions y i = Some l \<longrightarrow> principal l = Some p \<longrightarrow> paired (server y) p) \<and>
     (\<forall>i l p. sessions y i = Some l \<longrightarrow> pc_peer (pc l) = Some p \<longrightarrow> paired (server y) p)"

lemma end_session_fields:
  "devices (end_session l s) = devices s" "tokens (end_session l s) = tokens s"
  "owner (leases (end_session l s)) d = Some p \<Longrightarrow> owner (leases s) d = Some p"
  by (auto simp: end_session_def lb.rel_all_holder split: option.splits if_splits)

lemma refresh_host_devices_fields:
  assumes "refresh_host_devices devs s = (delta, s')"
  shows "tokens s' = tokens s" "urb_completer s' = urb_completer s"
    "owner (leases s') d = (if d \<in> set (removed delta) then None else owner (leases s) d)"
    "refresh_hosts devs (devices s) = (delta, devices s')"
  using assms by (auto simp: refresh_host_devices_def Let_def lb.rel_devices_holder split: prod.splits if_splits)

lemma leases_present_refresh:
  assumes "leases_present s" "refresh_host_devices devs s = (delta, s')"
  shows "leases_present s'"
  using assms(1) refresh_host_devices_fields(3) [OF assms(2)]
    refresh_hosts_keeps [OF _ refresh_host_devices_fields(4) [OF assms(2)]]
  by (auto simp: leases_present_def dom_def split: if_splits)

lemma leases_present_step:
  assumes I: "leases_present (server y)" and st: "sys_step w y y'"
  shows "leases_present (server y')"
  using st
proof (cases rule: sys_step.cases)
  case (receive i l e msg s' l')
  then show ?thesis using I receive_fields(1,2) [OF receive(6)] by (simp add: leases_present_def)
next
  case (advance i l e s' l')
  then show ?thesis
    using I advance_leases [OF advance(6)] advance_fields(1) [OF advance(6)]
    by (fastforce simp: leases_present_def)
next
  case (refresh devs delta s')
  then show ?thesis using leases_present_refresh [OF I] by simp
next
  case (renew e p s')
  then show ?thesis using I renew_expired_pin_fields [OF renew(3)] by (simp add: leases_present_def)
next
  case (finish i l)
  then show ?thesis using I end_session_fields [of l "server y"] by (auto simp: leases_present_def)
next
  case (abort i l)
  then show ?thesis using I end_session_fields [of l "server y"] by (auto simp: leases_present_def)
qed (use I in \<open>simp_all add: set_session_def\<close>)

lemma authorize_Inr: "authorize e s l tok = Inr p \<Longrightarrow> paired s p"
  unfolding authorize_def paired_def by (force split: option.splits if_splits)

lemma leases_pairedD:
  assumes "leases_paired y"
  shows "owner (leases (server y)) d = Some p \<Longrightarrow> paired (server y) p"
    and "sessions y i = Some l \<Longrightarrow> principal l = Some p \<Longrightarrow> paired (server y) p"
    and "sessions y i = Some l \<Longrightarrow> pc_peer (pc l) = Some p \<Longrightarrow> paired (server y) p"
  using assms unfolding leases_paired_def by blast+

lemma paired_mono:
  assumes "paired s p" "tokens s' = tokens s \<or>
    map_of (tokens s) tok = None \<and> tokens s' = AList.update tok v (tokens s)"
  shows "paired s' p"
proof -
  obtain t x where t: "map_of (tokens s) t = Some (p, x)" using assms(1) by (auto simp: paired_def)
  from assms(2) have "map_of (tokens s') t = Some (p, x)"
    using t by (auto simp: update_conv')
  then show ?thesis by (auto simp: paired_def)
qed

lemma receive_peers:
  assumes "receive w e msg s l = (s', l')" "pc l = Idle" "principal l' = Some p \<or> pc_peer (pc l') = Some p"
  shows "principal l = Some p \<or> paired s p"
  using assms by (auto simp: receive_def Let_def split: message.splits if_splits sum.splits option.splits
      prod.splits dest: authorize_Inr)

lemma advance_peers:
  assumes "advance e s l = (s', l')" "principal l' = Some p \<or> pc_peer (pc l') = Some p"
  shows "principal l = Some p \<or> pc_peer (pc l) = Some p \<or> paired s' p"
  using assms by (auto simp: advance_def Let_def paired_def update_conv' issue_auth_token_def
      split: reader_pc.splits if_splits option.splits prod.splits)

lemma leases_paired_end:
  assumes I: "leases_paired y"
  shows "leases_paired (y\<lparr>sessions := (sessions y)(i := None), server := end_session l (server y)\<rparr>)"
proof -
  have p: "paired (end_session l (server y)) = paired (server y)"
    by (simp add: paired_def fun_eq_iff end_session_fields)
  have "paired (server y) q" if "owner (leases (end_session l (server y))) d = Some q" for d q
    using end_session_fields(3) [OF that] by (rule leases_pairedD(1) [OF I])
  then show ?thesis using leases_pairedD(2,3) [OF I] by (auto simp: leases_paired_def p split: if_splits)
qed

lemma leases_paired_step:
  assumes I: "leases_paired y" and st: "sys_step w y y'"
  shows "leases_paired y'"
  using st
proof (cases rule: sys_step.cases)
  case (receive i l e msg s' l')
  have t: "paired s' p" if "paired (server y) p" for p
    using that receive_fields(3) [OF receive(6)] by (auto simp: paired_def)
  have "paired s' p" if "principal l' = Some p \<or> pc_peer (pc l') = Some p" for p
    using receive_peers [OF receive(6,3) that] leases_pairedD(2) [OF I receive(2)] t by blast
  then show ?thesis
    using I t receive_fields(2) [OF receive(6)] by (auto simp: receive(1) leases_paired_def set_session_def)
next
  case (advance i l e s' l')
  have t: "paired s' p" if "paired (server y) p" for p
    using paired_mono [OF that] advance_fields(3) [OF advance(6)] advance(5) unfolding fresh_token_def by blast
  have "paired s' p" if "principal l' = Some p \<or> pc_peer (pc l') = Some p" for p
    using advance_peers [OF advance(6) that] leases_pairedD(2,3) [OF I advance(2)] t by blast
  moreover have "paired s' p" if "owner (leases s') d = Some p" for d p
  proof (cases "owner (leases (server y)) d = Some p")
    case True
    then show ?thesis using leases_pairedD(1) [OF I] t by blast
  next
    case False
    from advance_leases [OF advance(6) that this] have "pc_peer (pc l) = Some p" by auto
    then show ?thesis using leases_pairedD(3) [OF I advance(2)] t by blast
  qed
  ultimately show ?thesis
    using I t by (auto simp: advance(1) leases_paired_def set_session_def)
next
  case (refresh devs delta s')
  then show ?thesis using I refresh_host_devices_fields(1,3) [OF refresh(2)]
    by (auto simp: leases_paired_def paired_def split: if_splits)
next
  case (renew e p s')
  then show ?thesis using I renew_expired_pin_fields [OF renew(3)] by (auto simp: leases_paired_def paired_def)
next
  case (finish i l)
  then show ?thesis using leases_paired_end [OF I] by simp
next
  case (abort i l)
  then show ?thesis using leases_paired_end [OF I] by simp
qed (use I in \<open>auto simp: leases_paired_def set_session_def session_new_def\<close>)

subsection \<open>In-flight URBs\<close>

lemma length_filter_update:
  "k < length xs \<Longrightarrow> (P x \<Longrightarrow> P (xs ! k)) \<Longrightarrow> length (filter P (xs[k := x])) \<le> length (filter P xs)"
proof (induction xs arbitrary: k)
  case (Cons a xs)
  then show ?case by (cases k) (auto intro: le_SucI)
qed simp

lemma length_filter_delete: "length (filter P (take k xs @ drop (Suc k) xs)) \<le> length (filter P xs)"
proof -
  have "length (filter P (take k xs)) + length (filter P (drop k xs)) = length (filter P xs)"
    by (metis append_take_drop_id filter_append length_append)
  moreover have "length (filter P (drop (Suc k) xs)) \<le> length (filter P (drop k xs))"
    by (cases "drop k xs") (auto simp: drop_Suc simp flip: tl_drop)
  ultimately show ?thesis by simp
qed

lemma task_step_permit: "holds_permit (stage (task_step w e s t)) \<Longrightarrow> holds_permit (stage t)"
  by (cases "stage t") (auto simp: task_step_def)

lemma task_step_urb: "task_urb (task_step w e s t) = task_urb t"
  by (auto simp: task_step_def Let_def split: task_stage.splits option.splits)

definition permits_bounded :: "sys \<Rightarrow> bool" where
  "permits_bounded y \<longleftrightarrow> (\<forall>i l. sessions y i = Some l \<longrightarrow> permits_used l \<le> MAX_IN_FLIGHT_URBS)"

lemma permits_used_task:
  "permits_used (l\<lparr>tasks := (tasks l)[k := task_step w e s (tasks l ! k)]\<rparr>) \<le> permits_used l"
  by (cases "k < length (tasks l)")
     (auto simp: permits_used_def list_update_beyond intro!: length_filter_update dest: task_step_permit)

lemma permits_used_deliver:
  "permits_used (send m (l\<lparr>tasks := take k (tasks l) @ drop (Suc k) (tasks l)\<rparr>)) \<le> permits_used l"
  using length_filter_delete [of "\<lambda>t. holds_permit (stage t)" k "tasks l"] by (simp add: permits_used_def)

lemma advance_permits:
  assumes "advance e s l = (s', l')" "permits_used l \<le> MAX_IN_FLIGHT_URBS"
  shows "permits_used l' \<le> MAX_IN_FLIGHT_URBS"
  using assms by (auto simp: advance_def Let_def permits_used_def split: reader_pc.splits if_splits
      option.splits prod.splits)

lemma permits_bounded_set:
  "permits_bounded y \<Longrightarrow> permits_used l \<le> MAX_IN_FLIGHT_URBS \<Longrightarrow> permits_bounded (set_session i l y)"
  by (auto simp: permits_bounded_def set_session_def)

lemma permits_bounded_step:
  assumes I: "permits_bounded y" and st: "sys_step w y y'"
  shows "permits_bounded y'"
proof -
  have b: "permits_used l \<le> MAX_IN_FLIGHT_URBS" if "sessions y i = Some l" for i l
    using I that by (simp add: permits_bounded_def)
  show ?thesis
    using st
  proof (cases rule: sys_step.cases)
    case (receive i l e msg s' l')
    then have "permits_used l' \<le> MAX_IN_FLIGHT_URBS"
      using b receive_fields(4) [OF receive(6)] by (simp add: permits_used_def)
    with I receive(1) show ?thesis by (auto simp: permits_bounded_def set_session_def)
  next
    case (advance i l e s' l')
    with I b advance_permits [OF advance(6)] show ?thesis by (auto simp: permits_bounded_def set_session_def)
  next
    case (task i l k e)
    with I order_trans [OF permits_used_task b] show ?thesis
      by (auto simp: permits_bounded_def set_session_def)
  next
    case (deliver i l k c)
    with I order_trans [OF permits_used_deliver b] show ?thesis
      by (auto simp: permits_bounded_def set_session_def)
  qed (use I in \<open>auto simp: permits_bounded_def set_session_def session_new_def permits_used_def\<close>)
qed

subsection \<open>Every message is answered once\<close>

text \<open>The sequence numbers of the URBs in a list of messages, submitted and completed.\<close>

fun submitted :: "message list \<Rightarrow> u32 list" where
  "submitted [] = []"
| "submitted (UrbSubmit u # ms) = submit_seq u # submitted ms"
| "submitted (_ # ms) = submitted ms"

fun answered :: "message list \<Rightarrow> u32 list" where
  "answered [] = []"
| "answered (UrbComplete c # ms) = complete_seq c # answered ms"
| "answered (_ # ms) = answered ms"

fun pc_seqs :: "reader_pc \<Rightarrow> u32 list" where
  "pc_seqs (Checking u _ _) = [submit_seq u]"
| "pc_seqs (Fetching u) = [submit_seq u]"
| "pc_seqs (Waiting u _) = [submit_seq u]"
| "pc_seqs _ = []"

definition task_seq :: "urb_task \<Rightarrow> u32" where
  "task_seq t = submit_seq (task_urb t)"

fun stage_answer :: "task_stage \<Rightarrow> urb_complete option" where
  "stage_answer (TResult c) = Some c"
| "stage_answer (TDone c) = Some c"
| "stage_answer (TSending c) = Some c"
| "stage_answer _ = None"

definition task_honest :: "urb_task \<Rightarrow> bool" where
  "task_honest t \<longleftrightarrow> (\<forall>c. stage_answer (stage t) = Some c \<longrightarrow> complete_seq c = task_seq t)"

text \<open>The installed completer and the host stack answer the URB they were given.\<close>

definition honest_completers :: "world \<Rightarrow> server_state \<Rightarrow> bool" where
  "honest_completers w s \<longleftrightarrow>
     (\<forall>custom t u. urb_completer s = Some custom \<longrightarrow> complete_seq (custom t u) = submit_seq u) \<and>
     (\<forall>t u ds c. host_complete w t u ds = Some c \<longrightarrow> complete_seq c = submit_seq u)"

definition answered_once :: "message list \<Rightarrow> session \<Rightarrow> bool" where
  "answered_once ms l \<longleftrightarrow>
     length ms = length (out l) + length (tasks l) + (if pc l = Idle then 0 else 1) \<and>
     mset (submitted ms) = mset (answered (out l)) + mset (map task_seq (tasks l)) + mset (pc_seqs (pc l)) \<and>
     (\<forall>t \<in> set (tasks l). task_honest t)"

definition all_answered :: "world \<Rightarrow> sys \<Rightarrow> bool" where
  "all_answered w y \<longleftrightarrow> honest_completers w (server y) \<and>
     (\<forall>i l. sessions y i = Some l \<longrightarrow> answered_once (received y i) l)"

lemma submitted_append [simp]: "submitted (ms @ ms') = submitted ms @ submitted ms'"
  by (induction ms rule: submitted.induct) auto

lemma answered_append [simp]: "answered (ms @ ms') = answered ms @ answered ms'"
  by (induction ms rule: answered.induct) auto

lemma completed_seq [simp]: "complete_seq (completed n st d) = n" "complete_seq (failed_urb n) = n"
  by (simp_all add: completed_def failed_urb_def)

text \<open>\<open>receive\<close> answers or leaves the reader busy with the message; \<open>advance\<close> answers, goes on or
  spawns a task.\<close>

lemma receive_answers:
  assumes "receive w e msg s l = (s', l')" "pc l = Idle"
  shows "(\<exists>r. out l' = out l @ [r] \<and> pc l' = Idle \<and> answered [r] = submitted [msg]) \<or>
    out l' = out l \<and> pc l' \<noteq> Idle \<and> pc_seqs (pc l') = submitted [msg]"
  using assms by (auto simp: receive_def Let_def split: message.splits if_splits sum.splits option.splits
      prod.splits)

lemma advance_answers:
  assumes "advance e s l = (s', l')" "pc l \<noteq> Idle"
  shows "(\<exists>r. out l' = out l @ [r] \<and> pc l' = Idle \<and> tasks l' = tasks l \<and> pc_seqs (pc l) = answered [r]) \<or>
    out l' = out l \<and> tasks l' = tasks l \<and> pc l' \<noteq> Idle \<and> pc_seqs (pc l') = pc_seqs (pc l) \<or>
    (\<exists>t. out l' = out l \<and> pc l' = Idle \<and> tasks l' = tasks l @ [t] \<and> pc_seqs (pc l) = [task_seq t] \<and>
       stage t = TStart)"
  using assms by (auto simp: advance_def Let_def task_seq_def split: reader_pc.splits if_splits option.splits
      prod.splits)

lemma task_step_honest: "honest_completers w s \<Longrightarrow> task_honest t \<Longrightarrow> task_honest (task_step w e s t)"
  by (auto simp: task_honest_def task_seq_def task_step_urb)
     (auto simp: task_step_def honest_completers_def task_seq_def Let_def complete_urb_seq
       split: task_stage.splits option.splits if_splits)

lemma answered_once_receive:
  assumes "answered_once ms l" "receive w e msg s l = (s', l')" "pc l = Idle"
  shows "answered_once (ms @ [msg]) l'"
  using assms(1) receive_answers [OF assms(2,3)] receive_fields(4) [OF assms(2)] assms(3)
  by (auto simp: answered_once_def)

lemma answered_once_advance:
  assumes "answered_once ms l" "advance e s l = (s', l')" "pc l \<noteq> Idle"
  shows "answered_once ms l'"
  using assms(1) advance_answers [OF assms(2,3)] assms(3)
  by (auto simp: answered_once_def task_honest_def)

lemma answered_once_task:
  assumes "answered_once ms l" "honest_completers w s" "k < length (tasks l)"
  shows "answered_once ms (l\<lparr>tasks := (tasks l)[k := task_step w e s (tasks l ! k)]\<rparr>)"
proof -
  have "map task_seq ((tasks l)[k := task_step w e s (tasks l ! k)]) = map task_seq (tasks l)"
    using assms(3) by (simp add: map_update task_seq_def task_step_urb list_update_same_conv)
  moreover have "\<forall>t \<in> set ((tasks l)[k := task_step w e s (tasks l ! k)]). task_honest t"
    using assms set_update_subset_insert [of "tasks l" k] task_step_honest [OF assms(2)]
    by (fastforce simp: answered_once_def)
  ultimately show ?thesis using assms(1) by (simp add: answered_once_def)
qed

lemma answered_once_deliver:
  assumes "answered_once ms l" "k < length (tasks l)" "stage (tasks l ! k) = TSending c"
  shows "answered_once ms (send (UrbComplete c) (l\<lparr>tasks := take k (tasks l) @ drop (Suc k) (tasks l)\<rparr>))"
proof -
  have ts: "tasks l = take k (tasks l) @ tasks l ! k # drop (Suc k) (tasks l)"
    using assms(2) by (rule id_take_nth_drop)
  have "task_honest (tasks l ! k)" using assms(1,2) by (simp add: answered_once_def)
  then have c: "complete_seq c = task_seq (tasks l ! k)" using assms(3) by (simp add: task_honest_def)
  define rest where "rest = take k (tasks l) @ drop (Suc k) (tasks l)"
  have "mset (tasks l) = add_mset (tasks l ! k) (mset rest)"
    by (subst ts) (simp add: rest_def)
  then have m: "mset (map task_seq (tasks l)) = add_mset (complete_seq c) (mset (map task_seq rest))"
    and n: "length (tasks l) = Suc (length rest)"
    by (simp add: c) (metis \<open>mset (tasks l) = add_mset (tasks l ! k) (mset rest)\<close> size_add_mset size_mset)
  have "\<forall>t \<in> set rest. task_honest t"
    using assms(1) by (auto simp: rest_def answered_once_def dest: in_set_takeD in_set_dropD)
  with assms(1) m n show ?thesis
    unfolding rest_def [symmetric] answered_once_def by simp
qed

lemma all_answered_step:
  assumes I: "all_answered w y" and st: "sys_step w y y'"
  shows "all_answered w y'"
proof -
  have h: "honest_completers w (server y)" using I by (simp add: all_answered_def)
  have hs: "honest_completers w s'" if "urb_completer s' = urb_completer (server y)" for s'
    using h that by (simp add: honest_completers_def)
  have a: "answered_once (received y i) l" if "sessions y i = Some l" for i l
    using I that by (simp add: all_answered_def)
  show ?thesis
    using st
  proof (cases rule: sys_step.cases)
    case (connect i)
    then show ?thesis using h a by (simp add: all_answered_def set_session_def answered_once_def session_new_def)
  next
    case (receive i l e msg s' l')
    then show ?thesis
      using hs [OF receive_fields(5) [OF receive(6)]] a answered_once_receive [OF a [OF receive(2)] receive(6,3)]
      by (simp add: all_answered_def set_session_def)
  next
    case (advance i l e s' l')
    then show ?thesis
      using hs [OF advance_fields(2) [OF advance(6)]] a answered_once_advance [OF a [OF advance(2)] advance(6,3)]
      by (simp add: all_answered_def set_session_def)
  next
    case (task i l k e)
    then show ?thesis
      using h a answered_once_task [OF a [OF task(2)] h task(3)] by (simp add: all_answered_def set_session_def)
  next
    case (deliver i l k c)
    then show ?thesis
      using h a answered_once_deliver [OF a [OF deliver(2)] deliver(3,4)]
      by (simp add: all_answered_def set_session_def)
  next
    case (eof i l)
    then show ?thesis using h a [OF eof(2)] a by (simp add: all_answered_def set_session_def answered_once_def)
  next
    case (finish i l)
    then show ?thesis using hs [of "end_session l (server y)"] a
      by (simp add: all_answered_def end_session_def split: option.splits)
  next
    case (abort i l)
    then show ?thesis using hs [of "end_session l (server y)"] a
      by (simp add: all_answered_def end_session_def split: option.splits)
  next
    case (refresh devs delta s')
    then show ?thesis using hs [OF refresh_host_devices_fields(2) [OF refresh(2)]] a by (simp add: all_answered_def)
  next
    case (renew e p s')
    then show ?thesis using hs [of s'] renew_expired_pin_fields [OF renew(3)] a by (simp add: all_answered_def)
  qed
qed

subsection \<open>Progress of URB tasks\<close>

fun stage_rank :: "task_stage \<Rightarrow> nat" where
  "stage_rank TStart = 5"
| "stage_rank TSnapshot = 4"
| "stage_rank (TBlocking _) = 3"
| "stage_rank (TResult _) = 2"
| "stage_rank (TDone _) = 1"
| "stage_rank (TSending _) = 0"

text \<open>A task run through the server states it meets, one for each of its steps.\<close>

definition task_run :: "world \<Rightarrow> (env \<times> server_state) list \<Rightarrow> urb_task \<Rightarrow> urb_task" where
  "task_run w es t = fold (\<lambda>(e, s). task_step w e s) es t"

lemma stage_rank_0: "stage_rank st = 0 \<longleftrightarrow> (\<exists>c. st = TSending c)"
  by (cases st) auto

lemma task_step_rank: "stage_rank (stage (task_step w e s t)) \<le> stage_rank (stage t) - 1"
  by (auto simp: task_step_def Let_def split: task_stage.splits option.splits)

lemma task_run_rank: "stage_rank (stage (task_run w es t)) \<le> stage_rank (stage t) - length es"
proof (induction es arbitrary: t)
  case (Cons p es)
  obtain e s where p: "p = (e, s)" by (cases p)
  have "stage_rank (stage (task_run w (p # es) t)) \<le> stage_rank (stage (task_step w e s t)) - length es"
    using Cons [of "task_step w e s t"] by (simp add: task_run_def p)
  also have "\<dots> \<le> stage_rank (stage t) - length (p # es)"
    using task_step_rank [of w e s t] by simp
  finally show ?case .
qed (simp add: task_run_def)

text \<open>The flag of the device is off and no emulated device has its id.\<close>

definition unplugged :: "urb_task \<Rightarrow> server_state \<Rightarrow> bool" where
  "unplugged t s \<longleftrightarrow> \<not> cell_load (devices s) (task_presence t) \<and>
     backend_of (submit_device_id (task_urb t)) (devices_snapshot s) \<noteq> Some Emulated"

definition will_fail :: "urb_task \<Rightarrow> bool" where
  "will_fail t \<longleftrightarrow> 2 \<le> stage_rank (stage t) \<or> stage_answer (stage t) = Some (failed_urb (task_seq t))"

lemma task_step_unplugged:
  assumes "unplugged t s" "will_fail t"
  shows "will_fail (task_step w e s t)" "task_presence (task_step w e s t) = task_presence t"
    "task_urb (task_step w e s t) = task_urb t"
  using assms
  by (auto simp: unplugged_def will_fail_def task_step_def task_seq_def Let_def
      split: task_stage.splits option.splits)

lemma task_run_unplugged:
  "\<forall>(e, s) \<in> set es. unplugged t s \<Longrightarrow> will_fail t \<Longrightarrow> will_fail (task_run w es t) \<and> task_seq (task_run w es t) = task_seq t"
proof (induction es arbitrary: t)
  case (Cons p es)
  obtain e s where p: "p = (e, s)" by (cases p)
  note st = task_step_unplugged [OF _ Cons.prems(2), of s w e]
  from Cons.prems p have "unplugged t s" by simp
  with st have "will_fail (task_step w e s t)" "\<forall>(e', s') \<in> set es. unplugged (task_step w e s t) s'"
    "task_seq (task_step w e s t) = task_seq t"
    using Cons.prems(1) by (auto simp: unplugged_def task_seq_def)
  with Cons.IH [of "task_step w e s t"] show ?case by (simp add: task_run_def p)
qed (simp add: task_run_def)

section \<open>Handlers in full\<close>

lemmas handler_defs = handle_message_def receive_def advance_def numeral_3_eq_3 Let_def

text \<open>What makes a submission acceptable.\<close>

definition may_submit :: "env \<Rightarrow> server_state \<Rightarrow> session \<Rightarrow> urb_submit \<Rightarrow> bool" where
  "may_submit e s l u = (case principal l of
     None \<Rightarrow> False
   | Some p \<Rightarrow> token_active e s p \<and> owner (leases s) (submit_device_id u) = Some p)"

lemma handle_submit:
  assumes "pc l = Idle"
  shows "handle_message w e (UrbSubmit u) s l =
    (if \<not> may_submit e s l u then (s, send (UrbComplete (completed (submit_seq u) (- 13) [])) l)
     else case presence_token (devices s) (submit_device_id u) of
            None \<Rightarrow> (s, send (UrbComplete (completed (submit_seq u) (- 1) [])) l)
          | Some a \<Rightarrow>
              if permits_used l < MAX_IN_FLIGHT_URBS
              then (s, l\<lparr>tasks := tasks l @ [\<lparr>task_urb = u, task_presence = a, stage = TStart\<rparr>]\<rparr>)
              else (s, l\<lparr>pc := Waiting u a\<rparr>))"
  using assms
  by (auto simp: handler_defs may_submit_def send_def permits_used_def split: option.splits)

lemma validate_pairing_pin_iff:
  "fst (validate_pairing_pin w e h s) \<longleftrightarrow>
     \<not> consumed (srv_pin s) \<and> unat (attempts (srv_pin s)) < 5 \<and> now e \<le> expires_at (srv_pin s) \<and>
     h = pin_hash_value (srv_pin s)"
  by (auto simp: validate_pairing_pin_def reissue_if_expired_def is_valid_def constant_time_eq_iff
      five_le_iff Let_def split: prod.splits if_splits)

lemma handle_pair:
  assumes "pc l = Idle"
  shows "handle_message w e (PairRequest r) s l =
    (let (ok, s1) = (if peer l = Some (client_fingerprint r) then validate_pairing_pin w e (pin_hash r) s else (False, s))
     in if ok
        then (s1\<lparr>tokens := AList.update (token_draw e) (client_fingerprint r, now e + secs (24 * 60 * 60)) (tokens s1)\<rparr>,
              send (PairResponse \<lparr>pair_success = True, server_fingerprint = srv_fingerprint s1,
                pair_auth_token = token_draw e\<rparr>) (l\<lparr>principal := Some (client_fingerprint r)\<rparr>))
        else (s1, send (PairResponse \<lparr>pair_success = False, server_fingerprint = srv_fingerprint s1,
                pair_auth_token = replicate 32 0\<rparr>) l))"
  using assms
  by (auto simp: handler_defs send_def issue_auth_token_def split: prod.splits)

lemma handle_attach:
  assumes "pc l = Idle"
  shows "handle_message w e (AttachRequest r) s l =
    (case authorize e s l (attach_auth_token r) of
       Inl detail \<Rightarrow> (s, send_error Unauthorized detail l)
     | Inr p \<Rightarrow>
         (case inventory_get (devices s) (attach_device_id r) of
            Some d \<Rightarrow>
              if exported (info d)
              then (s\<lparr>leases := snd (acquire (attach_device_id r) p (leases s))\<rparr>,
                    send (AttachResponse \<lparr>attached_device_id = attach_device_id r,
                            attach_success = owner (leases s) (attach_device_id r) \<in> {None, Some p},
                            usbip_port = 3240, attached_bus_id = bus_id (info d)\<rparr>)
                      (l\<lparr>principal := Some p\<rparr>))
              else (s, send_error NotFound ''unknown device'' (l\<lparr>principal := Some p\<rparr>))
          | None \<Rightarrow> (s, send_error NotFound ''unknown device'' (l\<lparr>principal := Some p\<rparr>))))"
proof -
  have q: "(case acquire d p b of (res, book) \<Rightarrow> f res book) = f (fst (acquire d p b)) (snd (acquire d p b))" for d p b f
    by (simp add: split_beta)
  show ?thesis
    using assms
    by (auto simp: handler_defs send_def send_error_def q lb.acq_result split: sum.splits option.splits)
qed

text \<open>Once five attempts have failed, nothing changes the PIN any more.\<close>

lemma validate_locked:
  "5 \<le> attempts (srv_pin s) \<Longrightarrow> validate_pairing_pin w e h s = (False, s)"
  by (simp add: validate_pairing_pin_def reissue_if_expired_def is_valid_def)

lemma receive_locked:
  "5 \<le> attempts (srv_pin s) \<Longrightarrow> receive w e msg s l = (s', l') \<Longrightarrow> s' = s \<and> (\<forall>r. pc l' = Pairing r True \<longrightarrow> pc l = Pairing r True)"
  by (auto simp: receive_def Let_def validate_locked split: message.splits if_splits sum.splits option.splits)

lemma advance_pin: "advance e s l = (s', l') \<Longrightarrow> srv_pin s' = srv_pin s"
  by (auto simp: advance_def Let_def split: reader_pc.splits if_splits option.splits prod.splits)

lemma step_locked:
  assumes "5 \<le> attempts (srv_pin (server y))" "sys_step w y y'"
  shows "srv_pin (server y') = srv_pin (server y)"
  using assms(2)
proof (cases rule: sys_step.cases)
  case (receive i l e msg s' l')
  then show ?thesis using receive_locked [OF assms(1) receive(6)] by simp
next
  case (advance i l e s' l')
  then show ?thesis using advance_pin [OF advance(6)] by simp
next
  case (refresh devs delta s')
  then show ?thesis by (auto simp: refresh_host_devices_def Let_def split: prod.splits if_splits)
next
  case (renew e p s')
  then show ?thesis using assms(1)
    by (auto simp: renew_expired_pin_def reissue_if_expired_def split: prod.splits option.splits)
qed (auto simp: set_session_def end_session_def split: option.splits)

end
