(* ===== verification/Session_Properties.thy ===== *)
theory Session_Properties
  imports Session
begin

text \<open>
  The properties of the server: what every interleaving of any number of sessions keeps, and what
  each handler does on all of its branches. The witnesses share one run of the system in which a
  client connects, pairs, attaches the built-in keyboard and submits a URB.
\<close>

section \<open>A run\<close>

definition demo_world :: world where
  "demo_world = \<lparr>sha256 = (\<lambda>_. [1]), debug_text = (\<lambda>_. []), host_complete = (\<lambda>_ _ _. None)\<rparr>"

definition demo_env :: "bytes \<Rightarrow> env" where
  "demo_env tok = \<lparr>now = 0, pin_draw = 100000, token_draw = tok\<rparr>"

definition demo_server :: server_state where
  "demo_server = server_new demo_world (demo_env []) ''lab'' [5] simulated_lab_devices"

definition demo_urb :: urb_submit where
  "demo_urb = \<lparr>submit_seq = 7, submit_device_id = 1, endpoint = 0x81, transfer = Interrupt,
     requested_length = 8, submit_data = []\<rparr>"

definition demo_hello :: message where
  "demo_hello = Hello \<lparr>protocol_min = 2, protocol_max = 2, hello_fingerprint = [7], hello_hostname = ''pc''\<rparr>"

definition demo_pair :: pair_request where
  "demo_pair = \<lparr>client_fingerprint = [7], pin_hash = [1], client_name = ''pc''\<rparr>"

definition demo_attach :: attach_request where
  "demo_attach = \<lparr>attach_device_id = 1, attach_auth_token = [9]\<rparr>"

text \<open>The server once the client has paired, and once it holds the lease.\<close>

definition demo_paired :: server_state where
  "demo_paired = demo_server\<lparr>srv_pin := issue (\<lambda>_. [1]) 100000 0 [5], pin_updates := [pin_text (issue (\<lambda>_. [1]) 100000 0 [5])],
     tokens := [([9], [7], secs (24 * 60 * 60))]\<rparr>"

definition demo_leased :: server_state where
  "demo_leased = demo_paired\<lparr>leases := \<lparr>owners = [1 \<mapsto> [7]]\<rparr>\<rparr>"

lemma demo_pin_fields:
  "consumed (issue h n t f) = False" "attempts (issue h n t f) = 0" "expires_at (issue h n t f) = t + PIN_TTL"
  "pin_hash_value (issue (\<lambda>_. [1]) n t f) = [1]"
  by (simp_all add: issue_def issue_with_ttl_def hash_pin_def Let_def)

lemma demo_keyboard:
  "inventory_get (inventory_new simulated_lab_devices) 1 =
     Some (lab_device 1 ''1-1.2'' 0x046d 0xc31c 3 SpeedFull ''USB Keyboard'' [usb_interface 0 3 1 1 [0x81]])"
  "presence_token (inventory_new simulated_lab_devices) 1 = Some 0"
  by code_simp+

definition demo_session :: session where
  "demo_session = \<lparr>peer = Some [7], principal = Some [7], pc = Idle,
     tasks = [\<lparr>task_urb = demo_urb, task_presence = 0, stage = TStart\<rparr>],
     out = [Hello \<lparr>protocol_min = VERSION, protocol_max = VERSION, hello_fingerprint = [5], hello_hostname = ''lab''\<rparr>,
            PairResponse \<lparr>pair_success = True, server_fingerprint = [5], pair_auth_token = [9]\<rparr>,
            AttachResponse \<lparr>attached_device_id = 1, attach_success = True, usbip_port = 3240, attached_bus_id = ''1-1.2''\<rparr>],
     reader_done = False\<rparr>"

definition demo_end :: sys where
  "demo_end = \<lparr>server = demo_leased, sessions = [0 \<mapsto> demo_session],
     received = (\<lambda>_. [])(0 := [demo_hello, PairRequest demo_pair, AttachRequest demo_attach, UrbSubmit demo_urb]),
     clock = 0\<rparr>"

text \<open>The steps of a reader, as functions of the session's state.\<close>

lemma reachable_receive:
  assumes "reachable w y0 \<lparr>server = s, sessions = [i \<mapsto> l], received = r, clock = t\<rparr>"
    "receive w e msg s l = (s', l')" "pc l = Idle" "\<not> reader_done l" "t = now e"
  shows "reachable w y0 \<lparr>server = s', sessions = [i \<mapsto> l'], received = r(i := r i @ [msg]), clock = t\<rparr>"
  using reachable.more [OF assms(1) sys_step.receive [of _ i l e w msg s' l']] assms(2-)
  by (simp add: set_session_def)

lemma reachable_advance:
  assumes "reachable w y0 \<lparr>server = s, sessions = [i \<mapsto> l], received = r, clock = t\<rparr>"
    "advance e s l = (s', l')" "pc l \<noteq> Idle" "fresh_token e s" "t = now e"
  shows "reachable w y0 \<lparr>server = s', sessions = [i \<mapsto> l'], received = r, clock = t\<rparr>"
  using reachable.more [OF assms(1) sys_step.advance [of _ i l e s' l']] assms(2-)
  by (simp add: set_session_def)

lemmas demo_defs = demo_world_def demo_env_def demo_server_def demo_hello_def demo_pair_def demo_attach_def
  demo_urb_def demo_paired_def demo_leased_def server_new_def session_new_def

text \<open>The session after the greeting, after pairing, and after the attach; the server whose PIN was used.\<close>

definition demo_greeting :: message where
  "demo_greeting = Hello \<lparr>protocol_min = VERSION, protocol_max = VERSION, hello_fingerprint = [5], hello_hostname = ''lab''\<rparr>"

definition demo_l1 :: session where
  "demo_l1 = session_new\<lparr>peer := Some [7], out := [demo_greeting]\<rparr>"

definition demo_s2 :: server_state where
  "demo_s2 = demo_server\<lparr>srv_pin := issue (\<lambda>_. [1]) 100000 0 [5], pin_updates := [pin_text (issue (\<lambda>_. [1]) 100000 0 [5])]\<rparr>"

definition demo_l2 :: session where
  "demo_l2 = demo_l1\<lparr>principal := Some [7], out := [demo_greeting,
     PairResponse \<lparr>pair_success = True, server_fingerprint = [5], pair_auth_token = [9]\<rparr>]\<rparr>"

definition demo_l3 :: session where
  "demo_l3 = demo_l2\<lparr>out := out demo_l2 @ [AttachResponse \<lparr>attached_device_id = 1, attach_success = True,
     usbip_port = 3240, attached_bus_id = ''1-1.2''\<rparr>]\<rparr>"

lemmas demo_sessions = demo_greeting_def demo_l1_def demo_l2_def demo_l3_def

lemma demo_steps:
  "receive demo_world (demo_env [9]) demo_hello demo_server session_new = (demo_server, demo_l1)"
  "receive demo_world (demo_env [9]) (PairRequest demo_pair) demo_server demo_l1 =
     (demo_s2, demo_l1\<lparr>pc := Pairing demo_pair True\<rparr>)"
  "advance (demo_env [9]) demo_s2 (demo_l1\<lparr>pc := Pairing demo_pair True\<rparr>) = (demo_paired, demo_l2)"
  "receive demo_world (demo_env [8]) (AttachRequest demo_attach) demo_paired demo_l2 =
     (demo_paired, demo_l2\<lparr>pc := Attaching demo_attach [7]\<rparr>)"
  "advance (demo_env [8]) demo_paired (demo_l2\<lparr>pc := Attaching demo_attach [7]\<rparr>) = (demo_leased, demo_l3)"
  "fresh_token (demo_env [9]) demo_s2" "fresh_token (demo_env [8]) demo_paired" "fresh_token (demo_env [8]) demo_leased"
proof -
  have "validate_pairing_pin demo_world (demo_env [9]) [1] demo_server = (True, demo_s2)"
    by (simp add: validate_pairing_pin_def reissue_if_expired_def is_valid_def constant_time_eq_iff demo_defs
        demo_s2_def demo_pin_fields Let_def)
  then show "receive demo_world (demo_env [9]) (PairRequest demo_pair) demo_server demo_l1 =
      (demo_s2, demo_l1\<lparr>pc := Pairing demo_pair True\<rparr>)"
    by (simp add: receive_def demo_pair_def demo_l1_def)
  show "advance (demo_env [8]) demo_paired (demo_l2\<lparr>pc := Attaching demo_attach [7]\<rparr>) = (demo_leased, demo_l3)"
    by (simp add: advance_def demo_keyboard demo_defs demo_sessions send_def lab_device_def acquire_def
        empty_book_def Let_def)
qed (simp_all add: receive_def advance_def authorize_def demo_defs demo_s2_def demo_sessions send_def
    issue_auth_token_def fresh_token_def Let_def)

lemma demo_idle:
  "pc session_new = Idle" "pc demo_l1 = Idle" "pc demo_l2 = Idle" "pc demo_l3 = Idle" "\<not> reader_done session_new"
  "\<not> reader_done demo_l1" "\<not> reader_done demo_l2" "\<not> reader_done demo_l3"
  by (simp_all add: demo_sessions session_new_def)

lemma demo_now: "0 = now (demo_env t)" by (simp add: demo_env_def)

lemma demo_reachable: "reachable demo_world (sys_init demo_server 0) demo_end"
proof -
  let ?y = "sys_init demo_server 0"
  have 0: "reachable demo_world ?y \<lparr>server = demo_server, sessions = [0 \<mapsto> session_new], received = (\<lambda>_. []), clock = 0\<rparr>"
    using reachable.more [OF reachable.start sys_step.connect [of ?y 0]]
    by (simp add: sys_init_def set_session_def fun_upd_def)
  have r4: "receive demo_world (demo_env [8]) (UrbSubmit demo_urb) demo_leased demo_l3 =
      (demo_leased, demo_l3\<lparr>pc := Checking demo_urb [7] True\<rparr>)"
    by (simp add: receive_def token_active_def demo_defs demo_sessions)
  have a4: "advance (demo_env [8]) demo_leased (demo_l3\<lparr>pc := Checking demo_urb [7] True\<rparr>) =
      (demo_leased, demo_l3\<lparr>pc := Fetching demo_urb\<rparr>)"
    by (simp add: advance_def demo_defs owner_def Let_def)
  have a5: "advance (demo_env [8]) demo_leased (demo_l3\<lparr>pc := Fetching demo_urb\<rparr>) =
      (demo_leased, demo_l3\<lparr>pc := Waiting demo_urb 0\<rparr>)"
    by (simp add: advance_def demo_defs demo_keyboard)
  have a6: "advance (demo_env [8]) demo_leased (demo_l3\<lparr>pc := Waiting demo_urb 0\<rparr>) = (demo_leased, demo_session)"
    by (simp add: advance_def permits_used_def demo_sessions session_new_def demo_session_def)
  note st = demo_steps and idle = demo_idle and n = demo_now
  note 1 = reachable_receive [OF 0 st(1) idle(1,5) n]
  note 2 = reachable_advance [OF reachable_receive [OF 1 st(2) idle(2,6) n] st(3) _ st(6) n, simplified]
  note 3 = reachable_advance [OF reachable_receive [OF 2 st(4) idle(3,7) n] st(5) _ st(7) n, simplified]
  note 4 = reachable_advance [OF reachable_receive [OF 3 r4 idle(4,8) n] a4 _ st(8) n, simplified]
  note 5 = reachable_advance [OF reachable_advance [OF 4 a5 _ st(8) n, simplified] a6 _ st(8) n, simplified]
  then show ?thesis by (simp add: demo_end_def fun_upd_def)
qed

text \<open>A server as it starts, with or without a completer of the embedding program.\<close>

definition started :: "world \<Rightarrow> server_state \<Rightarrow> bool" where
  "started w s \<longleftrightarrow> (\<exists>e host fp devs c. s = (server_new w e host fp devs)\<lparr>urb_completer := c\<rparr>)"

lemma demo_started: "started demo_world demo_server"
proof -
  have "demo_server = (server_new demo_world (demo_env []) ''lab'' [5] simulated_lab_devices)\<lparr>urb_completer := None\<rparr>"
    by (simp add: demo_server_def server_new_def)
  then show ?thesis unfolding started_def by blast
qed

lemma started_inv:
  assumes "started w s"
  shows "leases_present (server (sys_init s t))" "leases_paired (sys_init s t)" "permits_bounded (sys_init s t)"
    "honest_completers w s \<Longrightarrow> all_answered w (sys_init s t)"
  using assms
  by (auto simp: started_def sys_init_def server_new_def leases_present_def leases_paired_def permits_bounded_def
      all_answered_def owner_def empty_book_def inventory_new_sorted)

lemma reachable_all_answered:
  assumes "started w s" "honest_completers w s" "reachable w (sys_init s t) y"
  shows "all_answered w y"
  using assms(3) started_inv(4) [OF assms(1,2)] by (rule reachable_invariant) (rule all_answered_step)

section \<open>Properties of all interleavings\<close>

text \<open>
  C8. Safety of leases in every interleaving of any number of sessions, hot-plug refreshes and
  PIN renewals: whoever holds a lease was issued a token by a successful pairing, and the leased
  device is in the inventory. In particular no attach request that races with the removal of
  the device leaves a lease behind.
\<close>

theorem leases_are_legitimate:
  assumes "started w s" "reachable w (sys_init s t) y" "owner (leases (server y)) d = Some p"
  shows "inventory_get (devices (server y)) d \<noteq> None \<and>
    (\<exists>tok expires. map_of (tokens (server y)) tok = Some (p, expires))"
proof -
  have "leases_present (server y)"
    using assms(2) started_inv(1) [OF assms(1)]
    by (rule reachable_invariant [where I = "\<lambda>y. leases_present (server y)"]) (rule leases_present_step)
  moreover have "leases_paired y"
    using assms(2) started_inv(2) [OF assms(1)] by (rule reachable_invariant) (rule leases_paired_step)
  ultimately show ?thesis
    using assms(3) leases_pairedD(1) by (fastforce simp: leases_present_def paired_def)
qed

theorem leases_are_legitimate_witness:
  "inventory_get (devices (server demo_end)) 1 \<noteq> None \<and>
   (\<exists>tok expires. map_of (tokens (server demo_end)) tok = Some ([7], expires))"
  by (rule leases_are_legitimate [OF demo_started demo_reachable])
     (simp add: demo_end_def demo_leased_def owner_def)

text \<open>
  A session never has more than \<open>MAX_IN_FLIGHT_URBS\<close> URBs in flight.
\<close>

lemma in_flight_bounded:
  assumes "started w s" "reachable w (sys_init s t) y" "sessions y i = Some l"
  shows "permits_used l \<le> MAX_IN_FLIGHT_URBS"
proof -
  have "permits_bounded y"
    using assms(2) started_inv(3) [OF assms(1)] by (rule reachable_invariant) (rule permits_bounded_step)
  with assms(3) show ?thesis by (simp add: permits_bounded_def)
qed

lemma in_flight_bounded_example: "permits_used demo_session \<le> MAX_IN_FLIGHT_URBS \<and> permits_used demo_session = 1"
proof -
  have "sessions demo_end 0 = Some demo_session" by (simp add: demo_end_def)
  from in_flight_bounded [OF demo_started demo_reachable this] show ?thesis
    by (simp add: permits_used_def demo_session_def)
qed

text \<open>
  C9. Every message is answered exactly once. In every interleaving the messages a session has
  received are as many as the replies it sent, the URBs it still works on and the request its
  reader is busy with; and the sequence numbers of the submitted URBs are, counted with
  multiplicity, those of the completions sent, of the URBs in flight and of the one being checked.
  The completers, which are not part of the server, answer the URB they are given.
\<close>

theorem every_message_answered_once:
  assumes "started w s" "honest_completers w s" "reachable w (sys_init s t) y" "sessions y i = Some l"
  shows "length (received y i) = length (out l) + length (tasks l) + (if pc l = Idle then 0 else 1) \<and>
    mset (submitted (received y i)) =
      mset (answered (out l)) + mset (map task_seq (tasks l)) + mset (pc_seqs (pc l))"
  using reachable_all_answered [OF assms(1-3)] assms(4) by (simp add: all_answered_def answered_once_def)

theorem every_message_answered_once_witness:
  "length (received demo_end 0) = length (out demo_session) + 1 \<and>
   mset (submitted (received demo_end 0)) = {#7#}"
proof -
  have s: "sessions demo_end 0 = Some demo_session" by (simp add: demo_end_def)
  have h: "honest_completers demo_world demo_server"
    by (simp add: honest_completers_def demo_defs)
  from every_message_answered_once [OF demo_started h demo_reachable s] show ?thesis
    by (simp add: demo_session_def task_seq_def demo_urb_def)
qed



section \<open>The handlers\<close>

text \<open>
  C13. A URB is accepted only on the authority of a lease: a submission spawns a task (or waits for
  one of the slots) exactly when the session is bound to a peer whose token has not expired and who
  holds the lease of the device, and the device is there; otherwise it is answered with
  \<open>-13\<close> or \<open>-1\<close>, and in no case does it change the server's state.
\<close>

theorem submit_needs_lease:
  assumes "pc l = Idle"
  shows "handle_message w e (UrbSubmit u) s l =
    (if \<not> may_submit e s l u then (s, send (UrbComplete (completed (submit_seq u) (- 13) [])) l)
     else case presence_token (devices s) (submit_device_id u) of
            None \<Rightarrow> (s, send (UrbComplete (completed (submit_seq u) (- 1) [])) l)
          | Some a \<Rightarrow>
              if permits_used l < MAX_IN_FLIGHT_URBS
              then (s, l\<lparr>tasks := tasks l @ [\<lparr>task_urb = u, task_presence = a, stage = TStart\<rparr>]\<rparr>)
              else (s, l\<lparr>pc := Waiting u a\<rparr>))"
  using assms by (rule handle_submit)

theorem submit_needs_lease_witness:
  "handle_message demo_world (demo_env []) (UrbSubmit demo_urb) demo_paired demo_session =
     (demo_paired, send (UrbComplete (completed 7 (- 13) [])) demo_session)"
proof -
  have "pc demo_session = Idle" by (simp add: demo_session_def)
  from submit_needs_lease [OF this] show ?thesis
    by (simp add: may_submit_def demo_session_def demo_defs owner_def empty_book_def)
qed

text \<open>
  C18. Pairing succeeds exactly when the request comes from the peer that said hello, the PIN is
  neither used, expired nor locked, and the hash is that of the PIN; then a token for that peer,
  valid for a day, is stored and returned, the session acts for that peer, and the PIN is replaced
  by a new one. Otherwise no token is stored and the reply carries a zero token.
\<close>

theorem pairing_spec:
  assumes "pc l = Idle" "handle_message w e (PairRequest r) s l = (s', l')"
    and ok: "ok \<longleftrightarrow> peer l = Some (client_fingerprint r) \<and> \<not> consumed (srv_pin s) \<and>
      unat (attempts (srv_pin s)) < 5 \<and> now e \<le> expires_at (srv_pin s) \<and> pin_hash r = pin_hash_value (srv_pin s)"
  shows "out l' = out l @ [PairResponse \<lparr>pair_success = ok, server_fingerprint = srv_fingerprint s,
      pair_auth_token = (if ok then token_draw e else replicate 32 0)\<rparr>] \<and>
    tokens s' = (if ok then AList.update (token_draw e) (client_fingerprint r, now e + secs 86400) (tokens s)
                 else tokens s) \<and>
    principal l' = (if ok then Some (client_fingerprint r) else principal l) \<and>
    (ok \<longrightarrow> srv_pin s' = issue (sha256 w) (pin_draw e) (now e) (srv_fingerprint s))"
proof -
  have "fst (if peer l = Some (client_fingerprint r) then validate_pairing_pin w e (pin_hash r) s else (False, s)) = ok"
    using ok validate_pairing_pin_iff [of w e "pin_hash r" s] by simp
  moreover have "srv_fingerprint (snd (validate_pairing_pin w e (pin_hash r) s)) = srv_fingerprint s"
    by (auto simp: validate_pairing_pin_def Let_def split: option.splits prod.splits)
  moreover have "fst (validate_pairing_pin w e (pin_hash r) s) \<Longrightarrow>
      srv_pin (snd (validate_pairing_pin w e (pin_hash r) s)) =
        issue (sha256 w) (pin_draw e) (now e) (srv_fingerprint s)"
    by (auto simp: validate_pairing_pin_def Let_def split: option.splits prod.splits)
  ultimately show ?thesis
    using assms(2) validate_pairing_pin_fields [of w e "pin_hash r" s]
    unfolding handle_pair [OF assms(1)] Let_def
    by (cases "validate_pairing_pin w e (pin_hash r) s") (auto split: if_splits prod.splits)
qed

theorem pairing_spec_witness:
  "let (s', l') = handle_message demo_world (demo_env [9]) (PairRequest demo_pair) demo_server
     (session_new\<lparr>peer := Some [7]\<rparr>)
   in tokens s' = [([9], [7], secs 86400)] \<and> principal l' = Some [7]"
proof -
  define l where "l = session_new\<lparr>peer := Some [7]\<rparr>"
  obtain s' l' where run: "handle_message demo_world (demo_env [9]) (PairRequest demo_pair) demo_server l = (s', l')"
    by (cases "handle_message demo_world (demo_env [9]) (PairRequest demo_pair) demo_server l")
  have i: "pc l = Idle" by (simp add: l_def session_new_def)
  have ok: "True \<longleftrightarrow> peer l = Some (client_fingerprint demo_pair) \<and> \<not> consumed (srv_pin demo_server) \<and>
      unat (attempts (srv_pin demo_server)) < 5 \<and> now (demo_env [9]) \<le> expires_at (srv_pin demo_server) \<and>
      pin_hash demo_pair = pin_hash_value (srv_pin demo_server)"
    by (simp add: l_def demo_defs demo_pin_fields)
  from pairing_spec [OF i run ok] show ?thesis
    unfolding l_def [symmetric] run by (simp add: demo_defs)
qed

text \<open>
  C19. An attach request is granted exactly when its token was issued to the peer that said hello
  and has not expired, the device is present and exported, and nobody else holds it. Then that peer
  holds the lease; otherwise no lease changes. Nothing else of the server changes.
\<close>

theorem attach_spec:
  assumes "pc l = Idle" "handle_message w e (AttachRequest r) s l = (s', l')"
    and granted: "granted \<longleftrightarrow> (\<exists>expires d. map_of (tokens s) (attach_auth_token r) = Some (p, expires) \<and>
      peer l = Some p \<and> now e \<le> expires \<and> inventory_get (devices s) (attach_device_id r) = Some d \<and>
      exported (info d) \<and> owner (leases s) (attach_device_id r) \<in> {None, Some p})"
    and p: "peer l = Some p"
  shows "s' = (if granted then s\<lparr>leases := \<lparr>owners = (owners (leases s))(attach_device_id r \<mapsto> p)\<rparr>\<rparr> else s) \<and>
    (\<exists>reply. out l' = out l @ [reply] \<and>
       (granted \<longleftrightarrow> (\<exists>a. reply = AttachResponse a \<and> attach_success a)))"
proof (cases "authorize e s l (attach_auth_token r)")
  case (Inl detail)
  then have "\<not> granted" using granted by (auto simp: authorize_def)
  with Inl assms(2) show ?thesis unfolding handle_attach [OF assms(1)] by auto
next
  case (Inr q)
  then have q: "q = p" and t: "\<exists>expires. map_of (tokens s) (attach_auth_token r) = Some (p, expires) \<and> now e \<le> expires"
    using p by (auto simp: authorize_def split: option.splits if_splits)
  have acq: "snd (acquire (attach_device_id r) p (leases s)) =
      (if owner (leases s) (attach_device_id r) \<in> {None, Some p}
       then \<lparr>owners = (owners (leases s))(attach_device_id r \<mapsto> p)\<rparr> else leases s)"
    by (auto simp: acquire_def owner_def fun_upd_idem split: option.splits)
  show ?thesis
  proof (cases "inventory_get (devices s) (attach_device_id r)")
    case None
    with granted Inr assms(2) show ?thesis unfolding handle_attach [OF assms(1)] by auto
  next
    case (Some d)
    with granted t p have "granted \<longleftrightarrow> exported (info d) \<and> owner (leases s) (attach_device_id r) \<in> {None, Some p}"
      by auto
    with Inr Some q acq assms(2) show ?thesis unfolding handle_attach [OF assms(1)] by (auto split: if_splits)
  qed
qed

theorem attach_spec_witness:
  "let (s', l') = handle_message demo_world (demo_env []) (AttachRequest demo_attach) demo_paired
     (session_new\<lparr>peer := Some [7]\<rparr>)
   in s' = demo_leased"
proof -
  define l where "l = session_new\<lparr>peer := Some [7]\<rparr>"
  obtain s' l' where run: "handle_message demo_world (demo_env []) (AttachRequest demo_attach) demo_paired l = (s', l')"
    by (cases "handle_message demo_world (demo_env []) (AttachRequest demo_attach) demo_paired l")
  have i: "pc l = Idle" and p: "peer l = Some [7]" by (simp_all add: l_def session_new_def)
  have g: "True \<longleftrightarrow> (\<exists>expires d. map_of (tokens demo_paired) (attach_auth_token demo_attach) = Some ([7], expires) \<and>
      peer l = Some [7] \<and> now (demo_env []) \<le> expires \<and>
      inventory_get (devices demo_paired) (attach_device_id demo_attach) = Some d \<and>
      exported (info d) \<and> owner (leases demo_paired) (attach_device_id demo_attach) \<in> {None, Some [7]})"
    by (simp add: l_def demo_defs demo_keyboard lab_device_def owner_def empty_book_def)
  from attach_spec [OF i run g p] show ?thesis
    unfolding l_def [symmetric] run by (simp add: demo_defs empty_book_def)
qed

text \<open>
  Every URB task comes to an end: whatever the server does between its steps, five steps after
  it was spawned it has returned a completion and given back its slot.
\<close>

lemma task_completes:
  assumes "stage t = TStart" "5 \<le> length es"
  shows "\<exists>c. stage (task_run w es t) = TSending c"
  using task_run_rank [of w es t] assms by (simp flip: stage_rank_0)

lemma task_completes_example:
  "\<exists>c. stage (task_run demo_world (replicate 5 (demo_env [], demo_leased))
     \<lparr>task_urb = demo_urb, task_presence = 0, stage = TStart\<rparr>) = TSending c"
  by (rule task_completes) simp_all

text \<open>
  C14. A URB of an unplugged device fails: a task that has not passed its last look at the presence
  flag when the device goes completes with \<open>failed_urb\<close>, whatever the hardware or a custom
  completer returned for it.
\<close>

theorem unplugged_urb_fails:
  assumes "2 \<le> stage_rank (stage t)" "\<forall>(e, s) \<in> set es. unplugged t s" "5 \<le> length es"
  shows "stage (task_run w es t) = TSending (failed_urb (submit_seq (task_urb t)))"
proof -
  have "stage_rank (stage t) \<le> 5" by (cases "stage t") simp_all
  with task_run_rank [of w es t] assms(3) obtain c where c: "stage (task_run w es t) = TSending c"
    using stage_rank_0 [of "stage (task_run w es t)"] by auto
  have "will_fail t" using assms(1) by (simp add: will_fail_def)
  with c task_run_unplugged [OF assms(2), of w] show ?thesis by (auto simp: will_fail_def task_seq_def)
qed

theorem unplugged_urb_fails_witness:
  "stage (task_run demo_world (replicate 5 (demo_env [], demo_leased))
     \<lparr>task_urb = demo_urb\<lparr>submit_device_id := 9\<rparr>, task_presence = 9, stage = TResult (completed 7 0 [1])\<rparr>) =
   TSending (failed_urb 7)"
proof -
  let ?t = "\<lparr>task_urb = demo_urb\<lparr>submit_device_id := 9\<rparr>, task_presence = 9, stage = TResult (completed 7 0 [1])\<rparr>"
  have d: "length (cells (inventory_new simulated_lab_devices)) = 4"
    "backend_of 9 (snapshot (inventory_new simulated_lab_devices)) = None"
    by code_simp+
  then have "unplugged ?t demo_leased"
    by (simp add: unplugged_def cell_load_def devices_snapshot_def demo_defs)
  with unplugged_urb_fails [of ?t "replicate 5 (demo_env [], demo_leased)"] show ?thesis
    by (simp add: demo_urb_def)
qed

text \<open>
  C17. A hot-unplug takes effect at once: after a refresh that reports a device as removed, its lease
  is gone, its id is unknown, and every URB task that carries its presence flag sees it unplugged.
\<close>

theorem removed_device_is_unplugged:
  assumes "inventory_wf (devices s)" "room (length devs) (devices s)"
    and "refresh_host_devices devs s = (delta, s')" "d \<in> set (removed delta)"
    and "presence_token (devices s) d = Some (task_presence t)" "submit_device_id (task_urb t) = d"
  shows "unplugged t s' \<and> owner (leases s') d = None \<and> inventory_get (devices s') d = None"
proof -
  note run = refresh_host_devices_fields(4) [OF assms(3)]
  note wf = refresh_hosts_wf [OF assms(1,2) run]
  have "\<not> cell_load (devices s') (task_presence t)"
    using refresh_hosts_cells(4) [OF assms(1,2) run] assms(4,5) by (simp add: presence_token_def)
  moreover have "backend_of d (devices_snapshot s') = None"
  proof -
    have "set (devices_snapshot s') = ran (inventory_get (devices s'))"
      using wf(1) by (simp add: inventory_wf_def inv_ids_def devices_snapshot_def snapshot_def bt.set_vals
          inventory_get_def [abs_def])
    then show ?thesis
      using wf(1) wf(2) [OF assms(4)]
      by (auto simp: backend_of_def find_None_iff inventory_wf_def inv_ids_def ran_def)
  qed
  ultimately show ?thesis
    using refresh_host_devices_fields(3) [OF assms(3), of d] assms(4,6) wf(2) [OF assms(4)]
    by (simp add: unplugged_def)
qed

theorem removed_device_is_unplugged_witness:
  "unplugged \<lparr>task_urb = demo_urb\<lparr>submit_device_id := 5\<rparr>, task_presence = 4, stage = TStart\<rparr>
     (snd (refresh_host_devices [] (demo_server\<lparr>devices := sample_inventory\<rparr>)))"
proof -
  let ?s = "demo_server\<lparr>devices := sample_inventory\<rparr>"
  obtain delta s' where run: "refresh_host_devices [] ?s = (delta, s')"
    by (cases "refresh_host_devices [] ?s")
  have r: "removed (fst (refresh_hosts [] sample_inventory)) = [5]" and p: "presence_token sample_inventory 5 = Some 4"
    by code_simp+
  have "5 \<in> set (removed delta)"
    using refresh_host_devices_fields(4) [OF run] r by simp
  moreover have "room (length []) sample_inventory"
    using sample_inventory_wf(2) by (simp add: room_def)
  ultimately have "unplugged \<lparr>task_urb = demo_urb\<lparr>submit_device_id := 5\<rparr>, task_presence = 4, stage = TStart\<rparr> s'"
    using removed_device_is_unplugged [OF _ _ run] sample_inventory_wf(1) p by simp
  with run show ?thesis by simp
qed

text \<open>
  When a session ends, the peer it acted for holds no lease any more, and no other peer loses
  one.
\<close>

lemma end_session_releases:
  "owner (leases (end_session l s)) d =
     (if principal l \<noteq> None \<and> owner (leases s) d = principal l then None else owner (leases s) d)"
  by (auto simp: end_session_def lb.rel_all_holder split: option.splits)

section \<open>Two sessions of one client\<close>

text \<open>
  Leases are held by peers, not by sessions, and the end of a session releases all leases of its peer. So a
  second connection of the same client that only lists the devices takes away, when it closes, the lease
  under which the first one is still working.
\<close>

lemma second_session_drops_lease:
  "\<exists>y. reachable demo_world (sys_init demo_server 0) y \<and> sessions y 0 = Some demo_session \<and>
     owner (leases (server demo_end)) 1 = Some [7] \<and> owner (leases (server y)) 1 = None"
proof -
  define l1 where "l1 = snd (receive demo_world (demo_env [8]) demo_hello demo_leased session_new)"
  define l2 where "l2 = l1\<lparr>principal := Some [7], pc := Listing\<rparr>"
  define l3 where "l3 = send (DeviceList (device_list demo_leased)) (l2\<lparr>pc := Idle\<rparr>)"
  have r1: "receive demo_world (demo_env [8]) demo_hello demo_leased session_new = (demo_leased, l1)"
    "peer l1 = Some [7]" "pc l1 = Idle" "\<not> reader_done l1" "tasks l1 = []"
    by (simp_all add: l1_def receive_def demo_hello_def session_new_def)
  have r2: "receive demo_world (demo_env [8]) (DeviceListRequest [9]) demo_leased l1 = (demo_leased, l2)"
    using r1(2) by (simp add: receive_def authorize_def l2_def demo_leased_def demo_paired_def demo_env_def)
  have a2: "advance (demo_env [8]) demo_leased l2 = (demo_leased, l3)" by (simp add: advance_def l2_def l3_def)
  have f: "fresh_token (demo_env [8]) demo_leased" by (simp add: fresh_token_def demo_defs)
  have n: "now (demo_env [8]) = 0" by (simp add: demo_env_def)
  define y where "y k l = \<lparr>server = demo_leased, sessions = [0 \<mapsto> demo_session, 1 \<mapsto> l], received = k, clock = 0\<rparr>" for k l
  note R = reachable.more [of demo_world "sys_init demo_server 0"]
  obtain k1 where 1: "reachable demo_world (sys_init demo_server 0) (y k1 session_new)"
    using R [OF demo_reachable sys_step.connect [of demo_end 1]] by (auto simp: demo_end_def set_session_def y_def)
  obtain k2 where 2: "reachable demo_world (sys_init demo_server 0) (y k2 l1)"
    using R [OF 1 sys_step.receive [of _ 1 session_new "demo_env [8]" _ demo_hello demo_leased l1]] r1 n
    by (auto simp: set_session_def y_def session_new_def)
  obtain k3 where 3: "reachable demo_world (sys_init demo_server 0) (y k3 l2)"
    using R [OF 2 sys_step.receive [of _ 1 l1 "demo_env [8]" _ "DeviceListRequest [9]" demo_leased l2]] r1 r2 n
    by (auto simp: set_session_def y_def)
  have 4: "reachable demo_world (sys_init demo_server 0) (y k3 l3)"
    using R [OF 3 sys_step.advance [of _ 1 l2 "demo_env [8]" demo_leased l3]] a2 f n
    by (auto simp: set_session_def y_def l2_def)
  have 5: "reachable demo_world (sys_init demo_server 0) (y k3 (l3\<lparr>reader_done := True\<rparr>))"
    using R [OF 4 sys_step.eof [of _ 1 l3]] by (auto simp: set_session_def y_def l3_def)
  define s where "s = end_session (l3\<lparr>reader_done := True\<rparr>) demo_leased"
  have 6: "reachable demo_world (sys_init demo_server 0) ((y k3 (l3\<lparr>reader_done := True\<rparr>))
      \<lparr>sessions := (sessions (y k3 (l3\<lparr>reader_done := True\<rparr>)))(1 := None), server := s\<rparr>)"
    using R [OF 5 sys_step.finish [of _ 1 "l3\<lparr>reader_done := True\<rparr>"]] r1(5)
    by (simp add: y_def l3_def l2_def s_def)
  have "owner (leases s) 1 = None" "owner (leases (server demo_end)) 1 = Some [7]"
    by (simp_all add: s_def l3_def l2_def end_session_def lb.rel_all_holder demo_end_def demo_leased_def owner_def
        release_all_def map_retain_def)
  with 6 show ?thesis by (intro exI conjI) (assumption, simp_all add: y_def)
qed

end
