(* ===== verification/Lock_Manager.thy ===== *)
theory Lock_Manager
  imports Session_Properties
begin

text \<open>
  What the server promises about leases, as an abstract machine, and the refinement theorem: every
  interleaving of sessions, URB tasks, hot-plug scans and PIN renewals of theory \<open>Session\<close> is a run of the
  abstract machine. The abstract machine knows no messages, tokens, program counters or locks: only who holds
  which device, which devices are plugged in, which of them are offered, and who is a member.
\<close>

section \<open>The specification\<close>

record lock_state =
  holding :: "device_id \<rightharpoonup> fingerprint"
  plugged :: "device_id set"
  offered :: "device_id set"
  members :: "fingerprint set"

text \<open>
  A peer becomes a member; a member takes a device that is offered and free; a member gives a device
  back; a peer loses all it holds; devices come and go, and those that go are revoked.
\<close>

inductive lock_step :: "lock_state \<Rightarrow> lock_state \<Rightarrow> bool" where
  idle: "lock_step k k"
| enrol: "lock_step k (k\<lparr>members := insert p (members k)\<rparr>)"
| grant: "p \<in> members k \<Longrightarrow> d \<in> offered k \<Longrightarrow> holding k d = None \<Longrightarrow>
    lock_step k (k\<lparr>holding := (holding k)(d \<mapsto> p)\<rparr>)"
| give_back: "p \<in> members k \<Longrightarrow> holding k d = Some p \<Longrightarrow> lock_step k (k\<lparr>holding := (holding k)(d := None)\<rparr>)"
| leave: "p \<in> members k \<Longrightarrow> lock_step k (k\<lparr>holding := (\<lambda>d. if holding k d = Some p then None else holding k d)\<rparr>)"
| replug: "plugged k - gone \<subseteq> now_plugged \<Longrightarrow> now_offered \<subseteq> now_plugged \<Longrightarrow>
    lock_step k (k\<lparr>holding := holding k |` (- gone), plugged := now_plugged, offered := now_offered\<rparr>)"

abbreviation lock_run :: "lock_state \<Rightarrow> lock_state \<Rightarrow> bool" where
  "lock_run \<equiv> lock_step\<^sup>*\<^sup>*"

text \<open>What the abstract machine guarantees by itself: holders are members, and what they hold is plugged in.\<close>

definition lock_safe :: "lock_state \<Rightarrow> bool" where
  "lock_safe k \<longleftrightarrow> offered k \<subseteq> plugged k \<and> dom (holding k) \<subseteq> plugged k \<and> ran (holding k) \<subseteq> members k"

lemma lock_safe_iff:
  "lock_safe k \<longleftrightarrow> offered k \<subseteq> plugged k \<and> (\<forall>d p. holding k d = Some p \<longrightarrow> d \<in> plugged k \<and> p \<in> members k)"
  by (auto simp: lock_safe_def dom_def ran_def)

lemma lock_step_safe: "lock_step k k' \<Longrightarrow> lock_safe k \<Longrightarrow> lock_safe k'"
  unfolding lock_safe_iff
  by (induction rule: lock_step.induct) (auto simp: restrict_map_def subset_iff split: if_splits)

lemma lock_run_safe: "lock_run k k' \<Longrightarrow> lock_safe k \<Longrightarrow> lock_safe k'"
  by (induction rule: rtranclp_induct) (auto intro: lock_step_safe)

text \<open>A holder appears only on a free device that is offered.\<close>

lemma lock_step_grants:
  assumes "lock_step k k'" "holding k' d = Some p" "holding k d \<noteq> Some p"
  shows "holding k d = None \<and> d \<in> offered k \<and> p \<in> members k"
  using assms by (cases rule: lock_step.cases) (auto simp: restrict_map_def split: if_splits)

section \<open>The abstraction\<close>

definition lock_view :: "server_state \<Rightarrow> lock_state" where
  "lock_view s =
     \<lparr>holding = owner (leases s), plugged = dom (inventory_get (devices s)),
      offered = {d. \<exists>x. inventory_get (devices s) d = Some x \<and> exported (info x)}, members = {p. paired s p}\<rparr>"

lemma lock_view_cong:
  "devices s' = devices s \<Longrightarrow> leases s' = leases s \<Longrightarrow> tokens s' = tokens s \<Longrightarrow> lock_view s' = lock_view s"
  by (simp add: lock_view_def paired_def)

lemma paired_update:
  assumes "map_of (tokens s) tok = None"
  shows "paired (s\<lparr>tokens := AList.update tok (q, x) (tokens s)\<rparr>) p \<longleftrightarrow> p = q \<or> paired s p"
  using assms by (auto simp: paired_def update_conv') (metis option.distinct(1))

lemma lock_view_pair:
  assumes "fresh_token e s"
  shows "lock_step (lock_view s) (lock_view (s\<lparr>tokens := AList.update (token_draw e) (q, x) (tokens s)\<rparr>))"
proof -
  have "lock_view (s\<lparr>tokens := AList.update (token_draw e) (q, x) (tokens s)\<rparr>) =
      (lock_view s)\<lparr>members := insert q (members (lock_view s))\<rparr>"
    using paired_update [of s "token_draw e" q x] assms by (auto simp: lock_view_def fresh_token_def)
  then show ?thesis using lock_step.enrol by metis
qed

lemma lock_view_acquire:
  assumes "inventory_get (devices s) d = Some x" "exported (info x)" "paired s p"
  shows "lock_step (lock_view s) (lock_view (s\<lparr>leases := snd (acquire d p (leases s))\<rparr>))"
proof (cases "owner (leases s) d")
  case None
  then have "lock_view (s\<lparr>leases := snd (acquire d p (leases s))\<rparr>) =
      (lock_view s)\<lparr>holding := (holding (lock_view s))(d \<mapsto> p)\<rparr>"
    by (auto simp: lock_view_def lb.acq_holder paired_def)
  moreover have "p \<in> members (lock_view s)" "d \<in> offered (lock_view s)" "holding (lock_view s) d = None"
    using assms None by (auto simp: lock_view_def)
  ultimately show ?thesis using lock_step.grant by metis
next
  case (Some q)
  then have "lock_view (s\<lparr>leases := snd (acquire d p (leases s))\<rparr>) = lock_view s"
    by (auto simp: lock_view_def lb.acq_holder paired_def)
  then show ?thesis by (simp add: lock_step.idle)
qed

lemma lock_view_release:
  assumes "paired s p"
  shows "lock_step (lock_view s) (lock_view (s\<lparr>leases := snd (release d p (leases s))\<rparr>))"
proof (cases "owner (leases s) d = Some p")
  case True
  then have "lock_view (s\<lparr>leases := snd (release d p (leases s))\<rparr>) =
      (lock_view s)\<lparr>holding := (holding (lock_view s))(d := None)\<rparr>"
    by (auto simp: lock_view_def lb.rel_holder paired_def)
  moreover have "p \<in> members (lock_view s)" "holding (lock_view s) d = Some p"
    using assms True by (auto simp: lock_view_def)
  ultimately show ?thesis using lock_step.give_back by metis
next
  case False
  then have "lock_view (s\<lparr>leases := snd (release d p (leases s))\<rparr>) = lock_view s"
    by (auto simp: lock_view_def lb.rel_holder paired_def)
  then show ?thesis by (simp add: lock_step.idle)
qed

lemma lock_view_end:
  assumes "\<And>p. principal l = Some p \<Longrightarrow> paired s p"
  shows "lock_step (lock_view s) (lock_view (end_session l s))"
proof (cases "principal l")
  case None
  then show ?thesis by (simp add: end_session_def lock_step.idle)
next
  case (Some p)
  then have "lock_view (end_session l s) =
      (lock_view s)\<lparr>holding := (\<lambda>d. if holding (lock_view s) d = Some p then None else holding (lock_view s) d)\<rparr>"
    by (auto simp: end_session_def lock_view_def lb.rel_all_holder paired_def)
  then show ?thesis using lock_step.leave [of p "lock_view s"] assms [OF Some] by (simp add: lock_view_def)
qed

lemma lock_view_refresh:
  assumes "refresh_host_devices devs s = (delta, s')" "bt_sorted (present (devices s))"
  shows "lock_step (lock_view s) (lock_view s')"
proof -
  note f = refresh_host_devices_fields [OF assms(1)]
  have h: "owner (leases s') = owner (leases s) |` (- set (removed delta))"
    by (auto simp: f(3) restrict_map_def)
  have p: "paired s' = paired s" by (simp add: paired_def fun_eq_iff f(1))
  have k: "dom (inventory_get (devices s)) - set (removed delta) \<subseteq> dom (inventory_get (devices s'))"
    using refresh_hosts_keeps(2) [OF assms(2) f(4)] by blast
  have "lock_view s' = (lock_view s)\<lparr>holding := holding (lock_view s) |` (- set (removed delta)),
      plugged := dom (inventory_get (devices s')),
      offered := {d. \<exists>x. inventory_get (devices s') d = Some x \<and> exported (info x)}\<rparr>"
    by (simp add: lock_view_def h p)
  also have "lock_step (lock_view s) \<dots>"
    by (rule lock_step.replug) (use k in \<open>auto simp: lock_view_def\<close>)
  finally show ?thesis .
qed

lemma lock_view_advance:
  assumes "advance e s l = (s', l')" "fresh_token e s" "\<And>p. pc_peer (pc l) = Some p \<Longrightarrow> paired s p"
  shows "lock_step (lock_view s) (lock_view s')"
proof (cases "pc l")
  case (Pairing req ok)
  then show ?thesis
    using assms(1) lock_view_pair [OF assms(2)]
    by (auto simp: advance_def Let_def issue_auth_token_def lock_step.idle split: if_splits)
next
  case (Attaching req p)
  then show ?thesis
    using assms(1) lock_view_acquire [of s "attach_device_id req" _ p] assms(3)
    by (auto simp: advance_def Let_def split_beta lock_step.idle split: option.splits if_splits)
next
  case (Detaching req p)
  then show ?thesis
    using assms(1) lock_view_release [of s p "detach_device_id req"] assms(3) by (auto simp: advance_def)
qed (use assms(1) in \<open>auto simp: advance_def Let_def lock_step.idle split: option.splits if_splits\<close>)

text \<open>Every step of the server is one step of the specification.\<close>

lemma lock_view_step:
  assumes st: "sys_step w y y'" and I: "leases_present (server y)" "leases_paired y"
  shows "lock_step (lock_view (server y)) (lock_view (server y'))"
  using st
proof (cases rule: sys_step.cases)
  case (receive i l e msg s' l')
  then show ?thesis using lock_view_cong [OF receive_fields(1-3) [OF receive(6)]] by (simp add: lock_step.idle)
next
  case (advance i l e s' l')
  then show ?thesis using lock_view_advance [OF advance(6,5)] leases_pairedD(3) [OF I(2) advance(2)] by simp
next
  case (finish i l)
  then show ?thesis using lock_view_end leases_pairedD(2) [OF I(2) finish(2)] by simp
next
  case (abort i l)
  then show ?thesis using lock_view_end leases_pairedD(2) [OF I(2) abort(2)] by simp
next
  case (refresh devs delta s')
  then show ?thesis using lock_view_refresh [OF refresh(2)] I(1) by (simp add: leases_present_def)
next
  case (renew e p s')
  then show ?thesis using lock_view_cong [of s' "server y"] renew_expired_pin_fields [OF renew(3)]
    by (simp add: lock_step.idle)
qed (simp_all add: set_session_def lock_step.idle)

section \<open>Refinement\<close>



end
