(* ===== verification/Frame.thy ===== *)
theory Frame
  imports Protocol
begin

text \<open>
  The framed stream reader of \<^verbatim>\<open>crates/farbus-core/src/frame.rs\<close>. The transport is the list of
  what its reads deliver: runs of bytes of any size, and possibly an I/O error; a \<open>read\<close> returns
  at most what it was asked for, and nothing at the end of the stream. \<open>read_message\<close> is the
  loop of the source with the reader's buffer passed explicitly, and \<open>read_loop\<close> the sequence
  of messages its callers see.
  The lemmas show that the way the bytes are split over reads cannot be observed: the loop
  computes the reference parse of the whole byte stream.
\<close>

section \<open>Model\<close>

datatype io_error = UnexpectedEof | OtherIo string

datatype frame_error =
    ProtocolError proto_error
  | Io io_error

datatype input = Data bytes | Fail io_error

text \<open>\<open>reader.read(&mut chunk)\<close> with a chunk of \<open>n\<close> bytes; the empty read is the end.\<close>

fun read_some :: "nat \<Rightarrow> input list \<Rightarrow> (io_error + bytes) \<times> input list" where
  "read_some n [] = (Inr [], [])"
| "read_some n (Fail e # r) = (Inl e, r)"
| "read_some n (Data [] # r) = read_some n r"
| "read_some n (Data (b # bs) # r) = (Inr (take n (b # bs)), Data (drop n (b # bs)) # r)"

text \<open>\<open>usize::try_from(u32).unwrap_or(usize::MAX)\<close> never falls back on a 64-bit target.\<close>

definition try_decode_frame :: "bytes \<Rightarrow> (frame_error + message option) \<times> bytes" where
  "try_decode_frame buffer =
     (if length buffer < HEADER_LEN then (Inr None, buffer)
      else let payload_len = unat (u32_from_be_bytes (take 4 (drop 6 buffer)))
        in if payload_len > MAX_PAYLOAD
           then (Inl (ProtocolError (PayloadTooLarge payload_len MAX_PAYLOAD)), buffer)
           else let frame_len = HEADER_LEN + payload_len
             in if length buffer < frame_len then (Inr None, buffer)
                else (case decode (take frame_len buffer) of
                        Inl e \<Rightarrow> (Inl (ProtocolError e), drop frame_len buffer)
                      | Inr msg \<Rightarrow> (Inr (Some msg), drop frame_len buffer)))"

definition bytes_needed :: "bytes \<Rightarrow> frame_error + nat" where
  "bytes_needed buffer =
     (if length buffer < HEADER_LEN then Inr (HEADER_LEN - length buffer)
      else let payload_len = unat (u32_from_be_bytes (take 4 (drop 6 buffer)))
        in if payload_len > MAX_PAYLOAD
           then Inl (ProtocolError (PayloadTooLarge payload_len MAX_PAYLOAD))
           else Inr (max (HEADER_LEN + payload_len - length buffer) 1))"

text \<open>The bytes the transport still delivers before it ends or fails, and how it ends.\<close>

fun stream_bytes :: "input list \<Rightarrow> bytes" where
  "stream_bytes [] = []"
| "stream_bytes (Fail e # r) = []"
| "stream_bytes (Data bs # r) = bs @ stream_bytes r"

fun stream_end :: "input list \<Rightarrow> io_error" where
  "stream_end [] = UnexpectedEof"
| "stream_end (Fail e # r) = e"
| "stream_end (Data bs # r) = stream_end r"

lemma read_some_Inr:
  "read_some n r = (Inr chunk, r') \<Longrightarrow> chunk @ stream_bytes r' = stream_bytes r \<and> length chunk \<le> n"
  by (induction n r rule: read_some.induct) auto

lemma read_some_decreases:
  assumes "read_some n r = (Inr chunk, r')" "chunk \<noteq> []"
  shows "length (stream_bytes r') < length (stream_bytes r)"
proof -
  have "length (stream_bytes r) = length chunk + length (stream_bytes r')"
    using read_some_Inr [OF assms(1)] by (metis length_append)
  with assms(2) show ?thesis by (cases chunk) simp_all
qed

function read_message :: "bytes \<Rightarrow> input list \<Rightarrow> (frame_error + message) \<times> bytes \<times> input list" where
  "read_message buffer r =
     (case try_decode_frame buffer of
        (Inl e, buffer1) \<Rightarrow> (Inl e, buffer1, r)
      | (Inr (Some msg), buffer1) \<Rightarrow> (Inr msg, buffer1, r)
      | (Inr None, buffer1) \<Rightarrow>
          (case bytes_needed buffer1 of
             Inl e \<Rightarrow> (Inl e, buffer1, r)
           | Inr needed \<Rightarrow>
               (case read_some needed r of
                  (Inl e, r1) \<Rightarrow> (Inl (Io e), buffer1, r1)
                | (Inr chunk, r1) \<Rightarrow>
                    if chunk = [] then (Inl (Io UnexpectedEof), buffer1, r1)
                    else read_message (buffer1 @ chunk) r1)))"
  by pat_completeness auto
termination
  by (relation "measure (\<lambda>(buffer, r). length (stream_bytes r))") (auto intro: read_some_decreases [OF sym])

declare read_message.simps [simp del]

text \<open>The free function \<open>read_message\<close>: a reader of its own, dropped with what it has buffered.\<close>

abbreviation framed_reader_new :: bytes where "framed_reader_new \<equiv> []"

definition read_message_once :: "input list \<Rightarrow> (frame_error + message) \<times> input list" where
  "read_message_once r = (case read_message framed_reader_new r of (res, _, r1) \<Rightarrow> (res, r1))"

text \<open>\<open>write_message\<close>: the bytes put on the wire.\<close>

definition write_message :: "message \<Rightarrow> frame_error + bytes" where
  "write_message message = (case encode message of Inl e \<Rightarrow> Inl (ProtocolError e) | Inr bs \<Rightarrow> Inr bs)"

section \<open>The reference parse\<close>

text \<open>What the first frame of a whole byte stream is, and what is left after it.\<close>

definition first_frame :: "io_error \<Rightarrow> bytes \<Rightarrow> (frame_error + message) \<times> bytes" where
  "first_frame e bs =
     (if length bs < HEADER_LEN then (Inl (Io e), bs)
      else if wire_len bs > MAX_PAYLOAD then (Inl (ProtocolError (PayloadTooLarge (wire_len bs) MAX_PAYLOAD)), bs)
      else if length bs < HEADER_LEN + wire_len bs then (Inl (Io e), bs)
      else (case decode (take (HEADER_LEN + wire_len bs) bs) of Inl p \<Rightarrow> Inl (ProtocolError p) | Inr m \<Rightarrow> Inr m,
            drop (HEADER_LEN + wire_len bs) bs))"

lemma first_frame_shorter: "first_frame e bs = (Inr m, rest) \<Longrightarrow> length rest < length bs"
  by (auto simp: first_frame_def split: if_splits)

function parse_stream :: "io_error \<Rightarrow> bytes \<Rightarrow> message list \<times> frame_error" where
  "parse_stream e bs =
     (case first_frame e bs of
        (Inl err, _) \<Rightarrow> ([], err)
      | (Inr m, rest) \<Rightarrow> (let (ms, err) = parse_stream e rest in (m # ms, err)))"
  by pat_completeness auto
termination
  by (relation "measure (\<lambda>(e, bs). length bs)") (auto intro: first_frame_shorter [OF sym])

declare parse_stream.simps [simp del]

lemma stream_end_read_some: "read_some n r = (Inr chunk, r') \<Longrightarrow> stream_end r' = stream_end r"
  by (induction n r rule: read_some.induct) auto

lemma read_some_stopped:
  "read_some n r = (Inl e, r') \<Longrightarrow> stream_bytes r = [] \<and> stream_end r = e"
  "read_some n r = (Inr [], r') \<Longrightarrow> 0 < n \<Longrightarrow> stream_bytes r = [] \<and> stream_end r = UnexpectedEof"
  by (induction n r rule: read_some.induct) auto

lemma header_append: "HEADER_LEN \<le> length b \<Longrightarrow> take 4 (drop 6 (b @ x)) = take 4 (drop 6 b)"
  by simp

text \<open>The three outcomes of looking at the buffer.\<close>

lemma try_decode_frame_cases:
  obtains (short) n where "try_decode_frame b = (Inr None, b)" "bytes_needed b = Inr n" "0 < n"
      "length b < HEADER_LEN \<or> wire_len b \<le> MAX_PAYLOAD \<and> length b < HEADER_LEN + wire_len b"
  | (large) "HEADER_LEN \<le> length b" "MAX_PAYLOAD < wire_len b"
      "try_decode_frame b = (Inl (ProtocolError (PayloadTooLarge (wire_len b) MAX_PAYLOAD)), b)"
  | (full) "HEADER_LEN \<le> length b" "wire_len b \<le> MAX_PAYLOAD" "HEADER_LEN + wire_len b \<le> length b"
      "try_decode_frame b =
         (case decode (take (HEADER_LEN + wire_len b) b) of
            Inl e \<Rightarrow> (Inl (ProtocolError e), drop (HEADER_LEN + wire_len b) b)
          | Inr m \<Rightarrow> (Inr (Some m), drop (HEADER_LEN + wire_len b) b))"
proof (cases "length b < HEADER_LEN")
  case True
  then show thesis by (intro short) (auto simp: try_decode_frame_def bytes_needed_def)
next
  case False
  note F = this
  show thesis
  proof (cases "MAX_PAYLOAD < wire_len b")
    case True
    then show thesis using F by (intro large) (simp_all add: try_decode_frame_def Let_def)
  next
    case le: False
    show thesis
    proof (cases "length b < HEADER_LEN + wire_len b")
      case True
      then show thesis using F le
        by (intro short [of "max (HEADER_LEN + wire_len b - length b) 1"])
           (simp_all add: try_decode_frame_def bytes_needed_def Let_def)
    next
      case False
      then show thesis using F le by (intro full) (simp_all add: try_decode_frame_def Let_def)
    qed
  qed
qed

lemma first_frame_short:
  "length b < HEADER_LEN \<or> wire_len b \<le> MAX_PAYLOAD \<and> length b < HEADER_LEN + wire_len b \<Longrightarrow>
     first_frame e b = (Inl (Io e), b)"
  by (auto simp: first_frame_def)

text \<open>One call of \<open>read_message\<close> takes the first frame of what is buffered and still to come.\<close>

lemma read_message_first:
  "read_message b r = (res, b', r') \<Longrightarrow> first_frame (stream_end r) (b @ stream_bytes r) = (res', rest) \<Longrightarrow>
     res = res' \<and> (\<forall>m. res = Inr m \<longrightarrow> b' @ stream_bytes r' = rest \<and> stream_end r' = stream_end r)"
proof (induction b r arbitrary: res b' r' rule: read_message.induct)
  case (1 b r)
  let ?bs = "b @ stream_bytes r"
  show ?case
  proof (cases rule: try_decode_frame_cases [of b])
    case (short n)
    show ?thesis
    proof (cases "read_some n r")
      case (Pair v r1)
      show ?thesis
      proof (cases v)
        case (Inl e)
        then have "stream_bytes r = []" "stream_end r = e" "res = Inl (Io e)"
          using read_some_stopped(1) [of n r e r1] Pair 1(2) short
          by (simp_all add: read_message.simps [of b r])
        then show ?thesis using 1(3) first_frame_short [OF short(4)] by auto
      next
        case (Inr chunk)
        show ?thesis
        proof (cases "chunk = []")
          case True
          then have "stream_bytes r = []" "stream_end r = UnexpectedEof" "res = Inl (Io UnexpectedEof)"
            using read_some_stopped(2) [of n r r1] Inr Pair 1(2) short
            by (simp_all add: read_message.simps [of b r])
          then show ?thesis using 1(3) first_frame_short [OF short(4)] by auto
        next
          case False
          have st: "chunk @ stream_bytes r1 = stream_bytes r" "stream_end r1 = stream_end r"
            using Pair Inr read_some_Inr stream_end_read_some by blast+
          have "read_message (b @ chunk) r1 = (res, b', r')"
            using 1(2) short Pair Inr False by (simp add: read_message.simps [of b r])
          from 1(1) [OF short(1) [symmetric] refl refl short(2) Pair [symmetric] Inr False this] 1(3) st
          show ?thesis by simp
        qed
      qed
    qed
  next
    case large
    moreover have "HEADER_LEN \<le> length ?bs" using large(1) by simp
    ultimately show ?thesis
      using 1(2,3) header_append [OF large(1), of "stream_bytes r"]
      by (auto simp: read_message.simps [of b r] first_frame_def)
  next
    case full
    moreover have "take (HEADER_LEN + wire_len b) ?bs = take (HEADER_LEN + wire_len b) b"
      "drop (HEADER_LEN + wire_len b) ?bs = drop (HEADER_LEN + wire_len b) b @ stream_bytes r"
      "\<not> length ?bs < HEADER_LEN + wire_len b" "\<not> length ?bs < HEADER_LEN"
      using full(1,3) by simp_all
    ultimately show ?thesis
      using 1(2,3) header_append [OF full(1), of "stream_bytes r"]
      by (cases "decode (take (HEADER_LEN + wire_len b) b)")
         (simp_all only: read_message.simps [of b r] first_frame_def, auto)
  qed
qed

text \<open>
  The reader asks for no byte past the frame it is reading, so that nothing is left in the buffer with a
  message, and the free function, which drops the buffer, loses nothing.
\<close>

definition within_frame :: "bytes \<Rightarrow> bool" where
  "within_frame b \<longleftrightarrow> length b < HEADER_LEN \<or> length b \<le> HEADER_LEN + wire_len b"

lemma within_frame_grows:
  assumes "bytes_needed b = Inr n" "length chunk \<le> n"
    "length b < HEADER_LEN \<or> wire_len b \<le> MAX_PAYLOAD \<and> length b < HEADER_LEN + wire_len b"
  shows "within_frame (b @ chunk)"
proof (cases "length b < HEADER_LEN")
  case True
  with assms(1) have "n = HEADER_LEN - length b" by (simp add: bytes_needed_def)
  with assms(2) True show ?thesis unfolding within_frame_def length_append by linarith
next
  case False
  with assms(1,3) have "n = HEADER_LEN + wire_len b - length b" by (auto simp: bytes_needed_def Let_def)
  moreover have "wire_len (b @ chunk) = wire_len b" using False header_append [of b chunk] by simp
  ultimately show ?thesis using assms(2,3) False unfolding within_frame_def length_append by linarith
qed

lemma read_message_exact: "read_message b r = (Inr m, b', r') \<Longrightarrow> within_frame b \<Longrightarrow> b' = []"
proof (induction b r arbitrary: b' r' rule: read_message.induct)
  case (1 b r)
  show ?case
  proof (cases rule: try_decode_frame_cases [of b])
    case (short n)
    obtain chunk r1 where c: "read_some n r = (Inr chunk, r1)" "chunk \<noteq> []" "read_message (b @ chunk) r1 = (Inr m, b', r')"
    proof (cases "read_some n r")
      case (Pair v r1)
      with 1(2) short(1,2) that show thesis
        by (cases v) (simp_all add: read_message.simps [of b r] split: if_splits)
    qed
    have "within_frame (b @ chunk)"
      using read_some_Inr [OF c(1)] short by (intro within_frame_grows) auto
    with 1(1) [OF short(1) [symmetric] refl refl short(2) c(1) [symmetric] refl c(2,3)] show ?thesis .
  next
    case large
    with 1(2) show ?thesis by (simp add: read_message.simps [of b r])
  next
    case full
    have "length b \<le> HEADER_LEN + wire_len b" using full(1) 1(3) unfolding within_frame_def by linarith
    then have "drop (HEADER_LEN + wire_len b) b = []" by (rule drop_all)
    with full(4) 1(2) show ?thesis
      by (cases "decode (take (HEADER_LEN + wire_len b) b)") (simp_all only: read_message.simps [of b r], auto)
  qed
qed

lemma read_message_once_first:
  assumes "read_message_once r = (res, r')" "first_frame (stream_end r) (stream_bytes r) = (res', rest)"
  shows "res = res' \<and> (\<forall>m. res = Inr m \<longrightarrow> stream_bytes r' = rest \<and> stream_end r' = stream_end r)"
proof -
  obtain b' where rm: "read_message [] r = (res, b', r')"
    using assms(1) by (auto simp: read_message_once_def split: prod.splits)
  have "first_frame (stream_end r) ([] @ stream_bytes r) = (res', rest)" using assms(2) by simp
  from read_message_first [OF rm this] read_message_exact [of "[]" r _ b' r'] rm show ?thesis
    by (auto simp: within_frame_def)
qed

text \<open>The messages a caller that reads until the first error sees, and the error.\<close>

lemma read_message_shorter:
  assumes "read_message b r = (Inr m, b', r')"
  shows "length b' + length (stream_bytes r') < length b + length (stream_bytes r)"
proof -
  obtain res rest where f: "first_frame (stream_end r) (b @ stream_bytes r) = (res, rest)"
    by (cases "first_frame (stream_end r) (b @ stream_bytes r)")
  from read_message_first [OF assms f] first_frame_shorter [of "stream_end r" "b @ stream_bytes r" m rest] f
  show ?thesis by (metis length_append)
qed

function read_loop :: "bytes \<Rightarrow> input list \<Rightarrow> message list \<times> frame_error" where
  "read_loop b r =
     (case read_message b r of
        (Inl err, _, _) \<Rightarrow> ([], err)
      | (Inr m, b', r') \<Rightarrow> (let (ms, err) = read_loop b' r' in (m # ms, err)))"
  by pat_completeness auto
termination
  by (relation "measure (\<lambda>(b, r). length b + length (stream_bytes r))")
     (auto intro: read_message_shorter [OF sym])

declare read_loop.simps [simp del]

lemma read_loop_parse: "read_loop b r = parse_stream (stream_end r) (b @ stream_bytes r)"
proof (induction b r rule: read_loop.induct)
  case (1 b r)
  obtain res b' r' where m: "read_message b r = (res, b', r')" by (cases "read_message b r")
  obtain res' rest where f: "first_frame (stream_end r) (b @ stream_bytes r) = (res', rest)"
    by (cases "first_frame (stream_end r) (b @ stream_bytes r)")
  note e = read_message_first [OF m f]
  show ?case
  proof (cases res)
    case (Inl err)
    then show ?thesis using e
      by (simp add: read_loop.simps [of b r] parse_stream.simps [of "stream_end r"] m f)
  next
    case (Inr x)
    then have "b' @ stream_bytes r' = rest" "stream_end r' = stream_end r" "res' = Inr x" using e by auto
    moreover from 1 have "read_loop b' r' = parse_stream (stream_end r') (b' @ stream_bytes r')"
      by (simp add: m Inr)
    ultimately show ?thesis
      by (simp add: read_loop.simps [of b r] parse_stream.simps [of "stream_end r"] m f Inr)
  qed
qed

section \<open>Streams of frames\<close>

lemma first_frame_encode:
  assumes "wf_message m" "encode m = Inr p"
  shows "first_frame e (p @ rest) = (Inr m, rest)"
proof -
  obtain q len where p: "p = MAGIC @ [VERSION, ty m] @ u32_to_be_bytes len @ q"
    and len: "length q = unat len" "unat len \<le> MAX_PAYLOAD"
    using assms(2) by (rule encode_frame)
  have w: "wire_len (p @ rest) = unat len" by (simp add: p)
  have "decode p = Inr m" using assms by (simp add: decode_iff)
  moreover have l: "HEADER_LEN + unat len = length p" by (simp add: p len(1))
  moreover have "\<not> length p + length rest < HEADER_LEN" "take (length p) (p @ rest) = p" "drop (length p) (p @ rest) = rest"
    using l by simp_all
  ultimately show ?thesis using len(2) by (simp add: first_frame_def w l del: take_append drop_append)
qed

lemma parse_stream_encode:
  "list_all2 (\<lambda>m p. wf_message m \<and> encode m = Inr p) ms ps \<Longrightarrow>
     parse_stream e (concat ps @ tail) = (let (ms', err) = parse_stream e tail in (ms @ ms', err))"
proof (induction ms ps rule: list_all2_induct)
  case (Cons m ms p ps)
  then have "first_frame e (p @ concat ps @ tail) = (Inr m, concat ps @ tail)"
    by (simp add: first_frame_encode)
  with Cons show ?case
    by (simp add: parse_stream.simps [of e "p @ concat ps @ tail"] Let_def split_beta)
qed (simp add: Let_def split_beta)

lemma parse_stream_stop: "first_frame e bs = (Inl err, rest) \<Longrightarrow> parse_stream e bs = ([], err)"
  by (simp add: parse_stream.simps [of e bs])

text \<open>A stream that ends inside a frame.\<close>

lemma first_frame_prefix:
  assumes "encode m = Inr p" "k < length p"
  shows "first_frame e (take k p) = (Inl (Io e), take k p)"
proof -
  obtain q len where p: "p = MAGIC @ [VERSION, ty m] @ u32_to_be_bytes len @ q"
    and len: "length q = unat len" "unat len \<le> MAX_PAYLOAD"
    using assms(1) by (rule encode_frame)
  have l: "length p = HEADER_LEN + unat len" by (simp add: p len(1))
  show ?thesis
  proof (cases "k < HEADER_LEN")
    case True
    then show ?thesis by (intro first_frame_short disjI1) simp
  next
    case False
    have "wire_len p = unat len" by (simp add: p)
    moreover have "take 4 (drop 6 (take k p)) = take 4 (drop 6 p)" using False by (simp add: drop_take)
    ultimately show ?thesis using False assms(2) l len(2) by (intro first_frame_short) simp
  qed
qed

section \<open>Properties\<close>

text \<open>
  C10. Framing is independent of how the transport splits the bytes: reading until the first
  error, from any buffered prefix, gives the messages and the error of the reference parse of the
  whole byte stream. No byte is lost or read twice, whatever the sizes of the reads; since the
  buffer and the unread input are all the state there is, a call that is cancelled between two
  reads and called again goes on where it was.
\<close>

theorem read_loop_is_parse_stream: "read_loop b r = parse_stream (stream_end r) (b @ stream_bytes r)"
  by (rule read_loop_parse)

text \<open>
  Whatever a peer writes arrives: the frames of any messages, concatenated, cut into reads
  at any places and possibly followed by an incomplete frame, are read as exactly these messages
  in their order, and then the end of the stream is reported.
\<close>

lemma frames_arrive:
  assumes "list_all2 (\<lambda>m p. wf_message m \<and> write_message m = Inr p) ms ps"
    and "write_message m = Inr p" "k < length p"
    and "stream_bytes r = concat ps @ take k p" "stream_end r = UnexpectedEof"
  shows "read_loop [] r = (ms, Io UnexpectedEof)"
proof -
  have w: "write_message x = Inr q \<longleftrightarrow> encode x = Inr q" for x q
    by (simp add: write_message_def split: sum.splits)
  have "first_frame UnexpectedEof (take k p) = (Inl (Io UnexpectedEof), take k p)"
    using assms(2,3) unfolding w by (rule first_frame_prefix)
  then have "parse_stream UnexpectedEof (take k p) = ([], Io UnexpectedEof)" by (rule parse_stream_stop)
  with assms(1,4,5) show ?thesis unfolding w by (simp add: read_loop_parse parse_stream_encode)
qed

lemma frames_arrive_example:
  "read_loop [] [Data [0x46, 0x41, 0x52], Data [0x42, 2, 3, 0, 0, 0, 4, 0, 0, 0, 7, 0x46], Data [0x41]]
     = ([Detach 7], Io UnexpectedEof)"
proof -
  define p :: bytes where "p = [0x46, 0x41, 0x52, 0x42, 2, 3, 0, 0, 0, 4, 0, 0, 0, 7]"
  define r where "r = [Data [0x46, 0x41, 0x52], Data [0x42, 2, 3, 0, 0, 0, 4, 0, 0, 0, 7, 0x46], Data [0x41]]"
  have e: "write_message (Detach 7) = Inr p"
    by (simp add: p_def write_message_def encode_def try_u32_def u32_to_be_bytes_def drop_bit_eq_div)
  then have a: "list_all2 (\<lambda>m p. wf_message m \<and> write_message m = Inr p) [Detach 7] [p]" by simp
  have k: "2 < length p" and s: "stream_bytes r = concat [p] @ take 2 p" "stream_end r = UnexpectedEof"
    by (simp_all add: p_def r_def)
  from frames_arrive [OF a e k s] show ?thesis by (simp add: r_def)
qed

end
