(* ===== verification/Address.thy ===== *)
theory Address
  imports Frame "HOL-Library.Multiset"
begin

text \<open>
  Socket addresses as the sources use them: the order in which the addresses of a server are tried
  (\<^verbatim>\<open>crates/farbus-core/src/path.rs\<close>) and the checks that keep the USB/IP listeners on the loopback
  interface (\<^verbatim>\<open>farbus-server/src/lib.rs\<close>, \<^verbatim>\<open>farbus-client/src/lib.rs\<close>, \<^verbatim>\<open>farbus-gui/src/lib.rs\<close>,
  \<^verbatim>\<open>usbip_forward.rs\<close>, \<^verbatim>\<open>usbip_proxy.rs\<close>). The text form of an address is the parameter \<open>parse_addr\<close>.
\<close>

section \<open>Model\<close>

text \<open>An IPv6 socket address carries a flow label and a scope id beside its port.\<close>

datatype socket_addr =
    SocketV4 u32 u16
  | SocketV6 "128 word" u16 u32 u32

fun is_ipv6 :: "socket_addr \<Rightarrow> bool" where
  "is_ipv6 (SocketV6 _ _ _ _) = True"
| "is_ipv6 (SocketV4 _ _) = False"

text \<open>\<open>IpAddr::is_loopback\<close>: 127.0.0.0/8 and \<open>::1\<close>.\<close>

fun is_loopback :: "socket_addr \<Rightarrow> bool" where
  "is_loopback (SocketV4 ip _) = (drop_bit 24 ip = 127)"
| "is_loopback (SocketV6 ip _ _ _) = (ip = 1)"

subsection \<open>Order of the candidates\<close>

fun split_families :: "socket_addr list \<Rightarrow> socket_addr list \<Rightarrow> socket_addr list \<Rightarrow> socket_addr list \<times> socket_addr list" where
  "split_families v6 v4 [] = (v6, v4)"
| "split_families v6 v4 (a # addrs) =
     (if is_ipv6 a then split_families (v6 @ [a]) v4 addrs else split_families v6 (v4 @ [a]) addrs)"

definition connection_order :: "socket_addr list \<Rightarrow> socket_addr list" where
  "connection_order addrs =
     (let (v6, v4) = split_families [] [] addrs in take 1 v6 @ take 1 v4 @ drop 1 v6 @ drop 1 v4)"

subsection \<open>Loopback listeners\<close>

definition parse_loopback_addr :: "(string \<Rightarrow> socket_addr option) \<Rightarrow> string \<Rightarrow> string + socket_addr" where
  "parse_loopback_addr parse_addr v =
     (case parse_addr v of
        None \<Rightarrow> Inl ''expected a socket address''
      | Some a \<Rightarrow> if \<not> is_loopback a then Inl ''USB/IP listener must use a loopback address'' else Inr a)"

definition cli_parse_loopback_addr :: "(string \<Rightarrow> socket_addr option) \<Rightarrow> string \<Rightarrow> string + socket_addr" where
  "cli_parse_loopback_addr parse_addr v =
     (case parse_addr v of
        None \<Rightarrow> Inl ''expected a socket address''
      | Some a \<Rightarrow> if \<not> is_loopback a then Inl ''USB/IP listener must use a loopback address'' else Inr a)"

definition ensure_loopback :: "(string \<Rightarrow> socket_addr option) \<Rightarrow> string \<Rightarrow> io_error + unit" where
  "ensure_loopback parse_addr listen =
     (case parse_addr listen of
        None \<Rightarrow> Inl (OtherIo ''invalid address'')
      | Some a \<Rightarrow>
          if \<not> is_loopback a then Inl (OtherIo ''USB/IP listener must use a loopback address'') else Inr ())"

text \<open>\<open>bind\<close> is the outcome of binding the socket.\<close>

definition bind_loopback ::
    "(string \<Rightarrow> socket_addr option) \<Rightarrow> (socket_addr \<Rightarrow> io_error + 'l) \<Rightarrow> string \<Rightarrow> io_error + 'l" where
  "bind_loopback parse_addr bind addr =
     (case parse_addr addr of
        None \<Rightarrow> Inl (OtherIo ''invalid address'')
      | Some a \<Rightarrow>
          if \<not> is_loopback a then Inl (OtherIo ''USB/IP listener must use a loopback address'') else bind a)"

text \<open>\<open>serve_usbip_forward\<close> up to its accept loop; \<open>bind\<close> is given the text again.\<close>

definition forward_listen ::
    "(string \<Rightarrow> socket_addr option) \<Rightarrow> (string \<Rightarrow> io_error + 'l) \<Rightarrow> string \<Rightarrow> io_error + 'l" where
  "forward_listen parse_addr bind listen = bind_res (ensure_loopback parse_addr listen) (\<lambda>_. bind listen)"

definition loopback_usbip :: "socket_addr \<Rightarrow> socket_addr option" where
  "loopback_usbip a = (if is_loopback a then Some a else None)"

section \<open>Lemmas\<close>

lemma split_families_filter:
  "split_families v6 v4 addrs = (v6 @ filter is_ipv6 addrs, v4 @ filter (\<lambda>a. \<not> is_ipv6 a) addrs)"
  by (induction addrs arbitrary: v6 v4) simp_all

lemma connection_order_parts:
  "connection_order addrs =
     (let v6 = filter is_ipv6 addrs; v4 = filter (\<lambda>a. \<not> is_ipv6 a) addrs
      in take 1 v6 @ take 1 v4 @ drop 1 v6 @ drop 1 v4)"
  by (simp add: connection_order_def split_families_filter Let_def)

lemma interleaved:
  "mset (take 1 xs @ take 1 ys @ drop 1 xs @ drop 1 ys) = mset xs + mset ys"
  "\<forall>x \<in> set xs. P x \<Longrightarrow> \<forall>y \<in> set ys. \<not> P y \<Longrightarrow> filter P (take 1 xs @ take 1 ys @ drop 1 xs @ drop 1 ys) = xs"
  "\<forall>x \<in> set xs. \<not> P x \<Longrightarrow> \<forall>y \<in> set ys. P y \<Longrightarrow> filter P (take 1 xs @ take 1 ys @ drop 1 xs @ drop 1 ys) = ys"
  by (cases xs; cases ys; simp add: filter_id_conv filter_empty_conv)+

lemma mset_connection_order: "mset (connection_order addrs) = mset addrs"
  unfolding connection_order_parts Let_def interleaved by (simp flip: multiset_partition)

lemma connection_order_families:
  "filter is_ipv6 (connection_order addrs) = filter is_ipv6 addrs"
  "filter (\<lambda>a. \<not> is_ipv6 a) (connection_order addrs) = filter (\<lambda>a. \<not> is_ipv6 a) addrs"
  unfolding connection_order_parts Let_def by (rule interleaved; simp)+

section \<open>Properties\<close>

text \<open>
  The order in which the addresses of a server are tried keeps every candidate exactly once, keeps the given
  order within each address family, starts with an IPv6 address whenever there is one, and puts the first IPv4
  address second when both families occur.
\<close>

lemma connection_order_spec:
  "mset (connection_order addrs) = mset addrs \<and>
   filter is_ipv6 (connection_order addrs) = filter is_ipv6 addrs \<and>
   filter (\<lambda>a. \<not> is_ipv6 a) (connection_order addrs) = filter (\<lambda>a. \<not> is_ipv6 a) addrs \<and>
   (filter is_ipv6 addrs \<noteq> [] \<longrightarrow> is_ipv6 (hd (connection_order addrs)) \<and>
     (filter (\<lambda>a. \<not> is_ipv6 a) addrs \<noteq> [] \<longrightarrow>
       connection_order addrs ! 1 = hd (filter (\<lambda>a. \<not> is_ipv6 a) addrs)))"
proof -
  have "is_ipv6 (hd (connection_order addrs)) \<and> (filter (\<lambda>a. \<not> is_ipv6 a) addrs \<noteq> [] \<longrightarrow>
      connection_order addrs ! 1 = hd (filter (\<lambda>a. \<not> is_ipv6 a) addrs))" if ne: "filter is_ipv6 addrs \<noteq> []"
  proof -
    obtain a v6 where a: "filter is_ipv6 addrs = a # v6" using ne by (meson neq_Nil_conv)
    then have "is_ipv6 a" by (metis filter_eq_ConsD)
    with a show ?thesis
      by (cases "filter (\<lambda>a. \<not> is_ipv6 a) addrs") (auto simp: connection_order_parts Let_def)
  qed
  then show ?thesis using mset_connection_order connection_order_families by blast
qed

lemma connection_order_spec_example:
  "is_ipv6 (hd (connection_order [SocketV4 1 80, SocketV6 1 80 0 0, SocketV4 2 80])) \<and>
   connection_order [SocketV4 1 80, SocketV6 1 80 0 0, SocketV4 2 80] ! 1 = SocketV4 1 80"
  using connection_order_spec [of "[SocketV4 1 80, SocketV6 1 80 0 0, SocketV4 2 80]"] by simp

text \<open>
  The USB/IP listeners, which have no authentication, are only ever bound to the loopback interface: every
  check in front of them lets exactly the addresses through that parse as loopback addresses.
\<close>

lemma listeners_loopback_only:
  "(parse_loopback_addr parse_addr s = Inr a \<longleftrightarrow> parse_addr s = Some a \<and> is_loopback a) \<and>
   (cli_parse_loopback_addr parse_addr s = Inr a \<longleftrightarrow> parse_addr s = Some a \<and> is_loopback a) \<and>
   (forward_listen parse_addr bind s = Inr l \<longleftrightarrow> (\<exists>a. parse_addr s = Some a \<and> is_loopback a) \<and> bind s = Inr l) \<and>
   (bind_loopback parse_addr bind_addr s = Inr l \<longleftrightarrow>
     (\<exists>a. parse_addr s = Some a \<and> is_loopback a \<and> bind_addr a = Inr l)) \<and>
   (loopback_usbip a = Some b \<longleftrightarrow> is_loopback a \<and> a = b)"
  by (auto simp: parse_loopback_addr_def cli_parse_loopback_addr_def forward_listen_def ensure_loopback_def
      bind_loopback_def loopback_usbip_def split: option.splits)

end
