(* ===== verification/Client.thy ===== *)
theory Client
  imports Identity Address "HOL-Library.AList" "HOL-Library.Multiset"
begin

text \<open>
  The client of \<^verbatim>\<open>crates/farbus-core/src/client.rs\<close>: the I/O pump that multiplexes all requests of
  a client over one connection, and the operations of \<open>FarBusClient\<close>.

  Every command carries the sending half of a oneshot channel; in the model a channel is a number
  (a ticket), and \<open>delivered\<close> is the list of what was sent to tickets so far. Dropping the
  sending half without an answer makes the waiting side report \<open>Closed\<close>, so a dropped ticket
  is delivered \<open>Closed\<close>. The tables of waiting tickets are association lists. A write fails
  when the message cannot be encoded or when the transport fails, which comes with the event.
  Opening a connection is in theory \<open>Client_Calls\<close>.
\<close>

section \<open>The pump\<close>

datatype client_error =
    FrameFailed frame_error
  | IoFailed io_error
  | TlsFailed
  | PairRejected
  | Unexpected
  | AttachRejected
  | Closed

datatype client_cmd =
    ControlCmd message
  | UrbCmd urb_submit
  | UnlinkCmd urb_unlink

datatype answer =
    MessageAnswer message
  | UrbAnswer urb_complete
  | StatusAnswer i32

record pump =
  pending_urbs :: "(u32 \<times> nat) list"
  pending_unlinks :: "(u32 \<times> nat) list"
  control_replies :: "nat list"
  delivered :: "(nat \<times> (client_error + answer)) list"
  running :: bool

definition pump_new :: pump where
  "pump_new = \<lparr>pending_urbs = [], pending_unlinks = [], control_replies = [], delivered = [], running = True\<rparr>"

definition deliver :: "nat \<Rightarrow> client_error + answer \<Rightarrow> pump \<Rightarrow> pump" where
  "deliver t r p = p\<lparr>delivered := delivered p @ [(t, r)]\<rparr>"

text \<open>\<open>write_message\<close> on a transport that fails with \<open>io\<close> or not at all.\<close>

definition write_result :: "io_error option \<Rightarrow> message \<Rightarrow> frame_error option" where
  "write_result io msg = (case write_message msg of Inl e \<Rightarrow> Some e | Inr _ \<Rightarrow> map_option Io io)"

text \<open>\<open>HashMap::insert\<close> of a reply channel: an old channel under the same key is dropped.\<close>

definition replace_pending ::
    "u32 \<Rightarrow> nat \<Rightarrow> (u32 \<times> nat) list \<Rightarrow> (u32 \<times> nat) list \<times> (nat \<times> (client_error + answer)) list" where
  "replace_pending seq t m =
     (AList.update seq t m, case map_of m seq of None \<Rightarrow> [] | Some old \<Rightarrow> [(old, Inl Closed)])"

text \<open>What follows the loop: everyone who still waits is told that the connection is closed.\<close>

definition drain :: "pump \<Rightarrow> pump" where
  "drain p =
     p\<lparr>control_replies := [], pending_urbs := [], pending_unlinks := [], running := False,
       delivered := delivered p @ map (\<lambda>t. (t, Inl Closed))
         (control_replies p @ map snd (pending_urbs p) @ map snd (pending_unlinks p))\<rparr>"

definition await_urb :: "u32 \<Rightarrow> nat \<Rightarrow> pump \<Rightarrow> pump" where
  "await_urb seq t p =
     (let (m, dropped) = replace_pending seq t (pending_urbs p)
      in p\<lparr>pending_urbs := m, delivered := delivered p @ dropped\<rparr>)"

definition await_unlink :: "u32 \<Rightarrow> nat \<Rightarrow> pump \<Rightarrow> pump" where
  "await_unlink seq t p =
     (let (m, dropped) = replace_pending seq t (pending_unlinks p)
      in p\<lparr>pending_unlinks := m, delivered := delivered p @ dropped\<rparr>)"

text \<open>\<open>control_replies.pop_front()\<close> and an answer to the one popped.\<close>

definition answer_front :: "client_error + answer \<Rightarrow> pump \<Rightarrow> pump" where
  "answer_front r p =
     (case control_replies p of
        [] \<Rightarrow> p
      | t # ts \<Rightarrow> deliver t r (p\<lparr>control_replies := ts\<rparr>))"

text \<open>The arm of the \<open>select!\<close> that takes a command. A pump that has stopped has dropped the
  receiving half of the command channel: the command is not accepted, or dropped with the queue.\<close>

definition pump_cmd :: "io_error option \<Rightarrow> client_cmd \<Rightarrow> nat \<Rightarrow> pump \<Rightarrow> pump" where
  "pump_cmd io cmd t p =
     (if \<not> running p then deliver t (Inl Closed) p
      else case cmd of
        ControlCmd msg \<Rightarrow>
          let p1 = p\<lparr>control_replies := control_replies p @ [t]\<rparr>
          in (case write_result io msg of
                None \<Rightarrow> p1
              | Some err \<Rightarrow> drain (answer_front (Inl (FrameFailed err)) p1))
      | UrbCmd urb \<Rightarrow>
          let p1 = await_urb (submit_seq urb) t p
          in (case write_result io (UrbSubmit urb) of None \<Rightarrow> p1 | Some _ \<Rightarrow> drain p1)
      | UnlinkCmd unlink \<Rightarrow>
          let p1 = await_unlink (unlink_seq unlink) t p
          in (case write_result io (UrbUnlink unlink) of None \<Rightarrow> p1 | Some _ \<Rightarrow> drain p1))"

text \<open>The arm that takes a message of the server.\<close>

definition pump_msg :: "message \<Rightarrow> pump \<Rightarrow> pump" where
  "pump_msg msg p =
     (if \<not> running p then p
      else case msg of
        UrbComplete complete \<Rightarrow>
          (case map_of (pending_urbs p) (complete_seq complete) of
             None \<Rightarrow> p
           | Some t \<Rightarrow> deliver t (Inr (UrbAnswer complete))
               (p\<lparr>pending_urbs := AList.delete (complete_seq complete) (pending_urbs p)\<rparr>))
      | UrbUnlinked unlinked \<Rightarrow>
          (case map_of (pending_unlinks p) (unlinked_seq unlinked) of
             None \<Rightarrow> p
           | Some t \<Rightarrow> deliver t (Inr (StatusAnswer (unlinked_status unlinked)))
               (p\<lparr>pending_unlinks := AList.delete (unlinked_seq unlinked) (pending_unlinks p)\<rparr>))
      | Error _ _ \<Rightarrow> answer_front (Inr (MessageAnswer msg)) p
      | other \<Rightarrow> answer_front (Inr (MessageAnswer other)) p)"

text \<open>The loop, one \<open>select!\<close> at a time: a command, a message, a read error, or the last handle of
  the client dropped. \<open>reconnect\<close> aborts the pump, which drops everything it holds, and starts
  another one on the new connection.\<close>

datatype pump_event =
    Command client_cmd nat "io_error option"
  | Incoming message
  | ReadFailed
  | HandlesDropped
  | Reconnected

definition reconnect :: "pump \<Rightarrow> pump" where
  "reconnect p = (if running p then drain p else p)\<lparr>running := True\<rparr>"

fun pump_step :: "pump_event \<Rightarrow> pump \<Rightarrow> pump" where
  "pump_step (Command cmd t io) p = pump_cmd io cmd t p"
| "pump_step (Incoming msg) p = pump_msg msg p"
| "pump_step ReadFailed p = (if running p then drain p else p)"
| "pump_step HandlesDropped p = (if running p then drain p else p)"
| "pump_step Reconnected p = reconnect p"

definition pump_run :: "pump_event list \<Rightarrow> pump" where
  "pump_run evs = fold pump_step evs pump_new"

section \<open>Client operations\<close>

abbreviation LEASE_DENIED :: i32 where "LEASE_DENIED \<equiv> - 13"

record farbus_client =
  client_identity :: identity
  auth_token :: "bytes option"
  server_addr :: socket_addr
  expected :: fingerprint

text \<open>
  \<open>send_cmd\<close> followed by waiting for the reply: \<open>ask\<close> stands for the pump and the peer behind
  it, and returns what is delivered to the ticket.
\<close>

type_synonym asker = "client_cmd \<Rightarrow> client_error + answer"

definition with_auth_token :: "bytes \<Rightarrow> farbus_client \<Rightarrow> farbus_client" where
  "with_auth_token token c = c\<lparr>auth_token := Some token\<rparr>"

abbreviation identity_secret :: "farbus_client \<Rightarrow> bytes" where
  "identity_secret c \<equiv> id_secret (client_identity c)"

definition client_hello :: "asker \<Rightarrow> farbus_client \<Rightarrow> client_error + unit" where
  "client_hello ask c =
     (case ask (ControlCmd (Hello \<lparr>protocol_min = VERSION, protocol_max = VERSION,
                hello_fingerprint = id_fingerprint (client_identity c), hello_hostname = ''farbus-client''\<rparr>)) of
        Inl e \<Rightarrow> Inl e
      | Inr (MessageAnswer (Hello _)) \<Rightarrow> Inr ()
      | Inr _ \<Rightarrow> Inl Unexpected)"

definition client_pair ::
    "(bytes \<Rightarrow> bytes) \<Rightarrow> asker \<Rightarrow> string \<Rightarrow> fingerprint \<Rightarrow> farbus_client \<Rightarrow> (client_error + unit) \<times> farbus_client" where
  "client_pair sha256 ask pin server c =
     (case ask (ControlCmd (PairRequest \<lparr>client_fingerprint = id_fingerprint (client_identity c),
                pin_hash = hash_pin sha256 pin server, client_name = ''farbus-client''\<rparr>)) of
        Inl e \<Rightarrow> (Inl e, c)
      | Inr (MessageAnswer (PairResponse r)) \<Rightarrow>
          if pair_success r then (Inr (), c\<lparr>auth_token := Some (pair_auth_token r)\<rparr>) else (Inl PairRejected, c)
      | Inr _ \<Rightarrow> (Inl Unexpected, c))"

definition client_devices :: "asker \<Rightarrow> farbus_client \<Rightarrow> client_error + device_info list" where
  "client_devices ask c =
     bind_res (ok_or PairRejected (auth_token c)) (\<lambda>token.
       case ask (ControlCmd (DeviceListRequest token)) of
         Inl e \<Rightarrow> Inl e
       | Inr (MessageAnswer (DeviceList l)) \<Rightarrow> Inr l
       | Inr (MessageAnswer (Error _ _)) \<Rightarrow> Inl AttachRejected
       | Inr _ \<Rightarrow> Inl Unexpected)"

definition client_attach :: "asker \<Rightarrow> device_id \<Rightarrow> farbus_client \<Rightarrow> client_error + attach_response" where
  "client_attach ask did c =
     bind_res (ok_or PairRejected (auth_token c)) (\<lambda>token.
       case ask (ControlCmd (AttachRequest \<lparr>attach_device_id = did, attach_auth_token = token\<rparr>)) of
         Inl e \<Rightarrow> Inl e
       | Inr (MessageAnswer (AttachResponse res)) \<Rightarrow> if attach_success res then Inr res else Inl AttachRejected
       | Inr (MessageAnswer (Error _ _)) \<Rightarrow> Inl AttachRejected
       | Inr _ \<Rightarrow> Inl Unexpected)"

definition client_detach :: "asker \<Rightarrow> device_id \<Rightarrow> farbus_client \<Rightarrow> client_error + unit" where
  "client_detach ask did c =
     bind_res (ok_or PairRejected (auth_token c)) (\<lambda>token.
       case ask (ControlCmd (DetachRequest \<lparr>detach_device_id = did, detach_auth_token = token\<rparr>)) of
         Inl e \<Rightarrow> Inl e
       | Inr (MessageAnswer (Detach _)) \<Rightarrow> Inr ()
       | Inr _ \<Rightarrow> Inl Unexpected)"

text \<open>The tickets of URB and unlink commands only ever receive an answer of their own kind, so the
  last branches of the next two stand for no case of the source.\<close>

definition client_unlink :: "asker \<Rightarrow> device_id \<Rightarrow> u32 \<Rightarrow> client_error + i32" where
  "client_unlink ask did seq =
     (case ask (UnlinkCmd \<lparr>unlink_seq = seq, unlink_device_id = did\<rparr>) of
        Inl e \<Rightarrow> Inl e
      | Inr (StatusAnswer status) \<Rightarrow> if status = LEASE_DENIED then Inl AttachRejected else Inr status
      | Inr _ \<Rightarrow> Inl Unexpected)"

definition urb_with_length ::
    "asker \<Rightarrow> device_id \<Rightarrow> u32 \<Rightarrow> u8 \<Rightarrow> transfer_type \<Rightarrow> u32 \<Rightarrow> bytes \<Rightarrow> client_error + urb_complete" where
  "urb_with_length ask did seq ep tr len dat =
     (case ask (UrbCmd \<lparr>submit_seq = seq, submit_device_id = did, endpoint = ep, transfer = tr,
                requested_length = len, submit_data = dat\<rparr>) of
        Inl e \<Rightarrow> Inl e
      | Inr (UrbAnswer complete) \<Rightarrow>
          if complete_status complete = LEASE_DENIED then Inl AttachRejected else Inr complete
      | Inr _ \<Rightarrow> Inl Unexpected)"

definition client_urb ::
    "asker \<Rightarrow> device_id \<Rightarrow> u32 \<Rightarrow> u8 \<Rightarrow> transfer_type \<Rightarrow> bytes \<Rightarrow> client_error + urb_complete" where
  "client_urb ask did seq ep tr dat =
     urb_with_length ask did seq ep tr (case try_u32 (length dat) of Some n \<Rightarrow> n | None \<Rightarrow> - 1) dat"

section \<open>Conservation of tickets\<close>

definition pending :: "pump \<Rightarrow> nat list" where
  "pending p = control_replies p @ map snd (pending_urbs p) @ map snd (pending_unlinks p)"

fun issued :: "pump_event list \<Rightarrow> nat list" where
  "issued [] = []"
| "issued (Command _ t _ # evs) = t # issued evs"
| "issued (_ # evs) = issued evs"

definition pump_wf :: "pump \<Rightarrow> bool" where
  "pump_wf p \<longleftrightarrow> distinct (map fst (pending_urbs p)) \<and> distinct (map fst (pending_unlinks p)) \<and>
     (\<not> running p \<longrightarrow> pending p = [])"

definition tickets :: "pump \<Rightarrow> nat multiset" where
  "tickets p = mset (map fst (delivered p)) + mset (pending p)"

lemma update_mset:
  "distinct (map fst m) \<Longrightarrow>
     mset (map fst (case map_of m k of None \<Rightarrow> [] | Some old \<Rightarrow> [(old, r)])) + mset (map snd (AList.update k v m)) =
     add_mset v (mset (map snd m))"
proof (induction m)
  case (Cons a m)
  obtain k' v' where a: "a = (k', v')" by (cases a)
  show ?case
  proof (cases "k = k'")
    case False
    with Cons show ?thesis by (simp add: a)
  qed (simp add: a)
qed simp

lemma delete_mset:
  "distinct (map fst m) \<Longrightarrow> map_of m k = Some v \<Longrightarrow>
     add_mset v (mset (map snd (AList.delete k m))) = mset (map snd m)"
proof (induction m)
  case (Cons a m)
  obtain k' v' where a: "a = (k', v')" by (cases a)
  show ?case
  proof (cases "k = k'")
    case True
    with Cons.prems have "AList.delete k m = m" by (intro delete_id) (auto simp: a)
    with True Cons.prems show ?thesis by (simp add: a)
  next
    case False
    with Cons show ?thesis by (auto simp: a)
  qed
qed simp

lemma drain_tickets: "tickets (drain p) = tickets p" "pending (drain p) = []" "pump_wf (drain p)"
  by (simp_all add: tickets_def drain_def pending_def pump_wf_def comp_def)

lemma deliver_simps [simp]:
  "pending (deliver t r p) = pending p" "running (deliver t r p) = running p"
  "pending_urbs (deliver t r p) = pending_urbs p" "pending_unlinks (deliver t r p) = pending_unlinks p"
  "control_replies (deliver t r p) = control_replies p" "delivered (deliver t r p) = delivered p @ [(t, r)]"
  "tickets (deliver t r p) = add_mset t (tickets p)" "pump_wf (deliver t r p) = pump_wf p"
  by (simp_all add: deliver_def pending_def tickets_def pump_wf_def)

lemma await_urb_tickets:
  "pump_wf p \<Longrightarrow> running p \<Longrightarrow> tickets (await_urb seq t p) = add_mset t (tickets p) \<and> pump_wf (await_urb seq t p)"
  using update_mset [of "pending_urbs p" "Inl Closed :: client_error + answer" seq t]
  by (simp add: await_urb_def tickets_def pending_def replace_pending_def pump_wf_def distinct_update ac_simps)

lemma await_unlink_tickets:
  "pump_wf p \<Longrightarrow> running p \<Longrightarrow> tickets (await_unlink seq t p) = add_mset t (tickets p) \<and> pump_wf (await_unlink seq t p)"
  using update_mset [of "pending_unlinks p" "Inl Closed :: client_error + answer" seq t]
  by (simp add: await_unlink_def tickets_def pending_def replace_pending_def pump_wf_def distinct_update ac_simps)

lemma answer_front_tickets:
  "pump_wf p \<Longrightarrow> running p \<Longrightarrow> tickets (answer_front r p) = tickets p \<and> pump_wf (answer_front r p)"
  by (auto simp: answer_front_def tickets_def pending_def pump_wf_def split: list.splits)

lemma push_control_tickets:
  "pump_wf p \<Longrightarrow> running p \<Longrightarrow>
     tickets (p\<lparr>control_replies := control_replies p @ [t]\<rparr>) = add_mset t (tickets p) \<and>
     pump_wf (p\<lparr>control_replies := control_replies p @ [t]\<rparr>)"
  by (simp add: tickets_def pending_def pump_wf_def)

lemma pump_cmd_tickets:
  assumes "pump_wf p"
  shows "tickets (pump_cmd io cmd t p) = add_mset t (tickets p) \<and> pump_wf (pump_cmd io cmd t p)"
proof (cases "running p")
  case True
  let ?q = "p\<lparr>control_replies := control_replies p @ [t]\<rparr>"
  have q: "pump_wf ?q" "running ?q" "tickets ?q = add_mset t (tickets p)"
    using push_control_tickets [OF assms True, of t] True by simp_all
  show ?thesis
    using True q answer_front_tickets [OF q(1,2)] await_urb_tickets [OF assms True] await_unlink_tickets [OF assms True]
    by (simp add: pump_cmd_def Let_def drain_tickets split: client_cmd.splits option.splits)
qed (simp add: pump_cmd_def assms)

lemma delete_urb_tickets:
  "pump_wf p \<Longrightarrow> running p \<Longrightarrow> map_of (pending_urbs p) seq = Some t \<Longrightarrow>
     add_mset t (tickets (p\<lparr>pending_urbs := AList.delete seq (pending_urbs p)\<rparr>)) = tickets p \<and>
     pump_wf (p\<lparr>pending_urbs := AList.delete seq (pending_urbs p)\<rparr>)"
  using delete_mset [of "pending_urbs p" seq t]
  by (simp add: tickets_def pending_def pump_wf_def AList.distinct_delete)

lemma delete_unlink_tickets:
  "pump_wf p \<Longrightarrow> running p \<Longrightarrow> map_of (pending_unlinks p) seq = Some t \<Longrightarrow>
     add_mset t (tickets (p\<lparr>pending_unlinks := AList.delete seq (pending_unlinks p)\<rparr>)) = tickets p \<and>
     pump_wf (p\<lparr>pending_unlinks := AList.delete seq (pending_unlinks p)\<rparr>)"
  using delete_mset [of "pending_unlinks p" seq t]
  by (simp add: tickets_def pending_def pump_wf_def AList.distinct_delete flip: union_mset_add_mset_right)

lemma pump_msg_tickets:
  assumes "pump_wf p"
  shows "tickets (pump_msg m p) = tickets p \<and> pump_wf (pump_msg m p)"
  using assms answer_front_tickets [OF assms] delete_urb_tickets [OF assms] delete_unlink_tickets [OF assms]
  by (cases "running p"; cases m) (simp_all add: pump_msg_def split: option.splits)

lemma reconnect_tickets: "pump_wf p \<Longrightarrow> tickets (reconnect p) = tickets p \<and> pump_wf (reconnect p)"
proof -
  have r: "tickets (q\<lparr>running := True\<rparr>) = tickets q" "pump_wf q \<Longrightarrow> pump_wf (q\<lparr>running := True\<rparr>)" for q
    by (simp_all add: tickets_def pending_def pump_wf_def)
  show "pump_wf p \<Longrightarrow> tickets (reconnect p) = tickets p \<and> pump_wf (reconnect p)"
    by (simp add: reconnect_def r drain_tickets)
qed

lemma pump_step_tickets:
  "pump_wf p \<Longrightarrow> tickets (pump_step ev p) = mset (issued [ev]) + tickets p \<and> pump_wf (pump_step ev p)"
  by (cases ev) (auto simp: pump_cmd_tickets pump_msg_tickets drain_tickets reconnect_tickets)

lemma issued_Cons: "mset (issued (ev # evs)) = mset (issued [ev]) + mset (issued evs)"
  by (cases ev) auto

lemma pump_fold_tickets:
  "pump_wf p \<Longrightarrow> tickets (fold pump_step evs p) = mset (issued evs) + tickets p \<and> pump_wf (fold pump_step evs p)"
proof (induction evs arbitrary: p)
  case (Cons ev evs)
  then show ?case using pump_step_tickets [OF Cons.prems, of ev] by (auto simp: issued_Cons [of ev evs] ac_simps)
qed simp

lemma pump_run_tickets: "tickets (pump_run evs) = mset (issued evs)" "pump_wf (pump_run evs)"
  using pump_fold_tickets [of pump_new evs]
  by (auto simp: pump_run_def pump_new_def tickets_def pending_def pump_wf_def)

section \<open>Who gets which answer\<close>

text \<open>The command each ticket was issued with.\<close>

fun commands :: "pump_event list \<Rightarrow> (nat \<times> client_cmd) list" where
  "commands [] = []"
| "commands (Command cmd t _ # evs) = (t, cmd) # commands evs"
| "commands (_ # evs) = commands evs"

text \<open>An answer fits a command when it is of the kind and has the sequence number asked for.\<close>

fun fits :: "client_cmd \<Rightarrow> client_error + answer \<Rightarrow> bool" where
  "fits cmd (Inl _) = True"
| "fits (ControlCmd _) (Inr (MessageAnswer m)) = ((\<forall>c. m \<noteq> UrbComplete c) \<and> (\<forall>u. m \<noteq> UrbUnlinked u))"
| "fits (UrbCmd u) (Inr (UrbAnswer c)) = (complete_seq c = submit_seq u)"
| "fits (UnlinkCmd u) (Inr (StatusAnswer _)) = True"
| "fits _ _ = False"

definition correlated :: "(nat \<times> client_cmd) set \<Rightarrow> pump \<Rightarrow> bool" where
  "correlated K p \<longleftrightarrow>
     (\<forall>(t, r) \<in> set (delivered p). \<exists>cmd. (t, cmd) \<in> K \<and> fits cmd r) \<and>
     (\<forall>(seq, t) \<in> set (pending_urbs p). \<exists>u. (t, UrbCmd u) \<in> K \<and> submit_seq u = seq) \<and>
     (\<forall>(seq, t) \<in> set (pending_unlinks p). \<exists>u. (t, UnlinkCmd u) \<in> K \<and> unlink_seq u = seq) \<and>
     (\<forall>t \<in> set (control_replies p). \<exists>m. (t, ControlCmd m) \<in> K)"

lemma correlated_mono: "correlated K p \<Longrightarrow> K \<subseteq> K' \<Longrightarrow> correlated K' p"
  unfolding correlated_def by (fastforce split: prod.splits)

lemma correlated_drain: "correlated K p \<Longrightarrow> correlated K (drain p)"
  unfolding correlated_def drain_def by (auto; fastforce)

lemma correlated_deliver:
  "correlated K p \<Longrightarrow> (t, cmd) \<in> K \<Longrightarrow> fits cmd r \<Longrightarrow> correlated K (deliver t r p)"
  unfolding correlated_def by auto

lemma set_update_subset: "set (AList.update k v m) \<subseteq> insert (k, v) (set m)"
  by (induction m) auto

lemma set_delete_subset: "set (AList.delete k m) \<subseteq> set m"
  by (induction m) auto

lemma correlated_await_urb:
  assumes "correlated K p" "(t, UrbCmd u) \<in> K"
  shows "correlated K (await_urb (submit_seq u) t p)"
proof -
  have "\<forall>(seq, t) \<in> set (pending_urbs p). \<exists>u. (t, UrbCmd u) \<in> K \<and> submit_seq u = seq"
    using assms(1) unfolding correlated_def by blast
  then have w: "\<exists>v. (t', UrbCmd v) \<in> K \<and> submit_seq v = seq" if "(seq, t') \<in> set (pending_urbs p)" for seq t'
    using that by blast
  have "\<exists>v. (t', UrbCmd v) \<in> K \<and> submit_seq v = seq" if "(seq, t') \<in> set (AList.update (submit_seq u) t (pending_urbs p))" for seq t'
    using set_update_subset [of "submit_seq u" t "pending_urbs p"] that w assms(2) by blast
  moreover have "\<exists>cmd. (old, cmd) \<in> K" if "map_of (pending_urbs p) (submit_seq u) = Some old" for old
    using w map_of_SomeD [OF that] by blast
  ultimately show ?thesis
    using assms(1) unfolding correlated_def await_urb_def replace_pending_def by (auto split: option.splits)
qed

lemma correlated_await_unlink:
  assumes "correlated K p" "(t, UnlinkCmd u) \<in> K"
  shows "correlated K (await_unlink (unlink_seq u) t p)"
proof -
  have "\<forall>(seq, t) \<in> set (pending_unlinks p). \<exists>u. (t, UnlinkCmd u) \<in> K \<and> unlink_seq u = seq"
    using assms(1) unfolding correlated_def by blast
  then have w: "\<exists>v. (t', UnlinkCmd v) \<in> K \<and> unlink_seq v = seq" if "(seq, t') \<in> set (pending_unlinks p)" for seq t'
    using that by blast
  have "\<exists>v. (t', UnlinkCmd v) \<in> K \<and> unlink_seq v = seq" if "(seq, t') \<in> set (AList.update (unlink_seq u) t (pending_unlinks p))" for seq t'
    using set_update_subset [of "unlink_seq u" t "pending_unlinks p"] that w assms(2) by blast
  moreover have "\<exists>cmd. (old, cmd) \<in> K" if "map_of (pending_unlinks p) (unlink_seq u) = Some old" for old
    using w map_of_SomeD [OF that] by blast
  ultimately show ?thesis
    using assms(1) unfolding correlated_def await_unlink_def replace_pending_def by (auto split: option.splits)
qed

lemma correlated_answer_front:
  assumes "correlated K p" "\<And>m. fits (ControlCmd m) r"
  shows "correlated K (answer_front r p)"
  using assms unfolding correlated_def answer_front_def by (auto split: list.splits; fastforce)

lemma correlated_push: "correlated K p \<Longrightarrow> (t, ControlCmd m) \<in> K \<Longrightarrow> correlated K (p\<lparr>control_replies := control_replies p @ [t]\<rparr>)"
  unfolding correlated_def by auto

lemma correlated_cmd:
  assumes "correlated K p" "(t, cmd) \<in> K"
  shows "correlated K (pump_cmd io cmd t p)"
proof (cases "running p")
  case False
  then show ?thesis using assms by (simp add: pump_cmd_def correlated_deliver [OF assms])
next
  case True
  then show ?thesis
    using assms
    by (cases cmd) (auto simp: pump_cmd_def Let_def intro!: correlated_drain correlated_push correlated_answer_front
        correlated_await_urb correlated_await_unlink split: option.splits)
qed

lemma correlated_delete_urb:
  assumes "correlated K p" "map_of (pending_urbs p) seq = Some t"
  shows "\<exists>u. (t, UrbCmd u) \<in> K \<and> submit_seq u = seq"
    "correlated K (p\<lparr>pending_urbs := AList.delete seq (pending_urbs p)\<rparr>)"
  using assms set_delete_subset [of seq "pending_urbs p"] map_of_SomeD [OF assms(2)]
  unfolding correlated_def by (fastforce, auto)

lemma correlated_delete_unlink:
  assumes "correlated K p" "map_of (pending_unlinks p) seq = Some t"
  shows "\<exists>u. (t, UnlinkCmd u) \<in> K"
    "correlated K (p\<lparr>pending_unlinks := AList.delete seq (pending_unlinks p)\<rparr>)"
  using assms set_delete_subset [of seq "pending_unlinks p"] map_of_SomeD [OF assms(2)]
  unfolding correlated_def by (fastforce, auto)

lemma correlated_msg:
  assumes "correlated K p"
  shows "correlated K (pump_msg m p)"
proof (cases m)
  case (UrbComplete c)
  have "correlated K (deliver t (Inr (UrbAnswer c)) (p\<lparr>pending_urbs := AList.delete (complete_seq c) (pending_urbs p)\<rparr>))"
    if "map_of (pending_urbs p) (complete_seq c) = Some t" for t
    using correlated_delete_urb [OF assms that] by (auto intro: correlated_deliver)
  then show ?thesis using assms by (auto simp: pump_msg_def UrbComplete split: option.splits)
next
  case (UrbUnlinked u)
  have "correlated K (deliver t (Inr (StatusAnswer (unlinked_status u)))
      (p\<lparr>pending_unlinks := AList.delete (unlinked_seq u) (pending_unlinks p)\<rparr>))"
    if "map_of (pending_unlinks p) (unlinked_seq u) = Some t" for t
    using correlated_delete_unlink [OF assms that] by (auto intro: correlated_deliver)
  then show ?thesis using assms by (auto simp: pump_msg_def UrbUnlinked split: option.splits)
qed (simp_all add: pump_msg_def assms correlated_answer_front)

lemma commands_append: "commands (evs @ evs') = commands evs @ commands evs'"
  by (induction evs rule: commands.induct) auto

lemma correlated_run: "correlated (set (commands evs)) (pump_run evs)"
proof (induction evs rule: rev_induct)
  case Nil
  show ?case by (simp add: pump_run_def pump_new_def correlated_def)
next
  case (snoc ev evs)
  let ?K = "set (commands (evs @ [ev]))"
  from snoc have I: "correlated ?K (pump_run evs)"
    by (rule correlated_mono) (simp add: commands_append)
  have "correlated ?K (q\<lparr>running := True\<rparr>) = correlated ?K q" for q
    by (simp add: correlated_def)
  with I have "correlated ?K (pump_step ev (pump_run evs))"
    by (cases ev) (simp_all add: correlated_cmd correlated_msg correlated_drain reconnect_def commands_append)
  then show ?case by (simp add: pump_run_def)
qed

subsection \<open>Order of control replies\<close>

text \<open>The tickets of control commands, in the order they were issued, and those answered with a
  message, in the order of the answers.\<close>

fun control_tickets :: "pump_event list \<Rightarrow> nat list" where
  "control_tickets [] = []"
| "control_tickets (Command (ControlCmd _) t _ # evs) = t # control_tickets evs"
| "control_tickets (_ # evs) = control_tickets evs"

fun message_answers :: "(nat \<times> (client_error + answer)) list \<Rightarrow> nat list" where
  "message_answers [] = []"
| "message_answers ((t, Inr (MessageAnswer _)) # ds) = t # message_answers ds"
| "message_answers (_ # ds) = message_answers ds"

lemma control_tickets_append: "control_tickets (evs @ evs') = control_tickets evs @ control_tickets evs'"
  by (induction evs rule: control_tickets.induct) auto

lemma message_answers_append [simp]: "message_answers (ds @ ds') = message_answers ds @ message_answers ds'"
  by (induction ds rule: message_answers.induct) auto

definition served :: "pump \<Rightarrow> nat list" where
  "served p = message_answers (delivered p) @ control_replies p"

lemma drain_stops: "\<not> running (drain p)"
  by (simp add: drain_def)

lemma served_await: "served (await_urb seq t p) = served p" "served (await_unlink seq t p) = served p"
  "running (await_urb seq t p) = running p" "running (await_unlink seq t p) = running p"
  by (auto simp: served_def await_urb_def await_unlink_def replace_pending_def split: option.splits)

lemma served_step:
  assumes "running p" "running (pump_step ev p)" "ev \<noteq> Reconnected"
  shows "served (pump_step ev p) = served p @ control_tickets [ev]"
proof (cases ev)
  case (Command cmd t io)
  then show ?thesis
    using assms
    by (cases cmd) (auto simp: pump_cmd_def Let_def drain_stops served_await split: option.splits,
        auto simp: served_def)
next
  case (Incoming m)
  then show ?thesis
    using assms by (cases m) (auto simp: pump_msg_def served_def answer_front_def split: option.splits list.splits)
qed (use assms in \<open>simp_all add: drain_stops\<close>)

lemma stopped_stays: "\<not> running p \<Longrightarrow> ev \<noteq> Reconnected \<Longrightarrow> \<not> running (pump_step ev p)"
  by (cases ev) (auto simp: pump_cmd_def pump_msg_def)

lemma served_run:
  "Reconnected \<notin> set evs \<Longrightarrow> running (pump_run evs) \<Longrightarrow> served (pump_run evs) = control_tickets evs"
proof (induction evs rule: rev_induct)
  case Nil
  show ?case by (simp add: pump_run_def pump_new_def served_def)
next
  case (snoc ev evs)
  then have e: "ev \<noteq> Reconnected" "Reconnected \<notin> set evs" and r: "running (pump_step ev (pump_run evs))"
    by (auto simp: pump_run_def)
  then have "running (pump_run evs)" using stopped_stays by blast
  with snoc.IH e r show ?case
    using served_step [of "pump_run evs" ev] by (simp add: pump_run_def control_tickets_append)
qed

section \<open>Properties\<close>

text \<open>
  C24. No request of a client is lost and none is answered twice: after any sequence of commands,
  incoming messages, failures and reconnects the tickets issued are, with multiplicity, those
  answered and those still waiting; and a pump that has stopped keeps nobody waiting.
\<close>

theorem pump_answers_once:
  "mset (issued evs) = mset (map fst (delivered (pump_run evs))) + mset (pending (pump_run evs)) \<and>
   (running (pump_run evs) \<or> pending (pump_run evs) = [])"
  using pump_run_tickets [of evs] by (auto simp: tickets_def pump_wf_def)

text \<open>
  Every answer goes to someone who asked for it: what a ticket receives, unless it is an error, is a
  completion with the sequence number of the URB it was issued for, the status of an unlink for an
  unlink, or a control message for a control command.
\<close>

lemma pump_answers_fit:
  assumes "(t, r) \<in> set (delivered (pump_run evs))"
  shows "\<exists>cmd. (t, cmd) \<in> set (commands evs) \<and> fits cmd r"
  using correlated_run [of evs] assms unfolding correlated_def by blast

definition sample_events :: "pump_event list" where
  "sample_events = [Command (UnlinkCmd \<lparr>unlink_seq = 4, unlink_device_id = 1\<rparr>) 0 None,
     Command (UnlinkCmd \<lparr>unlink_seq = 5, unlink_device_id = 1\<rparr>) 1 None,
     Incoming (UrbUnlinked \<lparr>unlinked_seq = 5, unlinked_status = 0\<rparr>)]"

lemma write_unlink: "write_result None (UrbUnlink u) = None"
  by (simp add: write_result_def write_message_def encode_def try_u32_def)

lemma sample_delivered: "delivered (pump_run sample_events) = [(1, Inr (StatusAnswer 0))]"
  by (simp add: pump_run_def sample_events_def pump_new_def pump_cmd_def pump_msg_def write_unlink
      await_unlink_def replace_pending_def)

lemma pump_answers_fit_example:
  "\<exists>cmd. (1, cmd) \<in> set (commands sample_events) \<and> fits cmd (Inr (StatusAnswer 0))"
  by (rule pump_answers_fit) (simp add: sample_delivered)

text \<open>
  Control replies are in order: on a connection that is still up, the k-th control message of the
  server answers the k-th control command of the client.
\<close>

lemma control_replies_in_order:
  assumes "Reconnected \<notin> set evs" "running (pump_run evs)"
  shows "message_answers (delivered (pump_run evs)) @ control_replies (pump_run evs) = control_tickets evs"
  using served_run [OF assms] by (simp add: served_def)

definition sample_controls :: "pump_event list" where
  "sample_controls = [Command (ControlCmd (Detach 1)) 0 None, Command (ControlCmd (Detach 2)) 1 None, Incoming (Detach 1)]"

lemma write_detach: "write_result None (Detach d) = None"
  by (simp add: write_result_def write_message_def encode_def try_u32_def)

lemma control_replies_in_order_example:
  "message_answers (delivered (pump_run sample_controls)) @ control_replies (pump_run sample_controls) = [0, 1] \<and>
   control_replies (pump_run sample_controls) = [1]"
proof -
  have r: "running (pump_run sample_controls)" "control_replies (pump_run sample_controls) = [1]"
    by (simp_all add: pump_run_def sample_controls_def pump_new_def pump_cmd_def pump_msg_def write_detach
        answer_front_def)
  have "Reconnected \<notin> set sample_controls" by (simp add: sample_controls_def)
  from control_replies_in_order [OF this r(1)] r(2) show ?thesis by (simp add: sample_controls_def)
qed

text \<open>
  When a control message cannot be written, the error goes to the oldest waiting request and not to
  the one that failed: ticket 0 waits for a reply, ticket 1 fails to be sent, and 0 is told so.
\<close>

lemma write_error_misdirected:
  "delivered (pump_run [Command (ControlCmd (Detach 1)) 0 None, Command (ControlCmd (Detach 2)) 1 (Some (OtherIo e))]) =
     [(0, Inl (FrameFailed (Io (OtherIo e)))), (1, Inl Closed)]"
proof -
  have "write_result (Some (OtherIo e)) (Detach 2) = Some (Io (OtherIo e))"
    by (simp add: write_result_def write_message_def encode_def try_u32_def)
  then show ?thesis
    by (simp add: pump_run_def pump_new_def pump_cmd_def write_detach answer_front_def deliver_def drain_def)
qed

end
