(* ===== verification/Client_Calls.thy ===== *)
theory Client_Calls
  imports Client
begin

text \<open>
  The calls of a \<open>FarBusClient\<close> over a network, with their history.

  What the network does is a parameter: \<open>dial\<close> is the outcome of opening a TLS session to the
  pinned server, \<open>answers\<close> what a command is answered and \<open>drawn\<close> what the random generator
  returns, all as functions of everything the task has done before, so that a theorem over every \<open>network\<close> covers every behaviour of the server, the
  transport and the other tasks that use the same client. The functions return the history of the
  task extended by what they did.
\<close>

section \<open>Calls of the client with their history\<close>

datatype client_event =
    Dialled
  | Asked client_cmd
  | Slept nat

type_synonym history = "client_event list"

record network =
  dial :: "history \<Rightarrow> socket_addr \<Rightarrow> fingerprint \<Rightarrow> client_error + unit"
  answers :: "history \<Rightarrow> asker"
  drawn :: "history \<Rightarrow> bytes"

definition attach_cmd :: "device_id \<Rightarrow> bytes \<Rightarrow> client_cmd" where
  "attach_cmd did token = ControlCmd (AttachRequest \<lparr>attach_device_id = did, attach_auth_token = token\<rparr>)"

definition hello_cmd :: "farbus_client \<Rightarrow> client_cmd" where
  "hello_cmd c = ControlCmd (Hello \<lparr>protocol_min = VERSION, protocol_max = VERSION,
     hello_fingerprint = id_fingerprint (client_identity c), hello_hostname = ''farbus-client''\<rparr>)"

text \<open>The operations that need a token send nothing without one.\<close>

definition asked :: "farbus_client \<Rightarrow> (bytes \<Rightarrow> client_cmd) \<Rightarrow> history" where
  "asked c cmd = (case auth_token c of None \<Rightarrow> [] | Some token \<Rightarrow> [Asked (cmd token)])"

definition fw_devices :: "network \<Rightarrow> farbus_client \<Rightarrow> history \<Rightarrow> (client_error + device_info list) \<times> history" where
  "fw_devices net c h = (client_devices (answers net h) c, h @ asked c (\<lambda>token. ControlCmd (DeviceListRequest token)))"

definition fw_attach ::
    "network \<Rightarrow> farbus_client \<Rightarrow> device_id \<Rightarrow> history \<Rightarrow> (client_error + attach_response) \<times> history" where
  "fw_attach net c did h = (client_attach (answers net h) did c, h @ asked c (attach_cmd did))"

definition fw_detach :: "network \<Rightarrow> farbus_client \<Rightarrow> device_id \<Rightarrow> history \<Rightarrow> (client_error + unit) \<times> history" where
  "fw_detach net c did h =
     (client_detach (answers net h) did c,
      h @ asked c (\<lambda>token. ControlCmd (DetachRequest \<lparr>detach_device_id = did, detach_auth_token = token\<rparr>)))"

definition fw_reconnect :: "network \<Rightarrow> farbus_client \<Rightarrow> history \<Rightarrow> (client_error + unit) \<times> history" where
  "fw_reconnect net c h =
     (case dial net h (server_addr c) (expected c) of
        Inl e \<Rightarrow> (Inl e, h @ [Dialled])
      | Inr _ \<Rightarrow> (client_hello (answers net (h @ [Dialled])) c, h @ [Dialled, Asked (hello_cmd c)]))"

definition fw_urb :: "network \<Rightarrow> urb_submit \<Rightarrow> history \<Rightarrow> (client_error + urb_complete) \<times> history" where
  "fw_urb net u h =
     (urb_with_length (answers net h) (submit_device_id u) (submit_seq u) (endpoint u) (transfer u)
        (requested_length u) (submit_data u),
      h @ [Asked (UrbCmd u)])"

definition fw_unlink :: "network \<Rightarrow> device_id \<Rightarrow> u32 \<Rightarrow> history \<Rightarrow> (client_error + i32) \<times> history" where
  "fw_unlink net did seq h =
     (client_unlink (answers net h) did seq, h @ [Asked (UnlinkCmd \<lparr>unlink_seq = seq, unlink_device_id = did\<rparr>)])"

text \<open>\<open>from_stream\<close> starts a pump, which is \<open>pump_new\<close> of theory \<open>Client\<close>, and builds the handle.\<close>

abbreviation from_stream :: "identity \<Rightarrow> bytes option \<Rightarrow> socket_addr \<Rightarrow> fingerprint \<Rightarrow> farbus_client" where
  "from_stream ident token a fp \<equiv>
     \<lparr>client_identity = ident, auth_token = token, server_addr = a, expected = fp\<rparr>"

text \<open>\<open>connect_with_identity\<close> and \<open>connect\<close>; the latter draws a new identity.\<close>

definition connect_with_identity ::
    "network \<Rightarrow> socket_addr \<Rightarrow> fingerprint \<Rightarrow> identity \<Rightarrow> history \<Rightarrow> (client_error + farbus_client) \<times> history" where
  "connect_with_identity net a fp ident h =
     (case dial net h a fp of
        Inl e \<Rightarrow> (Inl e, h @ [Dialled])
      | Inr _ \<Rightarrow>
          let c = from_stream ident None a fp
          in (bind_res (client_hello (answers net (h @ [Dialled])) c) (\<lambda>_. Inr c),
              h @ [Dialled, Asked (hello_cmd c)]))"

definition client_connect ::
    "(bytes \<Rightarrow> bytes) \<Rightarrow> network \<Rightarrow> socket_addr \<Rightarrow> fingerprint \<Rightarrow> history \<Rightarrow> (client_error + farbus_client) \<times> history" where
  "client_connect sha256 net a fp h = connect_with_identity net a fp (generate sha256 (drawn net h)) h"

section \<open>What a task does\<close>

text \<open>The three things the recovery is meant to bound.\<close>

definition submissions :: "history \<Rightarrow> nat" where
  "submissions h = length (filter (\<lambda>e. case e of Asked (UrbCmd _) \<Rightarrow> True | _ \<Rightarrow> False) h)"

definition dials :: "history \<Rightarrow> nat" where
  "dials h = length (filter (\<lambda>e. e = Dialled) h)"

definition slept :: "history \<Rightarrow> nat" where
  "slept h = sum_list (map (\<lambda>e. case e of Slept n \<Rightarrow> n | _ \<Rightarrow> 0) h)"

lemma history_counts [simp]:
  "submissions [] = 0" "submissions (Asked (UrbCmd u) # t) = Suc (submissions t)"
  "submissions (Asked (ControlCmd m) # t) = submissions t" "submissions (Dialled # t) = submissions t"
  "submissions (Slept n # t) = submissions t" "submissions (a @ b) = submissions a + submissions b"
  "dials [] = 0" "dials (Dialled # t) = Suc (dials t)" "dials (Asked q # t) = dials t" "dials (Slept n # t) = dials t"
  "dials (a @ b) = dials a + dials b"
  "slept [] = 0" "slept (Slept n # t) = n + slept t" "slept (Asked q # t) = slept t" "slept (Dialled # t) = slept t"
  "slept (a @ b) = slept a + slept b"
  by (simp_all add: submissions_def dials_def slept_def)

lemma asked_counts [simp]:
  "submissions (asked c (attach_cmd did)) = 0" "dials (asked c q) = 0" "slept (asked c q) = 0"
  by (simp_all add: asked_def attach_cmd_def split: option.splits)

lemma hello_counts [simp]: "submissions (Asked (hello_cmd c) # t) = submissions t"
  by (simp add: hello_cmd_def)

text \<open>The waiting time of \<open>n\<close> rounds whose pauses start with \<open>b\<close> milliseconds and double up to \<open>cap\<close>.\<close>

fun sleep_budget :: "nat \<Rightarrow> nat \<Rightarrow> nat \<Rightarrow> nat" where
  "sleep_budget cap 0 b = 0"
| "sleep_budget cap (Suc n) b = b + sleep_budget cap n (min (b * 2) cap)"

lemma sleep_budget_le: "sleep_budget cap n b \<le> n * max b cap"
proof (induction n arbitrary: b)
  case (Suc n)
  have "sleep_budget cap n (min (b * 2) cap) \<le> n * max (min (b * 2) cap) cap" by (rule Suc)
  also have "\<dots> \<le> n * max b cap" by (intro mult_le_mono2) simp
  finally show ?case by simp
qed simp

lemma connect_events:
  "\<exists>t. snd (connect_with_identity net a fp ident h) = h @ t \<and> dials t = 1 \<and> submissions t = 0 \<and> slept t = 0"
  by (auto simp: connect_with_identity_def Let_def split: sum.splits)

lemma connect_success:
  "connect_with_identity net a fp ident h = (Inr c, h') \<Longrightarrow>
     c = \<lparr>client_identity = ident, auth_token = None, server_addr = a, expected = fp\<rparr> \<and> dial net h a fp = Inr ()"
  by (auto simp: connect_with_identity_def Let_def split: sum.splits)

end
