(* ===== verification/Connection.thy ===== *)
theory Connection
  imports Client_Calls
begin

text \<open>
  How a client gets and keeps a connection: the life cycle of \<^verbatim>\<open>crates/farbus-core/src/state.rs\<close>, the
  retry loop of \<^verbatim>\<open>reconnect.rs\<close> and the race over the addresses of a server of \<^verbatim>\<open>happy.rs\<close>. Durations are
  milliseconds; the source's \<open>Duration\<close> would overflow only beyond \<open>2 ^ 63\<close> seconds.
\<close>

section \<open>The life cycle\<close>

datatype connection_state = Discovered | Paired | Attached | Reconnecting

datatype connection_event = Pair | Attach | DetachEvent | ConnectionLost | ReconnectSucceeded

record transition_error =
  from_state :: connection_state
  on_event :: connection_event

text \<open>\<open>ConnectionMachine::apply\<close>: the error leaves the state as it was.\<close>

definition machine_apply :: "connection_event \<Rightarrow> connection_state \<Rightarrow> (transition_error + unit) \<times> connection_state" where
  "machine_apply event state =
     (case (state, event) of
        (Discovered, Pair) \<Rightarrow> (Inr (), Paired)
      | (Attached, DetachEvent) \<Rightarrow> (Inr (), Paired)
      | (Paired, Attach) \<Rightarrow> (Inr (), Attached)
      | (Reconnecting, ReconnectSucceeded) \<Rightarrow> (Inr (), Attached)
      | (Attached, ConnectionLost) \<Rightarrow> (Inr (), Reconnecting)
      | (from, event) \<Rightarrow> (Inl \<lparr>from_state = from, on_event = event\<rparr>, state))"

text \<open>The events of a sequence that the machine accepts, and the state it ends in.\<close>

fun machine_run :: "connection_event list \<Rightarrow> connection_state \<Rightarrow> connection_event list \<times> connection_state" where
  "machine_run [] state = ([], state)"
| "machine_run (ev # evs) state =
     (case machine_apply ev state of
        (Inr _, next) \<Rightarrow> (case machine_run evs next of (acc, final) \<Rightarrow> (ev # acc, final))
      | (Inl _, same) \<Rightarrow> machine_run evs same)"

section \<open>Retries\<close>

record reconnect_policy =
  initial_ms :: nat
  max_ms :: nat
  max_attempts :: nat

definition default_policy :: reconnect_policy where
  "default_policy = \<lparr>initial_ms = 100, max_ms = 3000, max_attempts = 10\<rparr>"

fun retry_loop ::
    "(bytes \<Rightarrow> bytes) \<Rightarrow> network \<Rightarrow> socket_addr \<Rightarrow> fingerprint \<Rightarrow> bytes option \<Rightarrow> nat \<Rightarrow> nat \<Rightarrow> nat \<Rightarrow> client_error option \<Rightarrow>
     history \<Rightarrow> (client_error + farbus_client) \<times> history" where
  "retry_loop sha256 net a fp token cap 0 backoff last_err h =
     (Inl (case last_err of Some e \<Rightarrow> e | None \<Rightarrow> TlsFailed), h)"
| "retry_loop sha256 net a fp token cap (Suc n) backoff last_err h =
     (case client_connect sha256 net a fp h of
        (Inr c, h1) \<Rightarrow> (Inr (case token of Some tok \<Rightarrow> with_auth_token tok c | None \<Rightarrow> c), h1)
      | (Inl err, h1) \<Rightarrow>
          retry_loop sha256 net a fp token cap n (min (backoff * 2) cap) (Some err) (h1 @ [Slept backoff]))"

definition connect_with_retry ::
    "(bytes \<Rightarrow> bytes) \<Rightarrow> network \<Rightarrow> socket_addr \<Rightarrow> fingerprint \<Rightarrow> bytes option \<Rightarrow> reconnect_policy \<Rightarrow> history \<Rightarrow>
     (client_error + farbus_client) \<times> history" where
  "connect_with_retry sha256 net a fp token policy h =
     retry_loop sha256 net a fp token (max_ms policy) (max_attempts policy) (initial_ms policy) None h"

section \<open>Racing the addresses\<close>

text \<open>
  Every candidate is tried by a task of its own: the one at position \<open>i\<close> starts after \<open>250 * i\<close>
  milliseconds, finds the network \<open>nets i\<close> and is cut off after 1500 milliseconds if \<open>late i\<close>. A task
  that panicked is \<open>Lost\<close>. \<open>joined\<close> is the order in which the tasks end.
\<close>

datatype join_outcome =
    Connected farbus_client
  | Failed client_error
  | TimedOut
  | Lost

fun happy_join :: "client_error option \<Rightarrow> join_outcome list \<Rightarrow> client_error + farbus_client" where
  "happy_join last_err [] = Inl (case last_err of Some e \<Rightarrow> e | None \<Rightarrow> TlsFailed)"
| "happy_join last_err (Connected c # js) = Inr c"
| "happy_join last_err (Failed err # js) = happy_join (Some err) js"
| "happy_join last_err (TimedOut # js) = happy_join (Some (IoFailed (OtherIo ''connect timeout''))) js"
| "happy_join last_err (Lost # js) = happy_join last_err js"

definition candidate_outcome ::
    "(bytes \<Rightarrow> bytes) \<Rightarrow> network \<Rightarrow> bool \<Rightarrow> bool \<Rightarrow> socket_addr \<Rightarrow> fingerprint \<Rightarrow> nat \<Rightarrow> join_outcome" where
  "candidate_outcome sha256 net late panicked a fp i =
     (if panicked then Lost
      else if late then TimedOut
      else case fst (client_connect sha256 net a fp (if i = 0 then [] else [Slept (250 * i)])) of
             Inr c \<Rightarrow> Connected c
           | Inl err \<Rightarrow> Failed err)"

definition happy_eyeballs_connect ::
    "(bytes \<Rightarrow> bytes) \<Rightarrow> (nat \<Rightarrow> network) \<Rightarrow> (nat \<Rightarrow> bool) \<Rightarrow> (nat \<Rightarrow> bool) \<Rightarrow> nat list \<Rightarrow> socket_addr list \<Rightarrow> fingerprint \<Rightarrow>
     client_error + farbus_client" where
  "happy_eyeballs_connect sha256 nets late panicked joined addrs fp =
     (let ordered = connection_order addrs
      in if ordered = [] then Inl (IoFailed (OtherIo ''no server addresses''))
         else happy_join None
           (map (\<lambda>i. candidate_outcome sha256 (nets i) (late i) (panicked i) (ordered ! i) fp i) joined))"

section \<open>Lemmas\<close>

lemma machine_apply_cases:
  "machine_apply ev st = (Inr (), st') \<longleftrightarrow>
     (st, ev, st') \<in> {(Discovered, Pair, Paired), (Attached, DetachEvent, Paired), (Paired, Attach, Attached),
        (Reconnecting, ReconnectSucceeded, Attached), (Attached, ConnectionLost, Reconnecting)}"
  by (cases st; cases ev) (auto simp: machine_apply_def)

lemma machine_apply_error: "machine_apply ev st = (Inl e, st') \<Longrightarrow> st' = st \<and> e = \<lparr>from_state = st, on_event = ev\<rparr>"
  by (cases st; cases ev) (auto simp: machine_apply_def)

definition holds_device :: "connection_state \<Rightarrow> bool" where
  "holds_device st \<longleftrightarrow> st \<in> {Attached, Reconnecting}"

text \<open>The balance of the accepted events, from any state.\<close>

lemma machine_run_balance:
  "machine_run evs st = (acc, st') \<Longrightarrow>
     count_list acc Attach + of_bool (holds_device st) = count_list acc DetachEvent + of_bool (holds_device st') \<and>
     count_list acc ConnectionLost + of_bool (st = Reconnecting) =
       count_list acc ReconnectSucceeded + of_bool (st' = Reconnecting) \<and>
     count_list acc Pair + of_bool (st' = Discovered) = of_bool (st = Discovered)"
proof (induction evs arbitrary: st acc)
  case (Cons ev evs)
  show ?case
  proof (cases "machine_apply ev st")
    case (Pair r st1)
    then show ?thesis
    proof (cases r)
      case (Inr u)
      then have step: "machine_apply ev st = (Inr (), st1)" using Pair by simp
      obtain acc1 where "machine_run evs st1 = (acc1, st')" "acc = ev # acc1"
        using Cons.prems step by (auto split: prod.splits)
      then show ?thesis
        using Cons.IH [of st1 acc1] step [unfolded machine_apply_cases] by (auto simp: holds_device_def)
    next
      case (Inl e)
      with Pair machine_apply_error [of ev st e st1] Cons show ?thesis by (auto split: prod.splits)
    qed
  qed
qed simp

lemma retry_loop_events:
  "\<exists>t. snd (retry_loop sha256 net a fp token cap n b e h) = h @ t \<and> dials t \<le> n \<and> slept t \<le> sleep_budget cap n b"
proof (induction n arbitrary: b e h)
  case (Suc n)
  obtain r h1 where c: "client_connect sha256 net a fp h = (r, h1)" by (cases "client_connect sha256 net a fp h")
  then obtain t1 where t1: "h1 = h @ t1" "dials t1 = 1" "slept t1 = 0"
    using connect_events [of net a fp "generate sha256 (drawn net h)" h] unfolding client_connect_def by auto
  show ?case
  proof (cases r)
    case (Inl err)
    obtain t2 where "snd (retry_loop sha256 net a fp token cap n (min (b * 2) cap) (Some err) (h1 @ [Slept b])) =
        h1 @ [Slept b] @ t2" "dials t2 \<le> n" "slept t2 \<le> sleep_budget cap n (min (b * 2) cap)"
      using Suc.IH [of "min (b * 2) cap" "Some err" "h1 @ [Slept b]"] by auto
    then show ?thesis using c Inl t1 by (intro exI [of _ "t1 @ [Slept b] @ t2"]) simp
  next
    case (Inr x)
    then show ?thesis using c t1 by (intro exI [of _ t1]) simp
  qed
qed simp

text \<open>What a client that \<open>client_connect\<close> returns looks like.\<close>

lemma client_connect_client:
  "client_connect sha256 net a fp h = (Inr c, h') \<Longrightarrow>
     c = \<lparr>client_identity = generate sha256 (drawn net h), auth_token = None, server_addr = a, expected = fp\<rparr>"
  unfolding client_connect_def by (drule connect_success) simp

lemma retry_loop_result:
  "fst (retry_loop sha256 net a fp token cap n b e h) = Inr c \<Longrightarrow>
     \<exists>h0. c = \<lparr>client_identity = generate sha256 (drawn net h0), auth_token = token, server_addr = a, expected = fp\<rparr>"
proof (induction n arbitrary: b e h)
  case (Suc n)
  obtain r h1 where cc: "client_connect sha256 net a fp h = (r, h1)" by (cases "client_connect sha256 net a fp h")
  show ?case
  proof (cases r)
    case (Inl err)
    then show ?thesis using Suc cc by simp
  next
    case (Inr c')
    then show ?thesis
      using Suc.prems cc client_connect_client [of sha256 net a fp h c' h1]
      by (auto simp: with_auth_token_def split: option.splits)
  qed
qed simp

lemma happy_join_Inr: "happy_join e js = Inr c \<Longrightarrow> Connected c \<in> set js"
  by (induction e js rule: happy_join.induct) auto

lemma happy_join_connects: "Connected c \<in> set js \<Longrightarrow> \<exists>c'. happy_join e js = Inr c'"
  by (induction e js rule: happy_join.induct) auto

section \<open>Properties\<close>

text \<open>
  The life cycle of a connection is balanced whatever events arrive in whatever order: among the events the
  machine accepts there is exactly one more attach than detach while a device is held and equally many
  otherwise, every reconnection answers a loss of the connection, and pairing happens once.
\<close>

lemma machine_balanced:
  "let (acc, st) = machine_run evs Discovered
   in count_list acc Attach = count_list acc DetachEvent + of_bool (holds_device st) \<and>
      count_list acc ConnectionLost = count_list acc ReconnectSucceeded + of_bool (st = Reconnecting) \<and>
      count_list acc Pair = of_bool (st \<noteq> Discovered)"
  using machine_run_balance [of evs Discovered]
  by (cases "machine_run evs Discovered") (auto simp: holds_device_def split: if_splits)

text \<open>
  Connecting with retries ends: it opens at most as many sessions as the policy allows and waits at most that
  many times the longer of its two pauses; with the default policy that is ten sessions and 18.1 seconds. A
  client it returns is pinned to the requested server and carries the given token.
\<close>

lemma connect_with_retry_bounded:
  "(\<exists>t. snd (connect_with_retry sha256 net a fp token policy h) = h @ t \<and> dials t \<le> max_attempts policy \<and>
      slept t \<le> max_attempts policy * max (initial_ms policy) (max_ms policy) \<and>
      (policy = default_policy \<longrightarrow> slept t \<le> 18100)) \<and>
   (case fst (connect_with_retry sha256 net a fp token policy h) of
      Inl _ \<Rightarrow> True
    | Inr c \<Rightarrow> server_addr c = a \<and> expected c = fp \<and> auth_token c = token)"
proof -
  obtain t where t: "snd (connect_with_retry sha256 net a fp token policy h) = h @ t" "dials t \<le> max_attempts policy"
    "slept t \<le> sleep_budget (max_ms policy) (max_attempts policy) (initial_ms policy)"
    using retry_loop_events [of sha256 net a fp token "max_ms policy" "max_attempts policy" "initial_ms policy" None h]
    unfolding connect_with_retry_def by blast
  have d: "sleep_budget (max_ms default_policy) (max_attempts default_policy) (initial_ms default_policy) = 18100"
    by (simp add: default_policy_def eval_nat_numeral)
  have "policy = default_policy \<longrightarrow> slept t \<le> 18100" using t(3) d by auto
  with t sleep_budget_le [of "max_ms policy" "max_attempts policy" "initial_ms policy"]
  have "\<exists>t. snd (connect_with_retry sha256 net a fp token policy h) = h @ t \<and> dials t \<le> max_attempts policy \<and>
      slept t \<le> max_attempts policy * max (initial_ms policy) (max_ms policy) \<and>
      (policy = default_policy \<longrightarrow> slept t \<le> 18100)"
    by (intro exI [of _ t]) (auto simp: ac_simps)
  moreover have "server_addr c = a \<and> expected c = fp \<and> auth_token c = token"
    if "fst (connect_with_retry sha256 net a fp token policy h) = Inr c" for c
    using retry_loop_result that unfolding connect_with_retry_def by fastforce
  ultimately show ?thesis by (auto split: sum.splits)
qed

text \<open>
  Racing the addresses of a server gives a connection exactly if some candidate connects within its time,
  in whatever order the attempts end; the connection is then to one of the given addresses and pinned to the
  expected certificate.
\<close>

lemma happy_eyeballs_spec:
  assumes "mset joined = mset [0..<length addrs]"
    and res: "res = happy_eyeballs_connect sha256 nets late panicked joined addrs fp"
    and oc: "outcome = (\<lambda>i. candidate_outcome sha256 (nets i) (late i) (panicked i) (connection_order addrs ! i) fp i)"
  shows "((\<exists>c. res = Inr c) \<longleftrightarrow> (\<exists>i < length addrs. \<exists>c. outcome i = Connected c)) \<and>
    (\<forall>c. res = Inr c \<longrightarrow> server_addr c \<in> set addrs \<and> expected c = fp)"
proof -
  have js: "set joined = {..<length addrs}"
    using assms(1) by (metis set_mset_mset set_upt atLeast0LessThan)
  have len: "length (connection_order addrs) = length addrs" and set: "set (connection_order addrs) = set addrs"
    using mset_connection_order by (metis size_mset, metis set_mset_mset)
  show ?thesis
  proof (cases "addrs = []")
    case True
    then show ?thesis by (simp add: res happy_eyeballs_connect_def connection_order_def)
  next
    case False
    then have r: "res = happy_join None (map outcome joined)"
      using len by (auto simp: res oc happy_eyeballs_connect_def Let_def)
    have "server_addr c \<in> set addrs \<and> expected c = fp" if rc: "res = Inr c" for c
    proof -
      obtain i where i: "i < length addrs" "outcome i = Connected c"
        using happy_join_Inr [of None "map outcome joined" c] rc js by (auto simp: r)
      then obtain h h' where "client_connect sha256 (nets i) (connection_order addrs ! i) fp h = (Inr c, h')"
        by (auto simp: oc candidate_outcome_def split: if_splits sum.splits)
           (metis prod.collapse)+
      from client_connect_client [OF this] i(1) set len show ?thesis by (simp flip: set)
    qed
    moreover have "(\<exists>c. res = Inr c) \<longleftrightarrow> (\<exists>c. Connected c \<in> set (map outcome joined))"
      using happy_join_Inr happy_join_connects unfolding r by metis
    then have "(\<exists>c. res = Inr c) \<longleftrightarrow> (\<exists>i < length addrs. \<exists>c. outcome i = Connected c)"
      unfolding set_map js by (auto simp: image_iff) (metis lessThan_iff)+
    ultimately show ?thesis by blast
  qed
qed

text \<open>A server that is only reachable at its second address.\<close>

definition second_only :: "nat \<Rightarrow> network" where
  "second_only i =
     \<lparr>dial = (\<lambda>h a fp. if i = 1 then Inr () else Inl (IoFailed (OtherIo ''refused''))),
      answers = (\<lambda>h q. case q of ControlCmd (Hello x) \<Rightarrow> Inr (MessageAnswer (Hello x)) | _ \<Rightarrow> Inl Closed),
      drawn = (\<lambda>h. replicate 32 1)\<rparr>"

lemma happy_eyeballs_spec_example:
  "\<exists>c. happy_eyeballs_connect (\<lambda>x. x) second_only (\<lambda>_. False) (\<lambda>_. False) [0, 1] [SocketV4 1 80, SocketV4 2 80] [5] = Inr c"
proof -
  have m: "mset [0, 1] = mset [0..<length [SocketV4 1 80, SocketV4 2 80]]" by (simp add: upt_rec)
  have "candidate_outcome (\<lambda>x. x) (second_only 1) False False (connection_order [SocketV4 1 80, SocketV4 2 80] ! 1) [5] 1 =
      Connected \<lparr>client_identity = generate (\<lambda>x. x) (replicate 32 1), auth_token = None,
        server_addr = connection_order [SocketV4 1 80, SocketV4 2 80] ! 1, expected = [5]\<rparr>"
    by (simp add: candidate_outcome_def client_connect_def connect_with_identity_def second_only_def Let_def client_hello_def)
  with happy_eyeballs_spec [OF m refl refl, of "\<lambda>x. x" second_only "\<lambda>_. False" "\<lambda>_. False" "[5]"]
  show ?thesis by force
qed

lemma connect_with_retry_bounded_example:
  "\<exists>t. snd (connect_with_retry (\<lambda>x. x) (second_only 0) (SocketV4 1 80) [5] None default_policy []) = t \<and> slept t \<le> 18100"
  using connect_with_retry_bounded [of "\<lambda>x. x" "second_only 0" "SocketV4 1 80" "[5]" None default_policy "[]"] by auto

end
