(* ===== verification/Text.thy ===== *)
theory Text
  imports Prelude
begin

text \<open>
  The functions of Rust's \<open>str\<close> that the session store, the sysfs scanner and the GUI use. A string is
  the list of its UTF-8 bytes, so a character of Unicode's \<open>White_Space\<close> is one to three of them.
\<close>

section \<open>Model\<close>

definition white_space :: "string list" where
  "white_space =
     map (map char_of)
       ([[9], [10], [11], [12], [13], [32], [0xC2, 0x85], [0xC2, 0xA0], [0xE1, 0x9A, 0x80]] @
        map (\<lambda>b. [0xE2, 0x80, b]) ([0x80..<0x8B] @ [0xA8, 0xA9, 0xAF]) @ [[0xE2, 0x81, 0x9F], [0xE3, 0x80, 0x80]] :: nat list list)"

text \<open>Leading characters of a list of characters, given as the bytes to look for, are dropped.\<close>

definition strip_front :: "string list \<Rightarrow> string \<Rightarrow> string option" where
  "strip_front ws s =
     map_option (\<lambda>w. drop (length w) s) (find (\<lambda>w. w \<noteq> [] \<and> take (length w) s = w) ws)"

lemma strip_front_shorter: "strip_front ws s = Some r \<Longrightarrow> length r < length s"
  by (auto simp: strip_front_def find_Some_iff simp del: length_greater_0_conv)
     (metis diff_less length_greater_0_conv take_Nil take_eq_Nil)

function trim_front :: "string list \<Rightarrow> string \<Rightarrow> string" where
  "trim_front ws s = (case strip_front ws s of None \<Rightarrow> s | Some r \<Rightarrow> trim_front ws r)"
  by pat_completeness auto
termination by (relation "measure (\<lambda>(ws, s). length s)") (auto intro: strip_front_shorter)

declare trim_front.simps [simp del]

text \<open>\<open>str::trim\<close>.\<close>

definition trim :: "string \<Rightarrow> string" where
  "trim s = rev (trim_front (map rev white_space) (rev (trim_front white_space s)))"

text \<open>\<open>str::lines\<close>: a line that ends in a newline loses one carriage return before it.\<close>

abbreviation newline :: char where "newline \<equiv> CHR 0x0A"

definition strip_cr :: "string \<Rightarrow> string" where
  "strip_cr l = (if l \<noteq> [] \<and> last l = CHR 0x0D then butlast l else l)"

fun lines_from :: "string \<Rightarrow> string \<Rightarrow> string list" where
  "lines_from acc [] = (if acc = [] then [] else [rev acc])"
| "lines_from acc (c # cs) =
     (if c = newline then strip_cr (rev acc) # lines_from [] cs else lines_from (c # acc) cs)"

definition text_lines :: "string \<Rightarrow> string list" where
  "text_lines s = lines_from [] s"

text \<open>\<open>str::starts_with\<close> with a string, \<open>PathBuf::join\<close> with a relative name.\<close>

definition starts_with :: "string \<Rightarrow> string \<Rightarrow> bool" where
  "starts_with p s \<longleftrightarrow> take (length p) s = p"

definition join_path :: "string \<Rightarrow> string \<Rightarrow> string" where
  "join_path d f = (if d = [] \<or> last d = CHR ''/'' then d @ f else d @ ''/'' @ f)"

section \<open>Lemmas\<close>

text \<open>Text that starts and ends with a visible ASCII character is left alone.\<close>

definition visible :: "char \<Rightarrow> bool" where
  "visible c \<longleftrightarrow> 33 \<le> (of_char c :: nat) \<and> (of_char c :: nat) \<le> 126"

lemma white_space_ends:
  "\<forall>w \<in> set white_space. w \<noteq> [] \<and> \<not> visible (hd w) \<and> \<not> visible (last w)"
  by code_simp

lemma strip_front_visible:
  assumes "\<forall>w \<in> set ws. w \<noteq> [] \<and> \<not> visible (hd w)" "s = [] \<or> visible (hd s)"
  shows "strip_front ws s = None"
proof -
  have "take (length w) s \<noteq> w" if "w \<in> set ws" for w
    using assms that by (cases w; cases s) auto
  then show ?thesis by (auto simp: strip_front_def find_None_iff)
qed

lemma trim_visible:
  assumes "s = [] \<or> visible (hd s) \<and> visible (last s)"
  shows "trim s = s"
proof -
  have "trim_front white_space s = s"
    using strip_front_visible [of white_space s] white_space_ends assms by (subst trim_front.simps) auto
  moreover have "trim_front (map rev white_space) (rev s) = rev s"
    using strip_front_visible [of "map rev white_space" "rev s"] white_space_ends assms
    by (subst trim_front.simps) (auto simp: hd_rev)
  ultimately show ?thesis by (simp add: trim_def)
qed

lemma lines_from_line:
  "newline \<notin> set l \<Longrightarrow> lines_from acc (l @ newline # r) = strip_cr (rev acc @ l) # lines_from [] r"
  by (induction l arbitrary: acc) auto

lemma text_lines_line [simp]:
  "newline \<notin> set l \<Longrightarrow> text_lines (l @ newline # r) = strip_cr l # text_lines r"
  by (simp add: text_lines_def lines_from_line)

lemma text_lines_nil [simp]: "text_lines [] = []"
  by (simp add: text_lines_def)

end
