(* ===== verification/Store.thy ===== *)
theory Store
  imports Identity Address Text
begin

text \<open>
  What is kept on disk: the client's saved sessions (\<^verbatim>\<open>crates/farbus-core/src/store.rs\<close>), the server's
  certificate (\<^verbatim>\<open>persist.rs\<close>), and the certificate checks of \<^verbatim>\<open>tls.rs\<close>.

  A file system is a map from paths to files. Every system call that can fail has an outcome in
  \<open>faults\<close>; a failed write leaves some prefix of the data in the file. Modelled is the Unix variant
  of the atomic write; the permissions of directories are left out. The text form of addresses, SHA-256
  and the generator of self-signed certificates are parameters.
\<close>

section \<open>Files\<close>

record stored_file =
  content :: bytes
  mode :: nat

type_synonym fs = "string \<rightharpoonup> stored_file"

datatype fs_call = CreateDir string | OpenFile string | WriteAll string | SyncAll string | Rename string

record faults =
  fails :: "fs_call \<Rightarrow> io_error option"
  torn :: "string \<Rightarrow> nat"

text \<open>\<open>fs::read\<close> and \<open>fs::read_to_string\<close>.\<close>

definition read_file :: "fs \<Rightarrow> string \<Rightarrow> bytes option" where
  "read_file fs path = map_option content (fs path)"

definition read_text :: "fs \<Rightarrow> string \<Rightarrow> string option" where
  "read_text fs path =
     (case read_file fs path of
        None \<Rightarrow> None
      | Some bs \<Rightarrow> if valid_utf8 bs then Some (string_of_bytes bs) else None)"

text \<open>\<open>Path::with_extension\<close> on a path whose file name does not start with its only dot.\<close>

definition with_extension :: "string \<Rightarrow> string \<Rightarrow> string" where
  "with_extension path ext =
     (let name = rev (takeWhile (\<lambda>c. c \<noteq> CHR ''/'') (rev path));
          dir = take (length path - length name) path;
          stem = (if CHR ''.'' \<in> set name then rev (tl (dropWhile (\<lambda>c. c \<noteq> CHR ''.'') (rev name))) else name)
      in dir @ stem @ ''.'' @ ext)"

text \<open>A file that is created gets the mode asked for; one that exists keeps its own.\<close>

definition write_private_atomic :: "faults \<Rightarrow> nat \<Rightarrow> string \<Rightarrow> bytes \<Rightarrow> fs \<Rightarrow> (io_error + unit) \<times> fs" where
  "write_private_atomic flt m path data fs =
     (let tmp = with_extension path ''tmp'';
          m1 = (case fs tmp of Some f \<Rightarrow> mode f | None \<Rightarrow> m)
      in case fails flt (OpenFile tmp) of
           Some e \<Rightarrow> (Inl e, fs)
         | None \<Rightarrow>
             (case fails flt (WriteAll tmp) of
                Some e \<Rightarrow> (Inl e, fs(tmp \<mapsto> \<lparr>content = take (torn flt tmp) data, mode = m1\<rparr>))
              | None \<Rightarrow>
                  let file = \<lparr>content = data, mode = m1\<rparr>
                  in case fails flt (SyncAll tmp) of
                       Some e \<Rightarrow> (Inl e, fs(tmp \<mapsto> file))
                     | None \<Rightarrow>
                         (case fails flt (Rename tmp) of
                            Some e \<Rightarrow> (Inl e, fs(tmp \<mapsto> file))
                          | None \<Rightarrow> (Inr (), fs(tmp := None, path \<mapsto> file)))))"

text \<open>The copy of it in \<^verbatim>\<open>store.rs\<close>, with the mode 0600.\<close>

definition write_private :: "faults \<Rightarrow> string \<Rightarrow> bytes \<Rightarrow> fs \<Rightarrow> (io_error + unit) \<times> fs" where
  "write_private flt path data fs = write_private_atomic flt 0x180 path data fs"

declare write_private_def [simp]

section \<open>Saved sessions\<close>

record stored_session =
  session_addr :: socket_addr
  session_fingerprint :: fingerprint
  session_token :: bytes
  session_secret :: "bytes option"

text \<open>\<open>std::env::var_os("HOME")\<close>, else \<open>"USERPROFILE"\<close>.\<close>

record env_vars =
  HOME :: "string option"
  USERPROFILE :: "string option"

definition home_dir :: "env_vars \<Rightarrow> io_error + string" where
  "home_dir vars =
     (case HOME vars of
        Some d \<Rightarrow> Inr d
      | None \<Rightarrow> (case USERPROFILE vars of Some d \<Rightarrow> Inr d | None \<Rightarrow> Inl (OtherIo ''no home dir'')))"

definition config_dir :: "env_vars \<Rightarrow> io_error + string" where
  "config_dir vars = bind_res (home_dir vars) (\<lambda>home. Inr (join_path home ''.config/farbus''))"

definition parse_hex32 :: "string \<Rightarrow> bytes option" where
  "parse_hex32 token_hex =
     (if length token_hex \<noteq> 64 then None
      else case hex_chunks token_hex of Inr bs \<Rightarrow> Some bs | Inl _ \<Rightarrow> None)"

definition session_text :: "(socket_addr \<Rightarrow> string) \<Rightarrow> stored_session \<Rightarrow> string" where
  "session_text show_addr s =
     show_addr (session_addr s) @ [newline] @ fingerprint_to_string (session_fingerprint s) @ [newline] @
     hex_string (session_token s) @ [newline] @
     (case session_secret s of None \<Rightarrow> [] | Some secret \<Rightarrow> hex_string secret @ [newline])"

definition session_path :: "string \<Rightarrow> fingerprint \<Rightarrow> string" where
  "session_path dir fp = join_path dir (fingerprint_to_string fp @ ''.session'')"

definition save_session ::
    "(socket_addr \<Rightarrow> string) \<Rightarrow> env_vars \<Rightarrow> faults \<Rightarrow> stored_session \<Rightarrow> fs \<Rightarrow> (io_error + unit) \<times> fs" where
  "save_session show_addr vars flt s fs =
     (case config_dir vars of
        Inl e \<Rightarrow> (Inl e, fs)
      | Inr dir \<Rightarrow>
          (case fails flt (CreateDir dir) of
             Some e \<Rightarrow> (Inl e, fs)
           | None \<Rightarrow>
               (case write_private flt (session_path dir (session_fingerprint s))
                       (as_bytes (session_text show_addr s)) fs of
                  (Inl e, fs1) \<Rightarrow> (Inl e, fs1)
                | (Inr _, fs1) \<Rightarrow>
                    write_private flt (join_path dir ''latest'')
                      (as_bytes (fingerprint_to_string (session_fingerprint s))) fs1)))"

text \<open>The lines of a session file.\<close>

definition parse_session :: "(string \<Rightarrow> socket_addr option) \<Rightarrow> string list \<Rightarrow> stored_session option" where
  "parse_session parse_addr ls =
     (case ls of
        l1 # l2 # l3 # rest \<Rightarrow>
          (case (parse_addr l1, fingerprint_from_str l2, parse_hex32 l3) of
             (Some a, Inr fp, Some token) \<Rightarrow>
               Some \<lparr>session_addr = a, session_fingerprint = fp, session_token = token,
                     session_secret = (case rest of l4 # _ \<Rightarrow> parse_hex32 l4 | [] \<Rightarrow> None)\<rparr>
           | _ \<Rightarrow> None)
      | _ \<Rightarrow> None)"

definition load_session ::
    "(string \<Rightarrow> socket_addr option) \<Rightarrow> env_vars \<Rightarrow> fingerprint option \<Rightarrow> fs \<Rightarrow> stored_session option" where
  "load_session parse_addr vars fp_opt fs =
     (case config_dir vars of
        Inl _ \<Rightarrow> None
      | Inr dir \<Rightarrow>
          (case (case fp_opt of
                   Some fp \<Rightarrow> Some fp
                 | None \<Rightarrow>
                     (case read_text fs (join_path dir ''latest'') of
                        None \<Rightarrow> None
                      | Some latest \<Rightarrow> (case fingerprint_from_str (trim latest) of Inr fp \<Rightarrow> Some fp | Inl _ \<Rightarrow> None))) of
             None \<Rightarrow> None
           | Some fp \<Rightarrow>
               (case read_text fs (session_path dir fp) of
                  None \<Rightarrow> None
                | Some txt \<Rightarrow> parse_session parse_addr (text_lines txt))))"

section \<open>Certificates\<close>

datatype tls_error = Gen | Config | Rustls

definition fingerprint_cert :: "(bytes \<Rightarrow> bytes) \<Rightarrow> bytes \<Rightarrow> fingerprint" where
  "fingerprint_cert sha256 cert_der = sha256 cert_der"

text \<open>The pinned verifier accepts one certificate, the observing one accepts all and notes what it saw.\<close>

datatype cert_error = ApplicationVerificationFailure

definition verify_pinned :: "(bytes \<Rightarrow> bytes) \<Rightarrow> fingerprint \<Rightarrow> bytes \<Rightarrow> cert_error + unit" where
  "verify_pinned sha256 expct end_entity =
     (let actual = fingerprint_cert sha256 end_entity
      in if actual = expct then Inr () else Inl ApplicationVerificationFailure)"

definition verify_observing :: "(bytes \<Rightarrow> bytes) \<Rightarrow> bytes \<Rightarrow> fingerprint option \<Rightarrow> (cert_error + unit) \<times> fingerprint option" where
  "verify_observing sha256 end_entity seen = (Inr (), Some (fingerprint_cert sha256 end_entity))"

text \<open>\<open>make_self_signed\<close>; \<open>generated\<close> is the certificate and the key the generator returns, if it does.\<close>

definition make_self_signed ::
    "(bytes \<Rightarrow> bytes) \<Rightarrow> (bytes \<times> bytes) option \<Rightarrow> tls_error + (bytes \<times> bytes \<times> fingerprint)" where
  "make_self_signed sha256 generated =
     (case generated of
        None \<Rightarrow> Inl Gen
      | Some (der, key) \<Rightarrow> Inr (der, key, fingerprint_cert sha256 der))"

definition identity_dir :: "env_vars \<Rightarrow> io_error + string" where
  "identity_dir vars = bind_res (home_dir vars) (\<lambda>home. Inr (join_path home ''.config/farbus/server''))"

definition load_identity :: "(bytes \<Rightarrow> bytes) \<Rightarrow> env_vars \<Rightarrow> fs \<Rightarrow> tls_error + (bytes \<times> bytes \<times> fingerprint)" where
  "load_identity sha256 vars fs =
     (case identity_dir vars of
        Inl _ \<Rightarrow> Inl Gen
      | Inr dir \<Rightarrow>
          bind_res (ok_or Gen (read_file fs (join_path dir ''cert.der''))) (\<lambda>cert.
          bind_res (ok_or Gen (read_file fs (join_path dir ''key.der''))) (\<lambda>key.
            Inr (cert, key, fingerprint_cert sha256 cert))))"

definition save_identity :: "env_vars \<Rightarrow> faults \<Rightarrow> bytes \<Rightarrow> bytes \<Rightarrow> fs \<Rightarrow> (io_error + unit) \<times> fs" where
  "save_identity vars flt cert key fs =
     (case identity_dir vars of
        Inl e \<Rightarrow> (Inl e, fs)
      | Inr dir \<Rightarrow>
          (case fails flt (CreateDir dir) of
             Some e \<Rightarrow> (Inl e, fs)
           | None \<Rightarrow>
               (case write_private_atomic flt 0x180 (join_path dir ''key.der'') key fs of
                  (Inl e, fs1) \<Rightarrow> (Inl e, fs1)
                | (Inr _, fs1) \<Rightarrow> write_private_atomic flt 0x1A4 (join_path dir ''cert.der'') cert fs1)))"

definition load_or_create_server_identity ::
    "(bytes \<Rightarrow> bytes) \<Rightarrow> env_vars \<Rightarrow> faults \<Rightarrow> (bytes \<times> bytes) option \<Rightarrow> fs \<Rightarrow> (tls_error + (bytes \<times> bytes \<times> fingerprint)) \<times> fs" where
  "load_or_create_server_identity sha256 vars flt generated fs =
     (case load_identity sha256 vars fs of
        Inr loaded \<Rightarrow> (Inr loaded, fs)
      | Inl _ \<Rightarrow>
          (case make_self_signed sha256 generated of
             Inl e \<Rightarrow> (Inl e, fs)
           | Inr (cert, key, fp) \<Rightarrow> (Inr (cert, key, fp), snd (save_identity vars flt cert key fs))))"

section \<open>Lemmas\<close>

subsection \<open>Paths\<close>

definition dir_prefix :: "string \<Rightarrow> string" where
  "dir_prefix d = (if d = [] \<or> last d = CHR ''/'' then d else d @ ''/'')"

lemma join_path_prefix: "join_path d f = dir_prefix d @ f"
  by (simp add: join_path_def dir_prefix_def)

lemma dir_prefix_end: "dir_prefix d = [] \<or> last (dir_prefix d) = CHR ''/''"
  by (simp add: dir_prefix_def)

lemma takeWhile_name:
  assumes "p = [] \<or> last p = x" "x \<notin> set n"
  shows "takeWhile (\<lambda>c. c \<noteq> x) (rev (p @ n)) = rev n"
proof (cases "p = []")
  case False
  then obtain q where "rev p = x # q" using assms(1) by (metis hd_Cons_tl hd_rev rev_is_Nil_conv)
  then show ?thesis using assms(2) by (simp add: takeWhile_tail) (metis set_rev takeWhile_eq_all_conv)
qed (use assms(2) in \<open>auto simp: takeWhile_eq_all_conv\<close>)

lemma with_extension_name:
  assumes "CHR ''/'' \<notin> set stem" "CHR ''/'' \<notin> set ext" "CHR ''.'' \<notin> set ext"
  shows "with_extension (join_path d (stem @ CHR ''.'' # ext)) x = join_path d (stem @ ''.'' @ x)"
proof -
  let ?n = "stem @ CHR ''.'' # ext"
  have n: "takeWhile (\<lambda>c. c \<noteq> CHR ''/'') (rev (dir_prefix d @ ?n)) = rev ?n"
    using assms by (intro takeWhile_name dir_prefix_end) auto
  have "dropWhile (\<lambda>c. c \<noteq> CHR ''.'') (rev ?n) = CHR ''.'' # rev stem"
    unfolding rev_append rev.simps append_assoc by (subst dropWhile_append2) (use assms(3) in auto)
  then show ?thesis
    unfolding join_path_prefix with_extension_def Let_def n rev_rev_ident by simp
qed

lemma with_extension_plain:
  assumes "CHR ''/'' \<notin> set n" "CHR ''.'' \<notin> set n"
  shows "with_extension (join_path d n) x = join_path d (n @ ''.'' @ x)"
  unfolding join_path_prefix with_extension_def Let_def takeWhile_name [OF dir_prefix_end assms(1)] rev_rev_ident
  using assms by simp

lemma hex_char_visible:
  assumes "n < 16"
  shows "visible (hex_char n)" "hex_char n \<noteq> CHR ''/''" "hex_char n \<noteq> CHR ''.''" "hex_char n \<noteq> newline" "hex_char n \<noteq> CHR 0x0D"
proof -
  have v: "(of_char (hex_char n) :: nat) = (if n < 10 then n + 48 else n + 87)" using assms by (simp add: hex_char_def)
  then show "visible (hex_char n)" using assms by (simp add: visible_def)
  have ne: "hex_char n \<noteq> c" if "(of_char c :: nat) < 48" for c using v that by (auto split: if_splits)
  show "hex_char n \<noteq> CHR ''/''" "hex_char n \<noteq> CHR ''.''" "hex_char n \<noteq> newline" "hex_char n \<noteq> CHR 0x0D"
    by (rule ne, simp)+
qed

lemma hex_string_chars:
  "c \<in> set (hex_string bs) \<Longrightarrow> visible c \<and> c \<noteq> CHR ''/'' \<and> c \<noteq> CHR ''.'' \<and> c \<noteq> newline \<and> c \<noteq> CHR 0x0D"
  by (induction bs) (auto simp: hex_string_def hex_byte_def hex_char_visible nibble)

lemma hex_string_inject: "hex_string a = hex_string b \<longleftrightarrow> a = b"
  by (metis hex_chunks_hex_string Inr_inject)

lemma trim_hex: "trim (hex_string bs) = hex_string bs"
proof (cases "hex_string bs = []")
  case False
  then show ?thesis using hex_string_chars [of _ bs] by (intro trim_visible) (meson hd_in_set last_in_set)
qed (simp add: trim_visible)

lemma strip_cr_hex: "strip_cr (hex_string bs) = hex_string bs"
  using hex_string_chars [of "last (hex_string bs)" bs] by (cases "hex_string bs = []") (auto simp: strip_cr_def)

lemma hex_valid_utf8: "valid_utf8 (as_bytes (hex_string bs))"
proof (rule valid_utf8_ascii, rule ballI)
  fix b assume "b \<in> set (as_bytes (hex_string bs))"
  then obtain c where "c \<in> set (hex_string bs)" "b = of_nat (of_char c)" by (auto simp: as_bytes_def)
  with hex_string_chars [of c bs] have "unat b < 128" by (auto simp: visible_def unat_of_nat)
  then show "b < 0x80" by (simp add: word_less_nat_alt)
qed

lemma parse_hex32_hex: "length bs = 32 \<Longrightarrow> parse_hex32 (hex_string bs) = Some bs"
  by (simp add: parse_hex32_def hex_chunks_hex_string)

lemma session_tmp: "with_extension (session_path dir fp) ''tmp'' = join_path dir (fingerprint_to_string fp @ ''.tmp'')"
  unfolding session_path_def fingerprint_to_string_def
  using with_extension_name [of "hex_string fp" "''session''" dir "''tmp''"] hex_string_chars [of _ fp] by auto

lemma latest_tmp: "with_extension (join_path dir ''latest'') ''tmp'' = join_path dir ''latest.tmp''"
  using with_extension_plain [of "''latest''" dir "''tmp''"] by simp

lemma session_path_simps [simp]:
  "session_path dir fp = session_path dir fp' \<longleftrightarrow> fp = fp'"
  "session_path dir fp \<noteq> join_path dir ''latest''" "join_path dir ''latest'' \<noteq> session_path dir fp"
  "session_path dir fp \<noteq> join_path dir (x @ ''.tmp'')" "join_path dir (x @ ''.tmp'') \<noteq> session_path dir fp"
  "session_path dir fp \<noteq> join_path dir ''latest.tmp''" "join_path dir ''latest.tmp'' \<noteq> session_path dir fp"
proof -
  have l: "last (session_path dir fp) = CHR ''n''" for fp by (simp add: session_path_def join_path_prefix)
  show "session_path dir fp = session_path dir fp' \<longleftrightarrow> fp = fp'"
    by (simp add: session_path_def join_path_prefix fingerprint_to_string_def hex_string_inject)
  have ne: "session_path dir fp \<noteq> join_path dir f" if "f \<noteq> []" "last f \<noteq> CHR ''n''" for f
    using l [of fp] that by (metis join_path_prefix last_append)
  show "session_path dir fp \<noteq> join_path dir ''latest''" "session_path dir fp \<noteq> join_path dir (x @ ''.tmp'')"
    "session_path dir fp \<noteq> join_path dir ''latest.tmp''" by (rule ne, simp_all)+
  then show "join_path dir ''latest'' \<noteq> session_path dir fp" "join_path dir (x @ ''.tmp'') \<noteq> session_path dir fp"
    "join_path dir ''latest.tmp'' \<noteq> session_path dir fp" by metis+
qed

subsection \<open>Atomic writes\<close>

lemma write_private_atomic_effect:
  assumes "write_private_atomic flt m path data fs = (r, fs')"
  shows "p \<noteq> with_extension path ''tmp'' \<Longrightarrow>
      fs' p = (if r = Inr () \<and> p = path
               then Some \<lparr>content = data, mode = (case fs (with_extension path ''tmp'') of Some f \<Rightarrow> mode f | None \<Rightarrow> m)\<rparr>
               else fs p)"
  using assms by (auto simp: write_private_atomic_def Let_def split: option.splits)

lemma write_private_atomic_ok:
  "fails flt = (\<lambda>_. None) \<Longrightarrow> fst (write_private_atomic flt m path data fs) = Inr ()"
  by (simp add: write_private_atomic_def Let_def)

subsection \<open>Session files\<close>

text \<open>What the store relies on of the text form of an address: it is one line, and reading it gives it back.\<close>

definition addr_text_ok :: "(socket_addr \<Rightarrow> string) \<Rightarrow> (string \<Rightarrow> socket_addr option) \<Rightarrow> socket_addr \<Rightarrow> bool" where
  "addr_text_ok show_addr parse_addr a \<longleftrightarrow>
     parse_addr (show_addr a) = Some a \<and> show_addr a \<noteq> [] \<and> (\<forall>c \<in> set (show_addr a). visible c)"

definition session_ok :: "stored_session \<Rightarrow> bool" where
  "session_ok s \<longleftrightarrow> length (session_fingerprint s) = 32 \<and> length (session_token s) = 32 \<and>
     (\<forall>secret. session_secret s = Some secret \<longrightarrow> length secret = 32)"

lemma visible_line: "\<forall>c \<in> set l. visible c \<Longrightarrow> newline \<notin> set l \<and> strip_cr l = l"
proof -
  assume v: "\<forall>c \<in> set l. visible c"
  have "\<not> visible newline" "\<not> visible (CHR 0x0D)" by (simp_all add: visible_def)
  with v show ?thesis by (auto simp: strip_cr_def) (metis last_in_set)
qed

lemma visible_bytes: "\<forall>c \<in> set l. visible c \<Longrightarrow> b \<in> set (as_bytes l) \<Longrightarrow> b < 0x80"
  by (auto simp: as_bytes_def visible_def word_less_nat_alt unat_of_nat)

lemma hex_visible: "c \<in> set (hex_string bs) \<Longrightarrow> visible c"
  using hex_string_chars by blast

lemma session_text_utf8:
  assumes "addr_text_ok show_addr parse_addr (session_addr s)"
  shows "valid_utf8 (as_bytes (session_text show_addr s))"
proof (rule valid_utf8_ascii, rule ballI)
  fix b assume "b \<in> set (as_bytes (session_text show_addr s))"
  then consider "b \<in> set (as_bytes (show_addr (session_addr s)))" | x where "b \<in> set (as_bytes (hex_string x))" | "b = 10"
    by (auto simp: session_text_def as_bytes_def fingerprint_to_string_def split: option.splits)
  then show "b < 0x80"
    using assms visible_bytes hex_visible by cases (fastforce simp: addr_text_ok_def)+
qed

lemma parse_session_text:
  assumes "addr_text_ok show_addr parse_addr (session_addr s)" "session_ok s"
  shows "parse_session parse_addr (text_lines (session_text show_addr s)) = Some s"
proof -
  have a: "newline \<notin> set (show_addr (session_addr s))" "strip_cr (show_addr (session_addr s)) = show_addr (session_addr s)"
    "parse_addr (show_addr (session_addr s)) = Some (session_addr s)"
    using assms(1) visible_line unfolding addr_text_ok_def by blast+
  have h: "newline \<notin> set (hex_string x)" for x using hex_string_chars [of newline x] by blast
  have fp: "fingerprint_from_str (hex_string (session_fingerprint s)) = Inr (session_fingerprint s)"
    using assms(2) by (simp add: fingerprint_from_str_def hex_chunks_hex_string session_ok_def)
  show ?thesis
    using assms(2) a h fp
    by (cases "session_secret s") (simp_all add: session_text_def parse_session_def fingerprint_to_string_def strip_cr_hex
        parse_hex32_hex session_ok_def)
qed

lemma load_after_write:
  assumes "config_dir vars = Inr dir" "addr_text_ok show_addr parse_addr (session_addr s)" "session_ok s"
    and "fs (session_path dir (session_fingerprint s)) = Some f" "content f = as_bytes (session_text show_addr s)"
  shows "load_session parse_addr vars (Some (session_fingerprint s)) fs = Some s"
  using assms session_text_utf8 [OF assms(2)] parse_session_text [OF assms(2,3)]
  by (simp add: load_session_def read_text_def read_file_def)

lemma load_latest:
  assumes "config_dir vars = Inr dir" "length fp = 32"
    and "fs (join_path dir ''latest'') = Some f" "content f = as_bytes (fingerprint_to_string fp)"
  shows "load_session parse_addr vars None fs = load_session parse_addr vars (Some fp) fs"
proof -
  have "read_text fs (join_path dir ''latest'') = Some (hex_string fp)"
    using assms(3,4) by (simp add: read_text_def read_file_def fingerprint_to_string_def hex_valid_utf8)
  then show ?thesis
    using assms(1,2) by (simp add: load_session_def trim_hex fingerprint_from_str_def hex_chunks_hex_string)
qed

text \<open>The two writes of \<open>save_session\<close>.\<close>

lemma save_session_files:
  assumes "config_dir vars = Inr dir" "save_session show_addr vars flt s fs = (r, fs')"
  obtains (none) "fs' = fs" "r \<noteq> Inr ()"
    | (wrote) r1 fs1 where "write_private_atomic flt 0x180 (session_path dir (session_fingerprint s))
        (as_bytes (session_text show_addr s)) fs = (r1, fs1)"
      "if r1 = Inr () then write_private_atomic flt 0x180 (join_path dir ''latest'')
          (as_bytes (fingerprint_to_string (session_fingerprint s))) fs1 = (r, fs')
       else r \<noteq> Inr () \<and> fs' = fs1"
proof (cases "fails flt (CreateDir dir)")
  case None
  obtain r1 fs1 where "write_private_atomic flt 0x180 (session_path dir (session_fingerprint s))
      (as_bytes (session_text show_addr s)) fs = (r1, fs1)" by (metis surj_pair)
  then show thesis using assms None by (intro wrote) (auto simp: save_session_def split: sum.splits)
qed (use assms none in \<open>auto simp: save_session_def\<close>)

lemma save_session_effect:
  assumes "config_dir vars = Inr dir" "save_session show_addr vars flt s fs = (r, fs')"
  shows "fs' (session_path dir fp) = fs (session_path dir fp) \<or>
      fp = session_fingerprint s \<and>
      (\<exists>f. fs' (session_path dir fp) = Some f \<and> content f = as_bytes (session_text show_addr s))"
    and "r = Inr () \<Longrightarrow>
      (\<exists>f. fs' (session_path dir (session_fingerprint s)) = Some f \<and> content f = as_bytes (session_text show_addr s)) \<and>
      (\<exists>f. fs' (join_path dir ''latest'') = Some f \<and> content f = as_bytes (fingerprint_to_string (session_fingerprint s)))"
  using assms
proof (atomize (full), cases rule: save_session_files)
  case none
  then show "(fs' (session_path dir fp) = fs (session_path dir fp) \<or>
      fp = session_fingerprint s \<and>
      (\<exists>f. fs' (session_path dir fp) = Some f \<and> content f = as_bytes (session_text show_addr s))) \<and>
    (r = Inr () \<longrightarrow>
      (\<exists>f. fs' (session_path dir (session_fingerprint s)) = Some f \<and> content f = as_bytes (session_text show_addr s)) \<and>
      (\<exists>f. fs' (join_path dir ''latest'') = Some f \<and> content f = as_bytes (fingerprint_to_string (session_fingerprint s))))"
    by blast
next
  case (wrote r1 fs1)
  note w1 = write_private_atomic_effect [OF wrote(1), unfolded session_tmp]
  show "(fs' (session_path dir fp) = fs (session_path dir fp) \<or>
      fp = session_fingerprint s \<and>
      (\<exists>f. fs' (session_path dir fp) = Some f \<and> content f = as_bytes (session_text show_addr s))) \<and>
    (r = Inr () \<longrightarrow>
      (\<exists>f. fs' (session_path dir (session_fingerprint s)) = Some f \<and> content f = as_bytes (session_text show_addr s)) \<and>
      (\<exists>f. fs' (join_path dir ''latest'') = Some f \<and> content f = as_bytes (fingerprint_to_string (session_fingerprint s))))"
  proof (cases "r1 = Inr ()")
    case True
    with wrote(2) have "write_private_atomic flt 0x180 (join_path dir ''latest'')
        (as_bytes (fingerprint_to_string (session_fingerprint s))) fs1 = (r, fs')" by simp
    note w2 = write_private_atomic_effect [OF this, unfolded latest_tmp]
    have "fs' (session_path dir x) = fs1 (session_path dir x)" for x by (subst w2) simp_all
    moreover have "r = Inr () \<Longrightarrow> \<exists>f. fs' (join_path dir ''latest'') = Some f \<and>
        content f = as_bytes (fingerprint_to_string (session_fingerprint s))"
      by (subst w2) (simp_all add: join_path_prefix)
    ultimately show ?thesis using True by (simp add: w1)
  next
    case False
    with wrote(2) show ?thesis by (simp add: w1)
  qed
qed

subsection \<open>Server identity\<close>

definition no_faults :: faults where
  "no_faults = \<lparr>fails = (\<lambda>_. None), torn = (\<lambda>_. 0)\<rparr>"

lemma no_faults_fails: "fails no_faults = (\<lambda>_. None)"
  by (simp add: no_faults_def)

lemma der_paths:
  "with_extension (join_path dir ''key.der'') ''tmp'' = join_path dir ''key.tmp''"
  "with_extension (join_path dir ''cert.der'') ''tmp'' = join_path dir ''cert.tmp''"
  using with_extension_name [of "''key''" "''der''" dir "''tmp''"] with_extension_name [of "''cert''" "''der''" dir "''tmp''"]
  by simp_all

lemma save_identity_ok:
  assumes "identity_dir vars = Inr dir" "fails flt = (\<lambda>_. None)"
  shows "\<exists>fs'. save_identity vars flt cert key fs = (Inr (), fs') \<and>
    read_file fs' (join_path dir ''cert.der'') = Some cert \<and> read_file fs' (join_path dir ''key.der'') = Some key"
proof -
  obtain fs1 where w1: "write_private_atomic flt 0x180 (join_path dir ''key.der'') key fs = (Inr (), fs1)"
    using write_private_atomic_ok [OF assms(2)] by (metis prod.collapse)
  obtain fs2 where w2: "write_private_atomic flt 0x1A4 (join_path dir ''cert.der'') cert fs1 = (Inr (), fs2)"
    using write_private_atomic_ok [OF assms(2)] by (metis prod.collapse)
  note e1 = write_private_atomic_effect [OF w1, unfolded der_paths] and e2 = write_private_atomic_effect [OF w2, unfolded der_paths]
  have "save_identity vars flt cert key fs = (Inr (), fs2)"
    using assms w1 w2 by (simp add: save_identity_def)
  moreover have "read_file fs2 (join_path dir ''cert.der'') = Some cert" "read_file fs2 (join_path dir ''key.der'') = Some key"
    using e1 e2 by (simp_all add: read_file_def join_path_prefix)
  ultimately show ?thesis by blast
qed

lemma save_session_ok:
  assumes "home_dir vars = Inr home" "fails flt = (\<lambda>_. None)"
  shows "\<exists>fs'. save_session show_addr vars flt s fs = (Inr (), fs')"
proof -
  obtain dir where dir: "config_dir vars = Inr dir" using assms(1) by (simp add: config_dir_def)
  have "fst (save_session show_addr vars flt s fs) = Inr ()"
    using write_private_atomic_ok [OF assms(2)]
    by (auto simp: save_session_def dir assms(2) split: prod.splits sum.splits) (metis fst_conv sum.distinct(1))
  then show ?thesis by (metis prod.collapse)
qed

lemma save_load:
  assumes "home_dir vars = Inr home" "addr_text_ok show_addr parse_addr (session_addr s)" "session_ok s"
    and "save_session show_addr vars flt s fs = (Inr (), fs')"
  shows "load_session parse_addr vars (Some (session_fingerprint s)) fs' = Some s \<and>
    load_session parse_addr vars None fs' = Some s"
proof -
  obtain dir where dir: "config_dir vars = Inr dir" using assms(1) by (simp add: config_dir_def)
  from save_session_effect(2) [OF dir assms(4)]
  obtain f g where f: "fs' (session_path dir (session_fingerprint s)) = Some f" "content f = as_bytes (session_text show_addr s)"
    and g: "fs' (join_path dir ''latest'') = Some g" "content g = as_bytes (fingerprint_to_string (session_fingerprint s))"
    by blast
  have "length (session_fingerprint s) = 32" using assms(3) by (simp add: session_ok_def)
  moreover have "load_session parse_addr vars (Some (session_fingerprint s)) fs' = Some s"
    using dir assms(2,3) f by (rule load_after_write)
  ultimately show ?thesis using load_latest [of vars dir "session_fingerprint s" fs' g] dir g by simp
qed

section \<open>Properties\<close>

text \<open>
  C36. A session that was saved is read back as it was: once \<open>save_session\<close> succeeds, loading by the server's
  fingerprint and loading the latest session both return it, with its address, token and client secret.
\<close>

theorem save_load_session:
  assumes "home_dir vars = Inr home" "addr_text_ok show_addr parse_addr (session_addr s)" "session_ok s"
    and "save_session show_addr vars flt s fs = (Inr (), fs')"
  shows "load_session parse_addr vars (Some (session_fingerprint s)) fs' = Some s \<and>
    load_session parse_addr vars None fs' = Some s"
  using assms by (rule save_load)

text \<open>
  C37. Saving a session is atomic under every failure: whichever calls fail and however much of a write reaches the
  disk, the session of every other server stays as it was, and the session being saved is the old one or the new
  one in full, never a mixture.
\<close>

theorem save_session_atomic:
  assumes "home_dir vars = Inr home" "addr_text_ok show_addr parse_addr (session_addr s)" "session_ok s"
    and "save_session show_addr vars flt s fs = (r, fs')"
  shows "load_session parse_addr vars (Some fp) fs' = load_session parse_addr vars (Some fp) fs \<or>
    fp = session_fingerprint s \<and> load_session parse_addr vars (Some fp) fs' = Some s"
proof -
  obtain dir where dir: "config_dir vars = Inr dir" using assms(1) by (simp add: config_dir_def)
  from save_session_effect(1) [OF dir assms(4), of fp] show ?thesis
  proof
    assume "fs' (session_path dir fp) = fs (session_path dir fp)"
    then show ?thesis by (simp add: load_session_def dir read_text_def read_file_def)
  next
    assume "fp = session_fingerprint s \<and>
      (\<exists>f. fs' (session_path dir fp) = Some f \<and> content f = as_bytes (session_text show_addr s))"
    then show ?thesis using load_after_write [OF dir assms(2,3)] by auto
  qed
qed

text \<open>A saved session of a server on the loopback interface, and a disk that fills up while it is written.\<close>

definition demo_stored :: stored_session where
  "demo_stored = \<lparr>session_addr = SocketV4 0x7f000001 7420, session_fingerprint = replicate 32 5,
     session_token = replicate 32 9, session_secret = Some (replicate 32 7)\<rparr>"

definition demo_vars :: env_vars where
  "demo_vars = \<lparr>HOME = Some ''/home/lab'', USERPROFILE = None\<rparr>"

definition demo_show :: "socket_addr \<Rightarrow> string" where
  "demo_show a = ''127.0.0.1:7420''"

definition demo_parse :: "string \<Rightarrow> socket_addr option" where
  "demo_parse t = (if t = ''127.0.0.1:7420'' then Some (SocketV4 0x7f000001 7420) else None)"

lemma demo_store_ok:
  "home_dir demo_vars = Inr ''/home/lab''" "addr_text_ok demo_show demo_parse (session_addr demo_stored)"
  "session_ok demo_stored"
  by (simp_all add: home_dir_def demo_vars_def addr_text_ok_def demo_show_def demo_parse_def demo_stored_def
      visible_def session_ok_def)

theorem save_load_session_witness:
  "load_session demo_parse demo_vars None (snd (save_session demo_show demo_vars no_faults demo_stored Map.empty)) = Some demo_stored"
proof -
  obtain fs' where "save_session demo_show demo_vars no_faults demo_stored Map.empty = (Inr (), fs')"
    using save_session_ok [OF demo_store_ok(1) no_faults_fails, of demo_show demo_stored Map.empty] by blast
  then have "save_session demo_show demo_vars no_faults demo_stored Map.empty =
      (Inr (), snd (save_session demo_show demo_vars no_faults demo_stored Map.empty))" by simp
  from save_load_session [OF demo_store_ok this] show ?thesis by blast
qed

definition disk_full :: faults where
  "disk_full = \<lparr>fails = (\<lambda>c. case c of WriteAll _ \<Rightarrow> Some (OtherIo ''no space'') | _ \<Rightarrow> None), torn = (\<lambda>_. 3)\<rparr>"

theorem save_session_atomic_witness:
  "load_session demo_parse demo_vars (Some [1]) (snd (save_session demo_show demo_vars disk_full demo_stored Map.empty)) =
   load_session demo_parse demo_vars (Some [1]) Map.empty"
proof -
  obtain r fs' where "save_session demo_show demo_vars disk_full demo_stored Map.empty = (r, fs')" by (metis surj_pair)
  moreover have "[1] \<noteq> session_fingerprint demo_stored" by (simp add: demo_stored_def numeral_eq_Suc)
  ultimately show ?thesis using save_session_atomic [OF demo_store_ok, of disk_full Map.empty r fs' "[1]"] by simp
qed

text \<open>
  The server keeps its identity: the certificate and key it started with are the ones it loads after a restart,
  whatever the generator would return then, and a client pinned to the fingerprint the server shows accepts its
  certificate and no other with a different digest.
\<close>

lemma identity_survives_restart:
  assumes "home_dir vars = Inr home" "fails flt = (\<lambda>_. None)"
    and "load_or_create_server_identity sha256 vars flt generated fs = (Inr (cert, key, fp), fs')"
  shows "load_or_create_server_identity sha256 vars flt' generated' fs' = (Inr (cert, key, fp), fs') \<and>
    (verify_pinned sha256 fp der = Inr () \<longleftrightarrow> sha256 der = sha256 cert)"
proof -
  obtain dir where dir: "identity_dir vars = Inr dir" using assms(1) by (simp add: identity_dir_def)
  have "load_identity sha256 vars fs' = Inr (cert, key, fp) \<and> fp = fingerprint_cert sha256 cert"
  proof (cases "load_identity sha256 vars fs")
    case (Inl e)
    with assms(3) obtain g: "generated = Some (cert, key)" and fp: "fp = fingerprint_cert sha256 cert"
      and fs': "fs' = snd (save_identity vars flt cert key fs)"
      by (auto simp: load_or_create_server_identity_def make_self_signed_def split: sum.splits option.splits)
    from save_identity_ok [OF dir assms(2), of cert key fs] fs' fp show ?thesis by (auto simp: load_identity_def dir)
  next
    case (Inr x)
    with assms(3) show ?thesis by (auto simp: load_or_create_server_identity_def load_identity_def dir)
  qed
  then show ?thesis
    by (auto simp: load_or_create_server_identity_def verify_pinned_def Let_def fingerprint_cert_def)
qed

lemma identity_survives_restart_example:
  "\<exists>fs. load_or_create_server_identity (\<lambda>b. take 1 b) demo_vars no_faults (Some ([7, 7], [8])) Map.empty =
      (Inr ([7, 7], [8], [7]), fs) \<and>
    load_or_create_server_identity (\<lambda>b. take 1 b) demo_vars no_faults (Some ([1], [2])) fs = (Inr ([7, 7], [8], [7]), fs)"
proof -
  have "load_identity (\<lambda>b. take 1 b) demo_vars Map.empty = Inl Gen"
    by (simp add: load_identity_def identity_dir_def home_dir_def demo_vars_def read_file_def)
  then obtain fs where "load_or_create_server_identity (\<lambda>b. take 1 b) demo_vars no_faults (Some ([7, 7], [8])) Map.empty =
      (Inr ([7, 7], [8], [7]), fs)"
    by (simp add: load_or_create_server_identity_def make_self_signed_def fingerprint_cert_def)
  moreover from identity_survives_restart [OF demo_store_ok(1) _ this]
  have "load_or_create_server_identity (\<lambda>b. take 1 b) demo_vars no_faults (Some ([1], [2])) fs = (Inr ([7, 7], [8], [7]), fs)"
    by (simp add: no_faults_def)
  ultimately show ?thesis by blast
qed

text \<open>
  The two files are not replaced together: when the key is written and the certificate is not, the next
  start loads the new key beside the old certificate.
\<close>

lemma identity_pair_torn:
  assumes "identity_dir vars = Inr dir" "fails flt = (\<lambda>c. if c = OpenFile (join_path dir ''cert.tmp'') then Some e else None)"
    and "read_file fs (join_path dir ''cert.der'') = Some old_cert"
  shows "load_identity sha256 vars (snd (save_identity vars flt cert key fs)) = Inr (old_cert, key, sha256 old_cert)"
proof -
  obtain fs1 where w1: "write_private_atomic flt 0x180 (join_path dir ''key.der'') key fs = (Inr (), fs1)"
    using assms(2) join_path_prefix [of dir "''key.tmp''"] join_path_prefix [of dir "''cert.tmp''"]
    by (simp add: write_private_atomic_def Let_def der_paths)
  have "write_private_atomic flt 0x1A4 (join_path dir ''cert.der'') cert fs1 = (Inl e, fs1)"
    using assms(2) by (simp add: write_private_atomic_def Let_def der_paths)
  then have "snd (save_identity vars flt cert key fs) = fs1" using assms(1,2) w1 by (simp add: save_identity_def)
  then show ?thesis
    using assms(1,3) write_private_atomic_effect [OF w1, unfolded der_paths]
    by (simp add: load_identity_def read_file_def join_path_prefix fingerprint_cert_def)
qed

end
