(* ===== verification/Discovery.thy ===== *)
theory Discovery
  imports Store
begin

text \<open>
  LAN discovery (\<^verbatim>\<open>crates/farbus-core/src/discovery.rs\<close>): the beacon a server broadcasts and what a client
  collects. The text form of addresses is a parameter; the UDP sockets are left out, a client is given the
  datagrams that arrive while it waits.
\<close>

section \<open>Model\<close>

definition BEACON_MAGIC :: bytes where
  "BEACON_MAGIC = as_bytes ''FARBD1''"

definition encode_beacon :: "(socket_addr \<Rightarrow> string) \<Rightarrow> fingerprint \<Rightarrow> socket_addr \<Rightarrow> string \<Rightarrow> bytes" where
  "encode_beacon show_addr fp listen host =
     (let addr = show_addr listen;
          addr_len = (case try_u8 (length addr) of Some n \<Rightarrow> n | None \<Rightarrow> 0);
          host_len = (case try_u8 (min (length host) 255) of Some n \<Rightarrow> n | None \<Rightarrow> 0)
      in BEACON_MAGIC @ fp @ [addr_len] @ take (unat addr_len) (as_bytes addr) @
         [host_len] @ take (unat host_len) (as_bytes host))"

text \<open>\<open>bytes.get(a..b)\<close> and \<open>std::str::from_utf8\<close>.\<close>

definition get_range :: "bytes \<Rightarrow> nat \<Rightarrow> nat \<Rightarrow> bytes option" where
  "get_range bs a b = (if a \<le> b \<and> b \<le> length bs then Some (take (b - a) (drop a bs)) else None)"

definition from_utf8 :: "bytes \<Rightarrow> string option" where
  "from_utf8 bs = (if valid_utf8 bs then Some (string_of_bytes bs) else None)"

definition get_byte :: "bytes \<Rightarrow> nat \<Rightarrow> u8 option" where
  "get_byte bs i = (if i < length bs then Some (bs ! i) else None)"

definition decode_beacon :: "(string \<Rightarrow> socket_addr option) \<Rightarrow> bytes \<Rightarrow> (fingerprint \<times> socket_addr \<times> string) option" where
  "decode_beacon parse_addr bs =
     (if length bs < length BEACON_MAGIC + 32 + 2 then None
      else if take (length BEACON_MAGIC) bs \<noteq> BEACON_MAGIC then None
      else let fp = take 32 (drop (length BEACON_MAGIC) bs);
               cur = length BEACON_MAGIC + 32
           in Option.bind (get_byte bs cur) (\<lambda>addr_len.
              Option.bind (get_range bs (cur + 1) (cur + 1 + unat addr_len)) (\<lambda>addr_bytes.
              Option.bind (from_utf8 addr_bytes) (\<lambda>addr.
              Option.bind (parse_addr addr) (\<lambda>listen.
              let cur2 = cur + 1 + unat addr_len
              in Option.bind (get_byte bs cur2) (\<lambda>host_len.
                 Option.bind (get_range bs (cur2 + 1) (cur2 + 1 + unat host_len)) (\<lambda>host_bytes.
                 Option.bind (from_utf8 host_bytes) (\<lambda>hostname.
                   Some (fp, listen, hostname)))))))))"

text \<open>One datagram of the loop in \<open>collect\<close>; the receive buffer has 512 bytes.\<close>

definition collect_step ::
    "(string \<Rightarrow> socket_addr option) \<Rightarrow> bytes \<Rightarrow> (fingerprint \<times> socket_addr \<times> string) list \<Rightarrow>
     (fingerprint \<times> socket_addr \<times> string) list" where
  "collect_step parse_addr datagram found =
     (case decode_beacon parse_addr (take 512 datagram) of
        None \<Rightarrow> found
      | Some entry \<Rightarrow> if list_ex (\<lambda>f. fst f = fst entry) found then found else found @ [entry])"

definition collect_beacons ::
    "(string \<Rightarrow> socket_addr option) \<Rightarrow> bytes list \<Rightarrow> (fingerprint \<times> socket_addr \<times> string) list" where
  "collect_beacons parse_addr datagrams = fold (collect_step parse_addr) datagrams []"

section \<open>Lemmas\<close>

lemma get_byte_append [simp]:
  "length a = n \<Longrightarrow> get_byte (a @ x # b) n = Some x"
  by (simp add: get_byte_def nth_append)

lemma get_range_append [simp]:
  "length a = n \<Longrightarrow> length x = m \<Longrightarrow> get_range (a @ x @ b) n (n + m) = Some x"
  by (simp add: get_range_def)

lemma decode_beacon_parts:
  assumes "length fp = 32" "length ab = unat al" "length hb = unat hl" "valid_utf8 ab"
    and "parse_addr (string_of_bytes ab) = Some listen"
  shows "decode_beacon parse_addr (BEACON_MAGIC @ fp @ [al] @ ab @ [hl] @ hb) =
    map_option (\<lambda>host. (fp, listen, host)) (from_utf8 hb)"
proof -
  define bs where "bs = BEACON_MAGIC @ fp @ [al] @ ab @ [hl] @ hb"
  have l: "length BEACON_MAGIC = 6" by (simp add: BEACON_MAGIC_def)
  have b1: "get_byte bs 38 = Some al"
    using get_byte_append [of "BEACON_MAGIC @ fp" 38 al "ab @ [hl] @ hb"] l assms(1) by (simp add: bs_def)
  have r1: "get_range bs 39 (39 + unat al) = Some ab"
    using get_range_append [of "BEACON_MAGIC @ fp @ [al]" 39 ab "unat al" "[hl] @ hb"] l assms(1,2) by (simp add: bs_def)
  have b2: "get_byte bs (39 + unat al) = Some hl"
    using get_byte_append [of "BEACON_MAGIC @ fp @ [al] @ ab" "39 + unat al" hl hb] l assms(1,2) by (simp add: bs_def)
  have r2: "get_range bs (40 + unat al) (40 + (unat al + unat hl)) = Some hb"
    using get_range_append [of "BEACON_MAGIC @ fp @ [al] @ ab @ [hl]" "40 + unat al" hb "unat hl" "[]"] l assms(1-3)
    by (simp add: bs_def add.assoc)
  have "take 6 bs = BEACON_MAGIC" "take 32 (drop 6 bs) = fp" "\<not> length bs < 40"
    using l assms(1) by (simp_all add: bs_def)
  then show ?thesis
    using b1 r1 b2 r2 assms(4,5) unfolding decode_beacon_def l bs_def [symmetric]
    by (simp add: from_utf8_def add.assoc)
qed

lemma collect_step_distinct:
  "distinct (map fst found) \<Longrightarrow> distinct (map fst (collect_step parse_addr d found))"
  by (auto simp: collect_step_def list_ex_iff split: option.splits)

text \<open>What the datagrams decode to.\<close>

definition heard :: "(string \<Rightarrow> socket_addr option) \<Rightarrow> bytes list \<Rightarrow> (fingerprint \<times> socket_addr \<times> string) set" where
  "heard parse_addr ds = {e. \<exists>d \<in> set ds. decode_beacon parse_addr (take 512 d) = Some e}"

lemma heard_Cons:
  "heard parse_addr (d # ds) = set_option (decode_beacon parse_addr (take 512 d)) \<union> heard parse_addr ds"
  by (auto simp: heard_def)

lemma collect_step_set:
  "fst ` set (collect_step parse_addr d found) = fst ` set_option (decode_beacon parse_addr (take 512 d)) \<union> fst ` set found"
  "set (collect_step parse_addr d found) \<subseteq> set_option (decode_beacon parse_addr (take 512 d)) \<union> set found"
  by (auto simp: collect_step_def list_ex_iff image_iff split: option.splits)

lemma collect_fold:
  assumes "distinct (map fst found)"
  shows "distinct (map fst (fold (collect_step parse_addr) ds found)) \<and>
     set (fold (collect_step parse_addr) ds found) \<subseteq> set found \<union> heard parse_addr ds \<and>
     fst ` set (fold (collect_step parse_addr) ds found) = fst ` set found \<union> fst ` heard parse_addr ds"
  using assms
proof (induction ds arbitrary: found)
  case (Cons d ds)
  note IH = Cons.IH [OF collect_step_distinct [OF Cons.prems, of parse_addr d]]
  from IH collect_step_set(2) [of parse_addr d found]
  have "set (fold (collect_step parse_addr) (d # ds) found) \<subseteq> set found \<union> heard parse_addr (d # ds)"
    unfolding heard_Cons by auto
  with IH show ?case by (simp add: heard_Cons collect_step_set(1) image_Un ac_simps)
qed (simp add: heard_def)

section \<open>Properties\<close>

text \<open>
  A beacon is read back as it was sent: fingerprint, address and host name, for every host name of at most
  255 bytes.
\<close>

lemma beacon_roundtrip:
  assumes "length fp = 32" "addr_text_ok show_addr parse_addr listen" "length (show_addr listen) \<le> 255"
    and "rust_str host" "length host \<le> 255"
  shows "decode_beacon parse_addr (encode_beacon show_addr fp listen host) = Some (fp, listen, host)"
proof -
  obtain al hl where al: "try_u8 (length (show_addr listen)) = Some al" and hl: "try_u8 (length host) = Some hl"
    using assms(3,5) by (cases "try_u8 (length (show_addr listen))"; cases "try_u8 (length host)") auto
  have u: "valid_utf8 (as_bytes (show_addr listen))"
    using assms(2) visible_bytes by (intro valid_utf8_ascii) (auto simp: addr_text_ok_def)
  have e: "encode_beacon show_addr fp listen host = BEACON_MAGIC @ fp @ [al] @ as_bytes (show_addr listen) @ [hl] @ as_bytes host"
    using al hl assms(5) by (simp add: encode_beacon_def min_def)
  show ?thesis
    unfolding e using decode_beacon_parts [of fp "as_bytes (show_addr listen)" al "as_bytes host" hl parse_addr listen]
      assms al hl u by (simp add: addr_text_ok_def rust_str_def from_utf8_def)
qed

lemma beacon_roundtrip_example:
  "decode_beacon demo_parse (encode_beacon demo_show (replicate 32 5) (SocketV4 0x7f000001 7420) ''lab'') =
     Some (replicate 32 5, SocketV4 0x7f000001 7420, ''lab'')"
  by (rule beacon_roundtrip)
     (simp_all add: addr_text_ok_def demo_show_def demo_parse_def visible_def rust_str_def as_bytes_def)

text \<open>
  Discovery lists every server that was heard exactly once, however many beacons arrive, in whatever order and
  among whatever other datagrams: the fingerprints found are those of the datagrams that decode, without
  repetition, and every entry is one that was received.
\<close>

lemma discovery_lists_each_server_once:
  "distinct (map fst (collect_beacons parse_addr ds)) \<and>
   set (collect_beacons parse_addr ds) \<subseteq> heard parse_addr ds \<and>
   fst ` set (collect_beacons parse_addr ds) = fst ` heard parse_addr ds"
  using collect_fold [of "[]" parse_addr ds] by (simp add: collect_beacons_def)

text \<open>A host name cut inside a character makes the whole beacon unreadable.\<close>

lemma beacon_host_name_cut:
  "decode_beacon demo_parse (encode_beacon demo_show (replicate 32 5) (SocketV4 0x7f000001 7420)
     (replicate 254 CHR ''a'' @ [CHR 0xC3, CHR 0xA9])) = None"
proof -
  have h: "as_bytes (replicate 254 CHR ''a'' @ [CHR 0xC3, CHR 0xA9]) = replicate 254 97 @ [0xC3, 0xA9]"
    by (simp add: as_bytes_def)
  have "\<not> valid_utf8 (replicate n 97 @ [0xC3])" for n by (induction n) simp_all
  then have "from_utf8 (replicate 254 97 @ [0xC3]) = None" by (simp add: from_utf8_def)
  moreover have "encode_beacon demo_show (replicate 32 5) (SocketV4 0x7f000001 7420)
      (replicate 254 CHR ''a'' @ [CHR 0xC3, CHR 0xA9]) =
      BEACON_MAGIC @ replicate 32 5 @ [14] @ as_bytes ''127.0.0.1:7420'' @ [255] @ replicate 254 97 @ [0xC3]"
    by (simp add: encode_beacon_def demo_show_def h try_u8_def)
  moreover have "valid_utf8 (as_bytes ''127.0.0.1:7420'')" by (simp add: as_bytes_def)
  ultimately show ?thesis
    using decode_beacon_parts [of "replicate 32 5" "as_bytes ''127.0.0.1:7420''" 14 "replicate 254 97 @ [0xC3]" 255
      demo_parse "SocketV4 0x7f000001 7420"]
    by (simp add: demo_parse_def)
qed

end
