(* ===== verification/Gui.thy ===== *)
theory Gui
  imports Connection Discovery Inventory
begin

text \<open>
  The state of the Windows client (\<^verbatim>\<open>crates/farbus-gui/src/lib.rs\<close>) and the actions behind its buttons
  (\<^verbatim>\<open>actions.rs\<close>). An action makes its calls over a \<open>network\<close> and works on the files of theory \<open>Store\<close>.
  Name resolution and the text form of addresses are parameters. Drawing the window (\<^verbatim>\<open>app.rs\<close>) is left out.
\<close>

section \<open>State and events\<close>

record discovered_server =
  srv_hostname :: string
  srv_addr :: socket_addr
  srv_fp :: fingerprint

record gui_device =
  dev_id :: device_id
  dev_bus_id :: string
  dev_product :: string
  dev_vid :: u16
  dev_pid :: u16
  attached :: bool

record gui_session =
  gs_addr :: socket_addr
  gs_fingerprint :: fingerprint

datatype gui_phase = GuiIdle | Scanning | GuiPairing | Ready | Forwarding | GuiError string

datatype gui_event =
    ScanStarted
  | ServersFound "discovered_server list"
  | ServerSelected fingerprint
  | PinChanged string
  | PairStarted
  | PairSucceeded socket_addr fingerprint
  | GuiPairRejected string
  | DevicesLoaded "gui_device list"
  | AttachSucceeded device_id string
  | DetachSucceeded device_id
  | UsbipListenRejected string
  | GuiFailed string
  | ManualHostChanged string
  | ManualFingerprintChanged string
  | ManualServerAdded
  | TrayHidden
  | TrayShown

record gui_state =
  phase :: gui_phase
  servers :: "discovered_server list"
  selected :: "fingerprint option"
  gui_devices :: "gui_device list"
  gui_session_of :: "gui_session option"
  gui_pin :: string
  manual_host :: string
  manual_fingerprint :: string
  usbip_listen :: socket_addr
  window_visible :: bool
  focus_requested :: bool

definition DEFAULT_USBIP :: socket_addr where
  "DEFAULT_USBIP = SocketV4 0x7f000001 3240"

definition gui_new :: gui_state where
  "gui_new = \<lparr>phase = GuiIdle, servers = [], selected = None, gui_devices = [], gui_session_of = None, gui_pin = [],
     manual_host = [], manual_fingerprint = [], usbip_listen = DEFAULT_USBIP, window_visible = True,
     focus_requested = False\<rparr>"

text \<open>The middle dot and the ellipsis are two and three bytes of UTF-8.\<close>

definition public_status :: "(socket_addr \<Rightarrow> string) \<Rightarrow> gui_state \<Rightarrow> string" where
  "public_status show_addr st =
     (case phase st of
        GuiIdle \<Rightarrow> if gui_session_of st = None then ''Not paired''
                   else ''Paired '' @ [CHR 0xC2, CHR 0xB7] @ '' USB/IP '' @ show_addr (usbip_listen st)
      | Ready \<Rightarrow> ''Paired '' @ [CHR 0xC2, CHR 0xB7] @ '' USB/IP '' @ show_addr (usbip_listen st)
      | Scanning \<Rightarrow> ''Scanning LAN'' @ [CHR 0xE2, CHR 0x80, CHR 0xA6]
      | GuiPairing \<Rightarrow> ''Pairing'' @ [CHR 0xE2, CHR 0x80, CHR 0xA6]
      | Forwarding \<Rightarrow> ''Forwarding '' @ [CHR 0xC2, CHR 0xB7] @ '' '' @ show_addr (usbip_listen st)
      | GuiError err \<Rightarrow> err)"

definition take_focus_request :: "gui_state \<Rightarrow> bool \<times> gui_state" where
  "take_focus_request st = (focus_requested st, st\<lparr>focus_requested := False\<rparr>)"

section \<open>Text fields\<close>

definition is_ascii_digit :: "char \<Rightarrow> bool" where
  "is_ascii_digit c = (let n = of_char c :: nat in 48 \<le> n \<and> n \<le> 57)"

definition is_ascii_hexdigit :: "char \<Rightarrow> bool" where
  "is_ascii_hexdigit c = (let n = of_char c :: nat in 48 \<le> n \<and> n \<le> 57 \<or> 65 \<le> n \<and> n \<le> 70 \<or> 97 \<le> n \<and> n \<le> 102)"

definition is_ascii_alphabetic :: "char \<Rightarrow> bool" where
  "is_ascii_alphabetic c = (let n = of_char c :: nat in 65 \<le> n \<and> n \<le> 90 \<or> 97 \<le> n \<and> n \<le> 122)"

definition sanitize_pin :: "string \<Rightarrow> string" where
  "sanitize_pin raw = take 6 (filter is_ascii_digit raw)"

definition sanitize_fingerprint :: "string \<Rightarrow> string" where
  "sanitize_fingerprint fp = take 64 (filter is_ascii_hexdigit fp)"

fun contains_pair :: "char \<Rightarrow> char \<Rightarrow> string \<Rightarrow> bool" where
  "contains_pair a b (c # d # cs) = (c = a \<and> d = b \<or> contains_pair a b (d # cs))"
| "contains_pair a b _ = False"

definition host_has_port :: "string \<Rightarrow> bool" where
  "host_has_port host =
     (case host of
        CHR ''['' # rest \<Rightarrow> contains_pair (CHR '']'') (CHR '':'') rest
      | _ \<Rightarrow> CHR '':'' \<in> set host)"

text \<open>\<open>host.split([':', ']'])\<close>.\<close>

fun split_host :: "string \<Rightarrow> string \<Rightarrow> string list" where
  "split_host acc [] = [rev acc]"
| "split_host acc (c # cs) =
     (if c = CHR '':'' \<or> c = CHR '']'' then rev acc # split_host [] cs else split_host (c # acc) cs)"

definition display_hostname :: "string \<Rightarrow> string" where
  "display_hostname host =
     (case find (\<lambda>part. part \<noteq> [] \<and> list_ex is_ascii_alphabetic part) (split_host [] host) of
        Some part \<Rightarrow> part
      | None \<Rightarrow> ''manual'')"

text \<open>\<open>resolve\<close> is \<open>to_socket_addrs\<close>: the addresses or the text of the error.\<close>

type_synonym resolver = "string \<Rightarrow> string + socket_addr list"

definition resolve_server_addr :: "(string \<Rightarrow> socket_addr option) \<Rightarrow> resolver \<Rightarrow> string \<Rightarrow> string + socket_addr" where
  "resolve_server_addr parse_addr resolve host =
     (case parse_addr host of
        Some a \<Rightarrow> Inr a
      | None \<Rightarrow>
          let candidate = (if host_has_port host then host else host @ '':7420'')
          in case resolve candidate of
               Inl err \<Rightarrow> Inl (''could not resolve '' @ candidate @ '': '' @ err)
             | Inr [] \<Rightarrow> Inl (''could not resolve '' @ candidate)
             | Inr (a # _) \<Rightarrow> Inr a)"

definition parse_manual_server ::
    "(string \<Rightarrow> socket_addr option) \<Rightarrow> resolver \<Rightarrow> string \<Rightarrow> string \<Rightarrow> string + discovered_server" where
  "parse_manual_server parse_addr resolve host fp =
     (let h = trim host
      in if h = [] then Inl ''enter the server Tailscale name or IP:7420''
         else bind_res (resolve_server_addr parse_addr resolve h) (\<lambda>a.
              let f = trim fp
              in bind_res (if f = [] then Inr (replicate 32 0)
                           else case fingerprint_from_str f of
                                  Inr x \<Rightarrow> Inr x
                                | Inl _ \<Rightarrow> Inl ''fingerprint must be 64 hex characters from the Linux server'') (\<lambda>x.
                 Inr \<lparr>srv_hostname = display_hostname h, srv_addr = a, srv_fp = x\<rparr>)))"

section \<open>Applying an event\<close>

fun merge_server :: "discovered_server \<Rightarrow> discovered_server list \<Rightarrow> discovered_server list" where
  "merge_server server [] = [server]"
| "merge_server server (existing # rest) =
     (if srv_fp existing = srv_fp server then server # rest else existing # merge_server server rest)"

definition merge_servers :: "discovered_server list \<Rightarrow> discovered_server list \<Rightarrow> discovered_server list" where
  "merge_servers incoming known = fold merge_server incoming known"

definition gui_apply :: "(string \<Rightarrow> socket_addr option) \<Rightarrow> resolver \<Rightarrow> gui_event \<Rightarrow> gui_state \<Rightarrow> gui_state" where
  "gui_apply parse_addr resolve event st =
     (case event of
        ScanStarted \<Rightarrow> st\<lparr>phase := Scanning\<rparr>
      | ServersFound found \<Rightarrow>
          (let st1 = st\<lparr>servers := merge_servers found (servers st)\<rparr>
           in if phase st1 = Scanning then st1\<lparr>phase := GuiIdle\<rparr> else st1)
      | ServerSelected fp \<Rightarrow> st\<lparr>selected := Some fp\<rparr>
      | PinChanged raw \<Rightarrow> st\<lparr>gui_pin := sanitize_pin raw\<rparr>
      | PairStarted \<Rightarrow>
          if length (gui_pin st) = 6 then st\<lparr>phase := GuiPairing\<rparr>
          else st\<lparr>phase := GuiError ''enter the 6-digit PIN from the server''\<rparr>
      | PairSucceeded a fp \<Rightarrow>
          st\<lparr>gui_pin := [], selected := Some fp, gui_session_of := Some \<lparr>gs_addr = a, gs_fingerprint = fp\<rparr>, phase := Ready\<rparr>
      | GuiPairRejected reason \<Rightarrow> st\<lparr>phase := GuiError reason\<rparr>
      | GuiFailed reason \<Rightarrow> st\<lparr>phase := GuiError reason\<rparr>
      | DevicesLoaded devs \<Rightarrow>
          (let st1 = st\<lparr>gui_devices := devs\<rparr>
           in if gui_session_of st1 \<noteq> None \<and> phase st1 \<noteq> Forwarding then st1\<lparr>phase := Ready\<rparr> else st1)
      | AttachSucceeded did bus \<Rightarrow>
          st\<lparr>gui_devices := map (\<lambda>d. let d1 = d\<lparr>attached := (dev_id d = did)\<rparr>
                                     in if dev_id d = did then d1\<lparr>dev_bus_id := bus\<rparr> else d1) (gui_devices st),
             phase := Forwarding\<rparr>
      | DetachSucceeded did \<Rightarrow>
          (let devs = map (\<lambda>d. if dev_id d = did then d\<lparr>attached := False\<rparr> else d) (gui_devices st)
           in st\<lparr>gui_devices := devs, phase := (if list_ex attached devs then Forwarding else Ready)\<rparr>)
      | UsbipListenRejected _ \<Rightarrow> st\<lparr>phase := GuiError ''USB/IP listener must use a loopback address''\<rparr>
      | ManualHostChanged host \<Rightarrow> st\<lparr>manual_host := host\<rparr>
      | ManualFingerprintChanged fp \<Rightarrow> st\<lparr>manual_fingerprint := sanitize_fingerprint fp\<rparr>
      | ManualServerAdded \<Rightarrow>
          (case parse_manual_server parse_addr resolve (manual_host st) (manual_fingerprint st) of
             Inl err \<Rightarrow> st\<lparr>phase := GuiError err\<rparr>
           | Inr server \<Rightarrow>
               let st1 = (if list_ex (\<lambda>e. srv_fp e = srv_fp server) (servers st) then st
                          else st\<lparr>servers := servers st @ [server]\<rparr>);
                   st2 = st1\<lparr>selected := Some (srv_fp server)\<rparr>
               in (case phase st2 of
                     GuiError _ \<Rightarrow> st2\<lparr>phase := GuiIdle\<rparr>
                   | GuiIdle \<Rightarrow> st2\<lparr>phase := GuiIdle\<rparr>
                   | Scanning \<Rightarrow> st2\<lparr>phase := GuiIdle\<rparr>
                   | _ \<Rightarrow> st2))
      | TrayHidden \<Rightarrow> st\<lparr>window_visible := False, focus_requested := False\<rparr>
      | TrayShown \<Rightarrow> st\<lparr>window_visible := True, focus_requested := True\<rparr>)"

definition gui_run :: "(string \<Rightarrow> socket_addr option) \<Rightarrow> resolver \<Rightarrow> gui_event list \<Rightarrow> gui_state" where
  "gui_run parse_addr resolve events = fold (gui_apply parse_addr resolve) events gui_new"

section \<open>Actions\<close>

text \<open>The display strings of errors are kept as the errors they print.\<close>

datatype action_error =
    ErrText string
  | ErrClient client_error
  | ErrIo io_error

definition restore_session :: "(string \<Rightarrow> socket_addr option) \<Rightarrow> env_vars \<Rightarrow> fs \<Rightarrow> gui_session option" where
  "restore_session parse_addr vars fs =
     map_option (\<lambda>saved. \<lparr>gs_addr = session_addr saved, gs_fingerprint = session_fingerprint saved\<rparr>)
       (load_session parse_addr vars None fs)"

text \<open>\<open>datagrams\<close> is what the UDP socket received in three seconds, or its error.\<close>

definition scan_servers :: "(string \<Rightarrow> socket_addr option) \<Rightarrow> io_error + bytes list \<Rightarrow> action_error + discovered_server list" where
  "scan_servers parse_addr datagrams =
     (case datagrams of
        Inl e \<Rightarrow> Inl (ErrIo e)
      | Inr ds \<Rightarrow> Inr (map (\<lambda>(fp, a, host). \<lparr>srv_hostname = host, srv_addr = a, srv_fp = fp\<rparr>)
                       (collect_beacons parse_addr ds)))"

text \<open>\<open>handshake\<close> is the outcome of a TLS handshake with the observing verifier: the certificate it was shown, if any.\<close>

definition probe_server ::
    "(bytes \<Rightarrow> bytes) \<Rightarrow> (string \<Rightarrow> socket_addr option) \<Rightarrow> resolver \<Rightarrow> (socket_addr \<Rightarrow> string + bytes option) \<Rightarrow> string \<Rightarrow>
     action_error + discovered_server" where
  "probe_server sha256 parse_addr resolve handshake host =
     (case parse_manual_server parse_addr resolve host [] of
        Inl err \<Rightarrow> Inl (ErrText err)
      | Inr draft \<Rightarrow>
          (case handshake (srv_addr draft) of
             Inl err \<Rightarrow> Inl (ErrText err)
           | Inr cert \<Rightarrow>
               (case (case cert of None \<Rightarrow> None | Some der \<Rightarrow> snd (verify_observing sha256 der None)) of
                  None \<Rightarrow> Inl (ErrText ''server did not present a certificate'')
                | Some fp \<Rightarrow> Inr \<lparr>srv_hostname = srv_hostname draft, srv_addr = srv_addr draft, srv_fp = fp\<rparr>)))"

definition pair_server ::
    "(bytes \<Rightarrow> bytes) \<Rightarrow> (socket_addr \<Rightarrow> string) \<Rightarrow> env_vars \<Rightarrow> faults \<Rightarrow> network \<Rightarrow> bool \<Rightarrow> bool \<Rightarrow> socket_addr \<Rightarrow> fingerprint \<Rightarrow>
     string \<Rightarrow> fs \<Rightarrow> (action_error + gui_session) \<times> fs" where
  "pair_server sha256 show_addr vars flt net late panicked a fp pin fs =
     (if length pin \<noteq> 6 \<or> \<not> list_all is_ascii_digit pin
      then (Inl (ErrText ''enter the 6-digit PIN from the server''), fs)
      else case happy_eyeballs_connect sha256 (\<lambda>_. net) (\<lambda>_. late) (\<lambda>_. panicked) [0] [a] fp of
             Inl err \<Rightarrow> (Inl (ErrClient err), fs)
           | Inr c \<Rightarrow>
               (case client_pair sha256 (answers net [Dialled, Asked (hello_cmd c)]) pin fp c of
                  (Inl _, c1) \<Rightarrow> (Inl (ErrText ''pairing rejected''), fs)
                | (Inr _, c1) \<Rightarrow>
                    (case auth_token c1 of
                       None \<Rightarrow> (Inl (ErrText ''server did not issue token''), fs)
                     | Some token \<Rightarrow>
                         (case save_session show_addr vars flt
                                 \<lparr>session_addr = a, session_fingerprint = fp, session_token = token,
                                  session_secret = Some (identity_secret c1)\<rparr> fs of
                            (Inl e, fs1) \<Rightarrow> (Inl (ErrIo e), fs1)
                          | (Inr _, fs1) \<Rightarrow> (Inr \<lparr>gs_addr = a, gs_fingerprint = fp\<rparr>, fs1)))))"

definition connect_session ::
    "(bytes \<Rightarrow> bytes) \<Rightarrow> (string \<Rightarrow> socket_addr option) \<Rightarrow> env_vars \<Rightarrow> network \<Rightarrow> gui_session \<Rightarrow> fs \<Rightarrow>
     (action_error + farbus_client) \<times> history" where
  "connect_session sha256 parse_addr vars net sess fs =
     (case load_session parse_addr vars (Some (gs_fingerprint sess)) fs of
        None \<Rightarrow> (Inl (ErrText ''run pairing first''), [])
      | Some saved \<Rightarrow>
          (case map_option (from_secret sha256) (session_secret saved) of
             None \<Rightarrow> (Inl (ErrText ''run pairing first''), [])
           | Some ident \<Rightarrow>
               (case connect_with_identity net (gs_addr sess) (session_fingerprint saved) ident [] of
                  (Inl err, h) \<Rightarrow> (Inl (ErrClient err), h)
                | (Inr c, h) \<Rightarrow> (Inr (with_auth_token (session_token saved) c), h))))"

definition to_gui_device :: "device_info \<Rightarrow> device_id option \<Rightarrow> gui_device" where
  "to_gui_device i att =
     \<lparr>dev_id = info_id i, dev_bus_id = bus_id i, dev_product = product i, dev_vid = vid i, dev_pid = pid i,
      attached = (att = Some (info_id i))\<rparr>"

definition load_devices ::
    "(bytes \<Rightarrow> bytes) \<Rightarrow> (string \<Rightarrow> socket_addr option) \<Rightarrow> env_vars \<Rightarrow> network \<Rightarrow> gui_session \<Rightarrow> device_id option \<Rightarrow> fs \<Rightarrow>
     (action_error + gui_device list) \<times> history" where
  "load_devices sha256 parse_addr vars net sess att fs =
     (case connect_session sha256 parse_addr vars net sess fs of
        (Inl e, h) \<Rightarrow> (Inl e, h)
      | (Inr c, h) \<Rightarrow>
          (case fw_devices net c h of
             (Inl err, h1) \<Rightarrow> (Inl (ErrClient err), h1)
           | (Inr l, h1) \<Rightarrow> (Inr (map (\<lambda>i. to_gui_device i att) l), h1)))"

definition attach_device ::
    "(bytes \<Rightarrow> bytes) \<Rightarrow> (string \<Rightarrow> socket_addr option) \<Rightarrow> env_vars \<Rightarrow> network \<Rightarrow> gui_session \<Rightarrow> device_id \<Rightarrow> socket_addr \<Rightarrow> fs \<Rightarrow>
     (action_error + (string \<times> farbus_client \<times> local_device list)) \<times> history" where
  "attach_device sha256 parse_addr vars net sess did listen fs =
     (if loopback_usbip listen = None then (Inl (ErrText ''USB/IP listener must use a loopback address''), [])
      else case connect_session sha256 parse_addr vars net sess fs of
             (Inl e, h) \<Rightarrow> (Inl e, h)
           | (Inr c, h) \<Rightarrow>
               (case fw_attach net c did h of
                  (Inl _, h1) \<Rightarrow> (Inl (ErrText ''attach rejected''), h1)
                | (Inr att, h1) \<Rightarrow>
                    (case fw_devices net c h1 of
                       (Inl err, h2) \<Rightarrow> (Inl (ErrClient err), h2)
                     | (Inr l, h2) \<Rightarrow>
                         (Inr (attached_bus_id att, c, map (\<lambda>i. \<lparr>info = i, backend = Emulated\<rparr>) l), h2))))"

definition detach_device ::
    "(bytes \<Rightarrow> bytes) \<Rightarrow> (string \<Rightarrow> socket_addr option) \<Rightarrow> env_vars \<Rightarrow> network \<Rightarrow> gui_session \<Rightarrow> device_id \<Rightarrow> fs \<Rightarrow>
     (action_error + unit) \<times> history" where
  "detach_device sha256 parse_addr vars net sess did fs =
     (case connect_session sha256 parse_addr vars net sess fs of
        (Inl e, h) \<Rightarrow> (Inl e, h)
      | (Inr c, h) \<Rightarrow>
          (case fw_detach net c did h of
             (Inl err, h1) \<Rightarrow> (Inl (ErrClient err), h1)
           | (Inr _, h1) \<Rightarrow> (Inr (), h1)))"

section \<open>Lemmas\<close>

lemma merge_server_fps:
  "set (map srv_fp (merge_server server known)) = insert (srv_fp server) (set (map srv_fp known))"
  "distinct (map srv_fp known) \<Longrightarrow> distinct (map srv_fp (merge_server server known))"
proof -
  show s: "set (map srv_fp (merge_server server known)) = insert (srv_fp server) (set (map srv_fp known))" for known
    by (induction known) auto
  show "distinct (map srv_fp known) \<Longrightarrow> distinct (map srv_fp (merge_server server known))"
    by (induction known) (use s in auto)
qed

lemma merge_servers_distinct: "distinct (map srv_fp known) \<Longrightarrow> distinct (map srv_fp (merge_servers found known))"
  unfolding merge_servers_def by (induction found arbitrary: known) (auto simp: merge_server_fps(2))

text \<open>What every state of the window satisfies.\<close>

definition gui_inv :: "gui_state \<Rightarrow> bool" where
  "gui_inv st \<longleftrightarrow>
     length (gui_pin st) \<le> 6 \<and> list_all is_ascii_digit (gui_pin st) \<and>
     length (manual_fingerprint st) \<le> 64 \<and> list_all is_ascii_hexdigit (manual_fingerprint st) \<and>
     distinct (map srv_fp (servers st)) \<and> is_loopback (usbip_listen st)"

lemma list_all_take_filter: "list_all P (take n (filter P xs))"
  by (auto simp: list_all_iff dest: in_set_takeD)

lemma gui_inv_new: "gui_inv gui_new"
  by (simp add: gui_inv_def gui_new_def DEFAULT_USBIP_def drop_bit_eq_div)

lemma gui_inv_apply:
  assumes "gui_inv st"
  shows "gui_inv (gui_apply parse_addr resolve event st)"
  using assms merge_servers_distinct [of "servers st"]
  by (cases event)
     (auto simp: gui_apply_def gui_inv_def sanitize_pin_def sanitize_fingerprint_def list_all_take_filter Let_def list_ex_iff
       split: sum.splits gui_phase.splits)

lemma gui_inv_run: "gui_inv (fold (gui_apply parse_addr resolve) events st)" if "gui_inv st"
  using that by (induction events arbitrary: st) (auto simp: gui_inv_apply)

text \<open>Pairing over the race with one address.\<close>

lemma happy_single:
  assumes "happy_eyeballs_connect sha256 (\<lambda>_. net) late panicked [0] [a] fp = Inr c"
  shows "c = \<lparr>client_identity = generate sha256 (drawn net []), auth_token = None, server_addr = a, expected = fp\<rparr>"
proof -
  have "connection_order [a] = [a]" by (cases a) (simp_all add: connection_order_def)
  with assms obtain h where "client_connect sha256 net a fp [] = (Inr c, h)"
    by (cases "client_connect sha256 net a fp []")
       (auto simp: happy_eyeballs_connect_def candidate_outcome_def split: if_splits sum.splits)
  then show ?thesis by (rule client_connect_client)
qed

lemma pair_server_saved:
  assumes "pair_server sha256 show_addr vars flt net late panicked a fp pin fs = (Inr sess, fs')"
  obtains c r where
    "c = \<lparr>client_identity = generate sha256 (drawn net []), auth_token = None, server_addr = a, expected = fp\<rparr>"
    "answers net [Dialled, Asked (hello_cmd c)] (ControlCmd (PairRequest
       \<lparr>client_fingerprint = id_fingerprint (client_identity c), pin_hash = hash_pin sha256 pin fp,
        client_name = ''farbus-client''\<rparr>)) = Inr (MessageAnswer (PairResponse r))"
    "pair_success r" "sess = \<lparr>gs_addr = a, gs_fingerprint = fp\<rparr>"
    "save_session show_addr vars flt \<lparr>session_addr = a, session_fingerprint = fp, session_token = pair_auth_token r,
       session_secret = Some (drawn net [])\<rparr> fs = (Inr (), fs')"
proof -
  from assms obtain c where c: "happy_eyeballs_connect sha256 (\<lambda>_. net) (\<lambda>_. late) (\<lambda>_. panicked) [0] [a] fp = Inr c"
    by (auto simp: pair_server_def split: if_splits sum.splits)
  note ceq = happy_single [OF c]
  let ?ask = "answers net [Dialled, Asked (hello_cmd c)]"
  let ?req = "ControlCmd (PairRequest \<lparr>client_fingerprint = id_fingerprint (client_identity c),
    pin_hash = hash_pin sha256 pin fp, client_name = ''farbus-client''\<rparr>)"
  from assms c have "\<exists>c1. client_pair sha256 ?ask pin fp c = (Inr (), c1)"
    by (cases "client_pair sha256 ?ask pin fp c") (auto simp: pair_server_def split: if_splits sum.splits)
  then obtain r where r: "?ask ?req = Inr (MessageAnswer (PairResponse r))" "pair_success r"
    by (auto simp: client_pair_def split: sum.splits answer.splits message.splits if_splits)
  then have p: "client_pair sha256 ?ask pin fp c = (Inr (), c\<lparr>auth_token := Some (pair_auth_token r)\<rparr>)"
    by (simp add: client_pair_def)
  have sec: "id_secret (client_identity c) = drawn net []" by (simp add: ceq generate_def Let_def)
  obtain r2 fs2 where sv: "save_session show_addr vars flt \<lparr>session_addr = a, session_fingerprint = fp,
      session_token = pair_auth_token r, session_secret = Some (drawn net [])\<rparr> fs = (r2, fs2)" by (metis surj_pair)
  have "sess = \<lparr>gs_addr = a, gs_fingerprint = fp\<rparr> \<and> r2 = Inr () \<and> fs2 = fs'"
    using assms c p sv by (auto simp: pair_server_def sec split: if_splits sum.splits)
  with that [OF ceq r] sv show thesis by simp
qed

section \<open>Properties\<close>

text \<open>
  Whatever the user does and whatever the network reports, in whatever order, the window's state is sound: the PIN
  field holds at most six digits, the fingerprint field at most 64 hex digits, no server is listed twice, and the
  address the USB/IP listener would use is a loopback address.
\<close>

lemma gui_state_sound: "gui_inv (gui_run parse_addr resolve events)"
  unfolding gui_run_def by (rule gui_inv_run [OF gui_inv_new])

text \<open>
  Pairing lasts: after the GUI has paired with a server and saved the session, every later action that connects
  with the saved session presents the identity that was paired and the token the server issued to it.
\<close>

lemma pairing_is_reusable:
  assumes "home_dir vars = Inr home" "addr_text_ok show_addr parse_addr a" "length fp = 32" "length (drawn net []) = 32"
    and "pair_server sha256 show_addr vars flt net late panicked a fp pin fs = (Inr sess, fs')"
    and "\<forall>h q r. answers net h q = Inr (MessageAnswer (PairResponse r)) \<longrightarrow> length (pair_auth_token r) = 32"
    and "connect_session sha256 parse_addr vars net' sess fs' = (Inr c, h)"
  shows "\<exists>h0 q r. answers net h0 (ControlCmd (PairRequest q)) = Inr (MessageAnswer (PairResponse r)) \<and> pair_success r \<and>
    client_fingerprint q = id_fingerprint (client_identity c) \<and> auth_token c = Some (pair_auth_token r) \<and>
    server_addr c = a \<and> expected c = fp"
proof -
  from assms(5) obtain c0 r where c0: "c0 = \<lparr>client_identity = generate sha256 (drawn net []), auth_token = None,
      server_addr = a, expected = fp\<rparr>"
    and r: "answers net [Dialled, Asked (hello_cmd c0)] (ControlCmd (PairRequest
       \<lparr>client_fingerprint = id_fingerprint (client_identity c0), pin_hash = hash_pin sha256 pin fp,
        client_name = ''farbus-client''\<rparr>)) = Inr (MessageAnswer (PairResponse r))" "pair_success r"
    and sess: "sess = \<lparr>gs_addr = a, gs_fingerprint = fp\<rparr>"
    and sv: "save_session show_addr vars flt \<lparr>session_addr = a, session_fingerprint = fp, session_token = pair_auth_token r,
       session_secret = Some (drawn net [])\<rparr> fs = (Inr (), fs')"
    by (rule pair_server_saved)
  let ?s = "\<lparr>session_addr = a, session_fingerprint = fp, session_token = pair_auth_token r, session_secret = Some (drawn net [])\<rparr>"
  have "session_ok ?s" using assms(3,4,6) r(1) by (auto simp: session_ok_def)
  then have l: "load_session parse_addr vars (Some fp) fs' = Some ?s"
    using save_load [OF assms(1) _ _ sv] assms(2) by simp
  have "c = with_auth_token (pair_auth_token r) \<lparr>client_identity = from_secret sha256 (drawn net []), auth_token = None,
      server_addr = a, expected = fp\<rparr>"
    using assms(7) connect_success [of net' a fp "from_secret sha256 (drawn net [])" "[]"]
    by (auto simp: connect_session_def sess l split: prod.splits sum.splits)
  then have c: "id_fingerprint (client_identity c) = id_fingerprint (client_identity c0)"
    "auth_token c = Some (pair_auth_token r)" "server_addr c = a" "expected c = fp"
    by (simp_all add: c0 with_auth_token_def generate_def from_secret_def Let_def)
  show ?thesis
    by (rule exI [of _ "[Dialled, Asked (hello_cmd c0)]"], rule exI, rule exI [of _ r]) (use r c in \<open>auto intro!: exI\<close>)
qed

text \<open>A server that accepts the PIN.\<close>

definition pairing_network :: network where
  "pairing_network =
     \<lparr>dial = (\<lambda>h a fp. Inr ()),
      answers = (\<lambda>h q. case q of
        ControlCmd m \<Rightarrow> (case m of
            Hello x \<Rightarrow> Inr (MessageAnswer (Hello x))
          | PairRequest q \<Rightarrow> Inr (MessageAnswer (PairResponse
              \<lparr>pair_success = True, server_fingerprint = replicate 32 5, pair_auth_token = replicate 32 9\<rparr>))
          | _ \<Rightarrow> Inl Closed)
      | _ \<Rightarrow> Inl Closed),
      drawn = (\<lambda>h. replicate 32 7)\<rparr>"

lemma pairing_is_reusable_example:
  "\<exists>sess fs c h. pair_server (\<lambda>b. b) demo_show demo_vars no_faults pairing_network False False (SocketV4 0x7f000001 7420)
      (replicate 32 5) ''482910'' Map.empty = (Inr sess, fs) \<and>
    connect_session (\<lambda>b. b) demo_parse demo_vars pairing_network sess fs = (Inr c, h) \<and>
    auth_token c = Some (replicate 32 9) \<and> expected c = replicate 32 5"
proof -
  let ?a = "SocketV4 0x7f000001 7420" and ?fp = "replicate 32 5 :: bytes" and ?net = pairing_network
  let ?c = "\<lparr>client_identity = generate (\<lambda>b. b) (replicate 32 7), auth_token = None, server_addr = ?a, expected = ?fp\<rparr>"
  let ?s = "\<lparr>session_addr = ?a, session_fingerprint = ?fp, session_token = replicate 32 9, session_secret = Some (replicate 32 7)\<rparr>"
  have a: "addr_text_ok demo_show demo_parse ?a" using demo_store_ok(2) by (simp add: demo_stored_def)
  have conn: "connect_with_identity ?net x y i [] = (Inr \<lparr>client_identity = i, auth_token = None, server_addr = x, expected = y\<rparr>,
      [Dialled, Asked (hello_cmd \<lparr>client_identity = i, auth_token = None, server_addr = x, expected = y\<rparr>)])" for x y i
    by (simp add: connect_with_identity_def pairing_network_def client_hello_def Let_def)
  have d: "drawn ?net h = replicate 32 7" for h by (simp add: pairing_network_def)
  have "connection_order [?a] = [?a]" by (simp add: connection_order_def)
  then have he: "happy_eyeballs_connect (\<lambda>b. b) (\<lambda>_. ?net) (\<lambda>_. False) (\<lambda>_. False) [0] [?a] ?fp = Inr ?c"
    by (simp add: happy_eyeballs_connect_def candidate_outcome_def client_connect_def conn d)
  have cp: "client_pair (\<lambda>b. b) (answers ?net [Dialled, Asked (hello_cmd ?c)]) ''482910'' ?fp ?c =
      (Inr (), ?c\<lparr>auth_token := Some (replicate 32 9)\<rparr>)"
    by (simp add: client_pair_def pairing_network_def)
  obtain fs where sv: "save_session demo_show demo_vars no_faults ?s Map.empty = (Inr (), fs)"
    using save_session_ok [OF demo_store_ok(1) no_faults_fails, of demo_show "?s" Map.empty] by blast
  have sec: "id_secret (client_identity (?c\<lparr>auth_token := Some (replicate 32 9)\<rparr>)) = replicate 32 7"
    by (simp add: generate_def Let_def)
  have pin: "length ''482910'' = 6" "list_all is_ascii_digit ''482910''" by (simp_all add: is_ascii_digit_def)
  have ps: "pair_server (\<lambda>b. b) demo_show demo_vars no_faults ?net False False ?a ?fp ''482910'' Map.empty =
      (Inr \<lparr>gs_addr = ?a, gs_fingerprint = ?fp\<rparr>, fs)"
    unfolding pair_server_def he sum.case cp prod.case sec using pin sv by simp
  have "load_session demo_parse demo_vars (Some ?fp) fs = Some ?s"
    using save_load [OF demo_store_ok(1) _ _ sv] a by (simp add: session_ok_def)
  then obtain c h where cs: "connect_session (\<lambda>b. b) demo_parse demo_vars ?net \<lparr>gs_addr = ?a, gs_fingerprint = ?fp\<rparr> fs = (Inr c, h)"
    by (simp add: connect_session_def conn)
  have tok: "\<forall>h q r. answers ?net h q = Inr (MessageAnswer (PairResponse r)) \<longrightarrow> pair_auth_token r = replicate 32 9"
    by (auto simp: pairing_network_def split: client_cmd.splits message.splits)
  then have "\<forall>h q r. answers ?net h q = Inr (MessageAnswer (PairResponse r)) \<longrightarrow> length (pair_auth_token r) = 32" by simp
  from pairing_is_reusable [OF demo_store_ok(1) a _ _ ps this cs] tok
  have "auth_token c = Some (replicate 32 9) \<and> expected c = ?fp" by (auto simp: d)
  with ps cs show ?thesis by blast
qed

end
