(* ===== verification/Cli.thy ===== *)
theory Cli
  imports Gui
begin

text \<open>
  The commands of the command-line client (\<^verbatim>\<open>crates/farbus-client/src/main.rs\<close>). What they print is in theory
  \<open>Cli_Main\<close>, and \<open>attach\<close> ends where the forwarder of theory \<open>Usbip_Forward\<close> takes over.
\<close>

section \<open>Model\<close>

definition require_connect :: "socket_addr option \<Rightarrow> action_error + socket_addr" where
  "require_connect connect = ok_or (ErrText ''pass --connect <addr:port>'') connect"

definition connect_saved ::
    "(bytes \<Rightarrow> bytes) \<Rightarrow> (string \<Rightarrow> socket_addr option) \<Rightarrow> env_vars \<Rightarrow> network \<Rightarrow> socket_addr option \<Rightarrow> fingerprint option \<Rightarrow> fs \<Rightarrow>
     (action_error + farbus_client) \<times> history" where
  "connect_saved sha256 parse_addr vars net connect fp_opt fs =
     (case load_session parse_addr vars fp_opt fs of
        None \<Rightarrow> (Inl (ErrText ''run 'farbus pair' first''), [])
      | Some saved \<Rightarrow>
          let a = (case connect of Some x \<Rightarrow> x | None \<Rightarrow> session_addr saved);
              (res, h) = (case session_secret saved of
                            Some secret \<Rightarrow>
                              connect_with_identity net a (session_fingerprint saved) (from_secret sha256 secret) []
                          | None \<Rightarrow>
                              connect_with_retry sha256 net a (session_fingerprint saved) None default_policy [])
          in case res of
               Inl err \<Rightarrow> (Inl (ErrClient err), h)
             | Inr c \<Rightarrow> (Inr (with_auth_token (session_token saved) c), h))"

definition cli_pair ::
    "(bytes \<Rightarrow> bytes) \<Rightarrow> (socket_addr \<Rightarrow> string) \<Rightarrow> env_vars \<Rightarrow> faults \<Rightarrow> network \<Rightarrow> bool \<Rightarrow> bool \<Rightarrow> socket_addr option \<Rightarrow>
     fingerprint \<Rightarrow> string \<Rightarrow> fs \<Rightarrow> (action_error + unit) \<times> fs" where
  "cli_pair sha256 show_addr vars flt net late panicked connect fp typed fs =
     (case require_connect connect of
        Inl e \<Rightarrow> (Inl e, fs)
      | Inr a \<Rightarrow>
          let pin = trim typed
          in case happy_eyeballs_connect sha256 (\<lambda>_. net) (\<lambda>_. late) (\<lambda>_. panicked) [0] [a] fp of
               Inl err \<Rightarrow> (Inl (ErrClient err), fs)
             | Inr c \<Rightarrow>
                 (case client_pair sha256 (answers net [Dialled, Asked (hello_cmd c)]) pin fp c of
                    (Inl err, c1) \<Rightarrow> (Inl (ErrClient err), fs)
                  | (Inr _, c1) \<Rightarrow>
                      (case auth_token c1 of
                         None \<Rightarrow> (Inl (ErrText ''server did not issue token''), fs)
                       | Some token \<Rightarrow>
                           (case save_session show_addr vars flt
                                   \<lparr>session_addr = a, session_fingerprint = fp, session_token = token,
                                    session_secret = Some (identity_secret c1)\<rparr> fs of
                              (Inl e, fs1) \<Rightarrow> (Inl (ErrIo e), fs1)
                            | (Inr _, fs1) \<Rightarrow> (Inr (), fs1)))))"

definition cli_devices ::
    "(bytes \<Rightarrow> bytes) \<Rightarrow> (string \<Rightarrow> socket_addr option) \<Rightarrow> env_vars \<Rightarrow> network \<Rightarrow> socket_addr option \<Rightarrow> fingerprint option \<Rightarrow> fs \<Rightarrow>
     (action_error + device_info list) \<times> history" where
  "cli_devices sha256 parse_addr vars net connect fp_opt fs =
     (case connect_saved sha256 parse_addr vars net connect fp_opt fs of
        (Inl e, h) \<Rightarrow> (Inl e, h)
      | (Inr c, h) \<Rightarrow>
          (case fw_devices net c h of
             (Inl err, h1) \<Rightarrow> (Inl (ErrClient err), h1)
           | (Inr l, h1) \<Rightarrow> (Inr l, h1)))"

definition cli_attach ::
    "(bytes \<Rightarrow> bytes) \<Rightarrow> (string \<Rightarrow> socket_addr option) \<Rightarrow> env_vars \<Rightarrow> network \<Rightarrow> socket_addr option \<Rightarrow> fingerprint option \<Rightarrow> u32 \<Rightarrow> fs \<Rightarrow>
     (action_error + (attach_response \<times> local_device list \<times> farbus_client)) \<times> history" where
  "cli_attach sha256 parse_addr vars net connect fp_opt did fs =
     (case connect_saved sha256 parse_addr vars net connect fp_opt fs of
        (Inl e, h) \<Rightarrow> (Inl e, h)
      | (Inr c, h) \<Rightarrow>
          (case fw_attach net c did h of
             (Inl err, h1) \<Rightarrow> (Inl (ErrClient err), h1)
           | (Inr att, h1) \<Rightarrow>
               (case fw_devices net c h1 of
                  (Inl err, h2) \<Rightarrow> (Inl (ErrClient err), h2)
                | (Inr l, h2) \<Rightarrow> (Inr (att, map (\<lambda>i. \<lparr>info = i, backend = Emulated\<rparr>) l, c), h2))))"

definition cli_detach ::
    "(bytes \<Rightarrow> bytes) \<Rightarrow> (string \<Rightarrow> socket_addr option) \<Rightarrow> env_vars \<Rightarrow> network \<Rightarrow> socket_addr option \<Rightarrow> fingerprint option \<Rightarrow> u32 \<Rightarrow> fs \<Rightarrow>
     (action_error + unit) \<times> history" where
  "cli_detach sha256 parse_addr vars net connect fp_opt did fs =
     (case connect_saved sha256 parse_addr vars net connect fp_opt fs of
        (Inl e, h) \<Rightarrow> (Inl e, h)
      | (Inr c, h) \<Rightarrow>
          (case fw_detach net c did h of
             (Inl err, h1) \<Rightarrow> (Inl (ErrClient err), h1)
           | (Inr _, h1) \<Rightarrow> (Inr (), h1)))"

text \<open>\<open>diagnose\<close> returns the number of exported devices it reports.\<close>

definition cli_diagnose ::
    "(bytes \<Rightarrow> bytes) \<Rightarrow> (string \<Rightarrow> socket_addr option) \<Rightarrow> env_vars \<Rightarrow> network \<Rightarrow> bool \<Rightarrow> bool \<Rightarrow> fingerprint \<Rightarrow> fs \<Rightarrow>
     action_error + nat" where
  "cli_diagnose sha256 parse_addr vars net late panicked fp fs =
     (case load_session parse_addr vars (Some fp) fs of
        None \<Rightarrow> Inl (ErrText ''run 'farbus pair' first'')
      | Some saved \<Rightarrow>
          (case happy_eyeballs_connect sha256 (\<lambda>_. net) (\<lambda>_. late) (\<lambda>_. panicked) [0] [session_addr saved] fp of
             Inl err \<Rightarrow> Inl (ErrClient err)
           | Inr c \<Rightarrow>
               let c1 = with_auth_token (session_token saved) c
               in case fst (fw_devices net c1 [Dialled, Asked (hello_cmd c)]) of
                    Inl err \<Rightarrow> Inl (ErrClient err)
                  | Inr l \<Rightarrow> Inr (length l)))"

section \<open>Lemmas\<close>

text \<open>The client that talks to the server in \<open>diagnose\<close> has a newly drawn identity, not the one that was paired.\<close>

lemma diagnose_identity:
  assumes "cli_diagnose sha256 parse_addr vars net late panicked fp fs = Inr n"
    and saved: "load_session parse_addr vars (Some fp) fs = Some saved"
  shows "\<exists>token l. client_devices (answers net [Dialled, Asked (hello_cmd
      \<lparr>client_identity = generate sha256 (drawn net []), auth_token = None, server_addr = session_addr saved, expected = fp\<rparr>)])
    \<lparr>client_identity = generate sha256 (drawn net []), auth_token = Some token, server_addr = session_addr saved, expected = fp\<rparr> =
    Inr l"
proof -
  from assms obtain c where c: "happy_eyeballs_connect sha256 (\<lambda>_. net) (\<lambda>_. late) (\<lambda>_. panicked) [0]
      [session_addr saved] fp = Inr c"
    by (auto simp: cli_diagnose_def split: sum.splits)
  from assms c show ?thesis
    unfolding happy_single [OF c] by (auto simp: cli_diagnose_def with_auth_token_def fw_devices_def Let_def split: sum.splits)
qed

end
