(* ===== verification/End_To_End.thy ===== *)
theory End_To_End
  imports Session_Properties Cli
begin

text \<open>
  The client of theory \<open>Client_Calls\<close> connected to the server of theory \<open>Session\<close>. Every request goes
  through the client's pump, is written as a frame, read by the server's framed reader, handled, and the reply
  comes back the same way. The two programs are composed as they are; the transport between them delivers what is
  written, and the server's other sessions do not move meanwhile. The environment (time and random draws) may
  differ at every event.
\<close>

section \<open>Composition\<close>

definition arrives :: "message \<Rightarrow> message option" where
  "arrives m =
     (case write_message m of
        Inl _ \<Rightarrow> None
      | Inr bs \<Rightarrow> (case read_message [] [Data bs] of (Inr m', _) \<Rightarrow> Some m' | (Inl _, _) \<Rightarrow> None))"

fun message_of :: "client_cmd \<Rightarrow> message" where
  "message_of (ControlCmd m) = m"
| "message_of (UrbCmd u) = UrbSubmit u"
| "message_of (UnlinkCmd u) = UrbUnlink u"

text \<open>The URB tasks run to their end and their completions are sent.\<close>

fun sent_by :: "task_stage \<Rightarrow> message list" where
  "sent_by (TSending c) = [UrbComplete c]"
| "sent_by _ = []"

definition settle :: "world \<Rightarrow> env \<Rightarrow> server_state \<Rightarrow> session \<Rightarrow> session" where
  "settle w e s l =
     l\<lparr>tasks := [], out := out l @ concat (map (\<lambda>t. sent_by (stage (task_run w (replicate 5 (e, s)) t))) (tasks l))\<rparr>"

text \<open>No connection: before the first dial, and after a frame that cannot be written or read.\<close>

definition offline :: session where
  "offline = session_new\<lparr>reader_done := True\<rparr>"

definition serve_event :: "world \<Rightarrow> env \<Rightarrow> client_event \<Rightarrow> server_state \<times> session \<Rightarrow> server_state \<times> session" where
  "serve_event w e ev sl =
     (case sl of (s, l) \<Rightarrow>
        case ev of
          Dialled \<Rightarrow> (end_session l s, session_new)
        | Slept _ \<Rightarrow> (s, l)
        | Asked cmd \<Rightarrow>
            if reader_done l then (s, l)
            else (case arrives (message_of cmd) of
                    None \<Rightarrow> (end_session l s, offline)
                  | Some m \<Rightarrow> (case handle_message w e m s l of (s1, l1) \<Rightarrow> (s1, settle w e s1 l1))))"

definition serve :: "world \<Rightarrow> (nat \<Rightarrow> env) \<Rightarrow> server_state \<Rightarrow> history \<Rightarrow> server_state \<times> session" where
  "serve w es s h = fold (\<lambda>(n, ev). serve_event w (es n) ev) (enumerate 0 h) (s, offline)"

text \<open>What the client's pump delivers to ticket 0 when the server's replies arrive.\<close>

definition pump_reply :: "message \<Rightarrow> pump \<Rightarrow> pump" where
  "pump_reply r p = (case arrives r of Some r' \<Rightarrow> pump_msg r' p | None \<Rightarrow> drain p)"

definition ask_server :: "world \<Rightarrow> (nat \<Rightarrow> env) \<Rightarrow> server_state \<Rightarrow> history \<Rightarrow> asker" where
  "ask_server w es s h cmd =
     (case serve w es s h of (s1, l1) \<Rightarrow>
        let replies = drop (length (out l1)) (out (snd (serve_event w (es (length h)) (Asked cmd) (s1, l1))))
        in if reader_done l1 then Inl Closed
           else (case map_of (delivered (fold pump_reply replies (pump_cmd None cmd 0 pump_new))) 0 of
                   Some r \<Rightarrow> r
                 | None \<Rightarrow> Inl Closed))"

text \<open>The network whose only host is the server, reachable under one address; TLS pins its fingerprint.\<close>

definition server_network ::
    "world \<Rightarrow> (nat \<Rightarrow> env) \<Rightarrow> server_state \<Rightarrow> socket_addr \<Rightarrow> (history \<Rightarrow> bytes) \<Rightarrow> network" where
  "server_network w es s a draws =
     \<lparr>dial = (\<lambda>h a' fp. if a' = a \<and> fp = srv_fingerprint s then Inr () else Inl TlsFailed),
      answers = ask_server w es s, drawn = draws\<rparr>"

section \<open>Lemmas\<close>

lemma arrives_self:
  assumes "wf_message m" "fields_fit m" "payload_len m \<le> MAX_PAYLOAD"
  shows "arrives m = Some m"
proof -
  from assms obtain bs where bs: "encode m = Inr bs" using encode_fits(1) by blast
  obtain res b' r' where r: "read_message [] [Data bs] = (res, b', r')" by (metis surj_pair)
  have "first_frame (stream_end [Data bs]) ([] @ stream_bytes [Data bs]) = (Inr m, [])"
    using first_frame_encode [OF assms(1) bs, of _ "[]"] by simp
  from read_message_first [OF r this] have "res = Inr m" by simp
  then show ?thesis using bs r by (simp add: arrives_def write_message_def)
qed

lemma arrives_writes: "arrives m = Some m' \<Longrightarrow> write_result None m = None"
  by (auto simp: arrives_def write_result_def split: sum.splits)

lemma serve_Nil: "serve w es s [] = (s, offline)"
  by (simp add: serve_def)

lemma serve_snoc: "serve w es s (h @ [ev]) = serve_event w (es (length h)) ev (serve w es s h)"
  by (simp add: serve_def enumerate_append_eq)

lemma serve_dial:
  assumes "serve w es s h = (s1, l1)" "principal l1 = None"
  shows "serve w es s (h @ [Dialled]) = (s1, session_new)"
  using assms by (simp add: serve_snoc serve_event_def end_session_def)

lemma settle_idle: "tasks l = [] \<Longrightarrow> settle w e s l = l"
  by (simp add: settle_def)

definition is_control :: "message \<Rightarrow> bool" where
  "is_control m = (case m of UrbComplete _ \<Rightarrow> False | UrbUnlinked _ \<Rightarrow> False | _ \<Rightarrow> True)"

text \<open>A control request whose reply fits a frame.\<close>

lemma ask_control:
  assumes "serve w es s h = (s1, l1)" "\<not> reader_done l1" "arrives m = Some m"
    and "handle_message w (es (length h)) m s1 l1 = (s2, l2)" "tasks l2 = []" "out l2 = out l1 @ [r]"
    and "arrives r = Some r" "is_control r"
  shows "ask_server w es s h (ControlCmd m) = Inr (MessageAnswer r)"
    and "serve w es s (h @ [Asked (ControlCmd m)]) = (s2, l2)"
proof -
  have ev: "serve_event w (es (length h)) (Asked (ControlCmd m)) (s1, l1) = (s2, l2)"
    using assms by (simp add: serve_event_def settle_idle)
  then show "serve w es s (h @ [Asked (ControlCmd m)]) = (s2, l2)" by (simp add: serve_snoc assms(1))
  show "ask_server w es s h (ControlCmd m) = Inr (MessageAnswer r)"
    using assms arrives_writes [OF assms(3)]
    by (cases r) (simp_all add: ask_server_def ev pump_reply_def pump_cmd_def pump_msg_def answer_front_def deliver_def
        pump_new_def is_control_def)
qed

text \<open>The world and server keep the sizes of the Rust types.\<close>

definition sound_server :: "world \<Rightarrow> server_state \<Rightarrow> bool" where
  "sound_server w s \<longleftrightarrow> length (srv_fingerprint s) = 32 \<and> rust_str (hostname s) \<and> length (hostname s) \<le> 255 \<and>
     (\<forall>bs. length (sha256 w bs) = 32)"

lemma rust_str_ascii: "valid_utf8 (as_bytes s) \<Longrightarrow> rust_str s" by (simp add: rust_str_def)

lemma client_names [simp]: "rust_str ''farbus-client''" "rust_str ''expired token''"
  by (simp_all add: rust_str_def, code_simp+)


text \<open>The connection is up, the peer has said who it is, and the server has answered everything.\<close>

definition online ::
    "world \<Rightarrow> (nat \<Rightarrow> env) \<Rightarrow> server_state \<Rightarrow> history \<Rightarrow> server_state \<Rightarrow> fingerprint \<Rightarrow> fingerprint option \<Rightarrow> bool" where
  "online w es s h s1 p q \<longleftrightarrow> (\<exists>l. serve w es s h = (s1, l) \<and> peer l = Some p \<and> principal l = q \<and> pc l = Idle \<and>
     tasks l = [] \<and> \<not> reader_done l)"

lemma online_ask:
  assumes "online w es s h s1 p q" "wf_message m" "fields_fit m" "payload_len m \<le> MAX_PAYLOAD"
    and "\<And>l. peer l = Some p \<Longrightarrow> principal l = q \<Longrightarrow> pc l = Idle \<Longrightarrow>
      handle_message w (es (length h)) m s1 l = (s2, send r (l\<lparr>principal := q'\<rparr>))"
    and "wf_message r" "fields_fit r" "payload_len r \<le> MAX_PAYLOAD" "is_control r"
  shows "ask_server w es s h (ControlCmd m) = Inr (MessageAnswer r)"
    and "online w es s (h @ [Asked (ControlCmd m)]) s2 p q'"
proof -
  obtain l where l: "serve w es s h = (s1, l)" "peer l = Some p" "principal l = q" "pc l = Idle" "tasks l = []"
    "\<not> reader_done l"
    using assms(1) by (auto simp: online_def)
  note m = arrives_self [OF assms(2-4)] and r = arrives_self [OF assms(6-8)]
  note step = ask_control [OF l(1,6) m assms(5) [OF l(2-4)] _ _ r assms(9)]
  show "ask_server w es s h (ControlCmd m) = Inr (MessageAnswer r)" by (rule step(1)) (simp_all add: l)
  have "serve w es s (h @ [Asked (ControlCmd m)]) = (s2, send r (l\<lparr>principal := q'\<rparr>))" by (rule step(2)) (simp_all add: l)
  then show "online w es s (h @ [Asked (ControlCmd m)]) s2 p q'" by (simp add: online_def l)
qed

lemma connect_online:
  fixes ident a
  assumes "sound_server w s" "length (id_fingerprint ident) = 32"
  defines "c \<equiv> \<lparr>client_identity = ident, auth_token = None, server_addr = a, expected = srv_fingerprint s\<rparr>"
  shows "connect_with_identity (server_network w es s a draws) a (srv_fingerprint s) ident [] =
      (Inr c, [Dialled, Asked (hello_cmd c)])"
    and "online w es s [Dialled, Asked (hello_cmd c)] s (id_fingerprint ident) None"
proof -
  let ?m = "Hello \<lparr>protocol_min = VERSION, protocol_max = VERSION, hello_fingerprint = id_fingerprint ident,
    hello_hostname = ''farbus-client''\<rparr>"
  let ?r = "Hello \<lparr>protocol_min = VERSION, protocol_max = VERSION, hello_fingerprint = srv_fingerprint s,
    hello_hostname = hostname s\<rparr>"
  have d: "serve w es s ([] @ [Dialled]) = (s, session_new)"
    by (rule serve_dial [OF serve_Nil]) (simp add: offline_def session_new_def)
  have h: "handle_message w e ?m s session_new = (s, send ?r (session_new\<lparr>peer := Some (id_fingerprint ident)\<rparr>))" for e
    by (simp add: handler_defs session_new_def send_def)
  have "arrives ?m = Some ?m" "arrives ?r = Some ?r"
    by (rule arrives_self; use assms(1,2) in \<open>simp add: sound_server_def\<close>)+
  note step = ask_control [OF d _ this(1) h _ _ this(2)]
  have 1: "ask_server w es s [Dialled] (ControlCmd ?m) = Inr (MessageAnswer ?r)"
    using step(1) by (simp add: session_new_def is_control_def)
  have 2: "serve w es s ([Dialled] @ [Asked (ControlCmd ?m)]) =
      (s, send ?r (session_new\<lparr>peer := Some (id_fingerprint ident)\<rparr>))"
    using step(2) by (simp add: session_new_def is_control_def)
  show "connect_with_identity (server_network w es s a draws) a (srv_fingerprint s) ident [] =
      (Inr c, [Dialled, Asked (hello_cmd c)])"
    using 1 by (simp add: connect_with_identity_def server_network_def client_hello_def c_def Let_def)
  show "online w es s [Dialled, Asked (hello_cmd c)] s (id_fingerprint ident) None"
    using 2 by (simp add: online_def hello_cmd_def c_def session_new_def)
qed

definition pair_cmd :: "(bytes \<Rightarrow> bytes) \<Rightarrow> string \<Rightarrow> fingerprint \<Rightarrow> farbus_client \<Rightarrow> client_cmd" where
  "pair_cmd sha pin fp c = ControlCmd (PairRequest \<lparr>client_fingerprint = id_fingerprint (client_identity c),
     pin_hash = hash_pin sha pin fp, client_name = ''farbus-client''\<rparr>)"

text \<open>The PIN the user typed is the one the server shows, and it is still good.\<close>

definition pin_good :: "world \<Rightarrow> env \<Rightarrow> server_state \<Rightarrow> string \<Rightarrow> bool" where
  "pin_good w e s pin \<longleftrightarrow> \<not> consumed (srv_pin s) \<and> unat (attempts (srv_pin s)) < 5 \<and> now e \<le> expires_at (srv_pin s) \<and>
     pin_hash_value (srv_pin s) = hash_pin (sha256 w) pin (srv_fingerprint s)"

lemma validate_keeps:
  "srv_fingerprint (snd (validate_pairing_pin w e h s)) = srv_fingerprint s"
  "hostname (snd (validate_pairing_pin w e h s)) = hostname s"
  by (auto simp: validate_pairing_pin_def Let_def split: prod.splits option.splits if_splits)

lemma pair_online:
  assumes on: "online w es s h s1 (id_fingerprint (client_identity c)) q" and sound: "sound_server w s1"
    and pin: "pin_good w (es (length h)) s1 pin"
    and len: "length (id_fingerprint (client_identity c)) = 32" "length (token_draw (es (length h))) = 32"
  obtains s2 where
    "client_pair (sha256 w) (ask_server w es s h) pin (srv_fingerprint s1) c =
       (Inr (), c\<lparr>auth_token := Some (token_draw (es (length h)))\<rparr>)"
    "online w es s (h @ [Asked (pair_cmd (sha256 w) pin (srv_fingerprint s1) c)]) s2
       (id_fingerprint (client_identity c)) (Some (id_fingerprint (client_identity c)))"
    "map_of (tokens s2) (token_draw (es (length h))) =
       Some (id_fingerprint (client_identity c), now (es (length h)) + secs (24 * 60 * 60))"
    "devices s2 = devices s1" "leases s2 = leases s1" "urb_completer s2 = urb_completer s1"
proof -
  let ?e = "es (length h)" and ?p = "id_fingerprint (client_identity c)"
  let ?req = "\<lparr>client_fingerprint = ?p, pin_hash = hash_pin (sha256 w) pin (srv_fingerprint s1), client_name = ''farbus-client''\<rparr>"
  define s2 where "s2 = snd (validate_pairing_pin w ?e (pin_hash ?req) s1)"
  define s3 where "s3 = s2\<lparr>tokens := AList.update (token_draw ?e) (?p, now ?e + secs (24 * 60 * 60)) (tokens s2)\<rparr>"
  let ?r = "PairResponse \<lparr>pair_success = True, server_fingerprint = srv_fingerprint s1, pair_auth_token = token_draw ?e\<rparr>"
  have v: "validate_pairing_pin w ?e (pin_hash ?req) s1 = (True, s2)"
    using pin validate_pairing_pin_iff [of w ?e "pin_hash ?req" s1]
    by (cases "validate_pairing_pin w ?e (pin_hash ?req) s1") (simp add: pin_good_def s2_def)
  have fp: "srv_fingerprint s2 = srv_fingerprint s1" by (simp add: s2_def validate_keeps)
  have hm: "handle_message w ?e (PairRequest ?req) s1 l = (s3, send ?r (l\<lparr>principal := Some ?p\<rparr>))"
    if "peer l = Some ?p" "principal l = q" "pc l = Idle" for l
    using handle_pair [OF that(3), of w ?e ?req s1] v that(1) by (simp add: s3_def fp)
  have hash: "length (hash_pin (sha256 w) pin (srv_fingerprint s1)) = 32"
    using sound by (simp add: sound_server_def hash_pin_def)
  note step = online_ask [OF on _ _ _ hm]
  have 1: "ask_server w es s h (ControlCmd (PairRequest ?req)) = Inr (MessageAnswer ?r)"
    by (rule step(1)) (use len hash sound in \<open>simp_all add: sound_server_def is_control_def\<close>)
  have 2: "online w es s (h @ [Asked (ControlCmd (PairRequest ?req))]) s3 ?p (Some ?p)"
    by (rule step(2)) (use len hash sound in \<open>simp_all add: sound_server_def is_control_def\<close>)
  note f = validate_pairing_pin_fields [OF v]
  show thesis
    by (rule that [of s3])
       (use 1 2 f in \<open>simp_all add: client_pair_def pair_cmd_def s3_def update_conv'\<close>)
qed

text \<open>A device the server can lease to \<open>p\<close> and describe in a frame.\<close>

definition attachable :: "server_state \<Rightarrow> device_id \<Rightarrow> fingerprint \<Rightarrow> bool" where
  "attachable s d p \<longleftrightarrow> (\<exists>x. inventory_get (devices s) d = Some x \<and> exported (info x) \<and> rust_str (bus_id (info x)) \<and>
     length (bus_id (info x)) \<le> 255) \<and> owner (leases s) d \<in> {None, Some p}"

lemma attach_online:
  assumes on: "online w es s h s1 p q" and token: "auth_token c = Some tok" "length tok = 32"
    and auth: "map_of (tokens s1) tok = Some (p, x)" "now (es (length h)) \<le> x" and att: "attachable s1 d p"
  obtains r s2 where
    "fw_attach (server_network w es s a draws) c d h = (Inr r, h @ [Asked (attach_cmd d tok)])"
    "online w es s (h @ [Asked (attach_cmd d tok)]) s2 p (Some p)" "owner (leases s2) d = Some p"
    "devices s2 = devices s1" "tokens s2 = tokens s1" "urb_completer s2 = urb_completer s1"
proof -
  let ?e = "es (length h)" and ?req = "\<lparr>attach_device_id = d, attach_auth_token = tok\<rparr>"
  obtain dev where dev: "inventory_get (devices s1) d = Some dev" "exported (info dev)" "rust_str (bus_id (info dev))"
    "length (bus_id (info dev)) \<le> 255" and free: "owner (leases s1) d \<in> {None, Some p}"
    using att by (auto simp: attachable_def)
  let ?r = "\<lparr>attached_device_id = d, attach_success = True, usbip_port = 3240, attached_bus_id = bus_id (info dev)\<rparr>"
  define s2 where "s2 = s1\<lparr>leases := snd (acquire d p (leases s1))\<rparr>"
  have hm: "handle_message w ?e (AttachRequest ?req) s1 l = (s2, send (AttachResponse ?r) (l\<lparr>principal := Some p\<rparr>))"
    if "peer l = Some p" "principal l = q" "pc l = Idle" for l
    using handle_attach [OF that(3), of w ?e ?req s1] auth that(1) dev free by (auto simp: authorize_def s2_def)
  note step = online_ask [OF on _ _ _ hm]
  have 1: "ask_server w es s h (attach_cmd d tok) = Inr (MessageAnswer (AttachResponse ?r))"
    unfolding attach_cmd_def by (rule step(1)) (use token dev in \<open>simp_all add: is_control_def\<close>)
  have 2: "online w es s (h @ [Asked (attach_cmd d tok)]) s2 p (Some p)"
    unfolding attach_cmd_def by (rule step(2)) (use token dev in \<open>simp_all add: is_control_def\<close>)
  have own: "owner (leases s2) d = Some p" using free by (auto simp: s2_def lb.acq_holder)
  show thesis
    by (rule that [of ?r s2])
       (use 1 2 own in \<open>simp_all add: fw_attach_def client_attach_def server_network_def token asked_def attach_cmd_def s2_def\<close>)
qed

text \<open>A token of somebody else is answered with an error.\<close>

lemma foreign_token:
  assumes on: "online w es s h s1 p q" and token: "auth_token c = Some tok" "length tok = 32"
    and auth: "map_of (tokens s1) tok = Some (p', x)" "p' \<noteq> p"
  shows "fst (fw_devices (server_network w es s a draws) c h) = Inl AttachRejected"
    and "fst (fw_attach (server_network w es s a draws) c d h) = Inl AttachRejected"
proof -
  let ?e = "es (length h)" and ?r = "Error Unauthorized ''expired token''"
  have un: "authorize ?e s1 l tok = Inl ''expired token''" if "peer l = Some p" for l
    using that auth by (simp add: authorize_def)
  have hd: "handle_message w ?e (DeviceListRequest tok) s1 l = (s1, send ?r (l\<lparr>principal := q\<rparr>))"
    if "peer l = Some p" "principal l = q" "pc l = Idle" for l
    using un that by (auto simp: handler_defs send_error_def send_def)
  have ha: "handle_message w ?e (AttachRequest \<lparr>attach_device_id = d, attach_auth_token = tok\<rparr>) s1 l =
      (s1, send ?r (l\<lparr>principal := q\<rparr>))" if "peer l = Some p" "principal l = q" "pc l = Idle" for l
    using handle_attach [OF that(3), of w ?e "\<lparr>attach_device_id = d, attach_auth_token = tok\<rparr>" s1] un that
    by (auto simp: send_error_def send_def)
  have "ask_server w es s h (ControlCmd (DeviceListRequest tok)) = Inr (MessageAnswer ?r)"
    by (rule online_ask(1) [OF on _ _ _ hd]) (use token in \<open>simp_all add: is_control_def\<close>)
  then show "fst (fw_devices (server_network w es s a draws) c h) = Inl AttachRejected"
    by (simp add: fw_devices_def client_devices_def server_network_def token)
  have "ask_server w es s h (ControlCmd (AttachRequest \<lparr>attach_device_id = d, attach_auth_token = tok\<rparr>)) =
      Inr (MessageAnswer ?r)"
    by (rule online_ask(1) [OF on _ _ _ ha]) (use token in \<open>simp_all add: is_control_def\<close>)
  then show "fst (fw_attach (server_network w es s a draws) c d h) = Inl AttachRejected"
    by (simp add: fw_attach_def client_attach_def server_network_def token)
qed

text \<open>A URB on a leased, emulated device.\<close>

lemma emulated_task:
  assumes "inventory_wf (devices s)" "inventory_get (devices s) d = Some x" "backend x = Emulated"
    and "urb_completer s = None" "submit_device_id u = d"
  obtains a where "presence_token (devices s) d = Some a"
    "stage (task_run w (replicate 5 (e, s)) \<lparr>task_urb = u, task_presence = a, stage = TStart\<rparr>) = TSending (complete_urb u)"
proof -
  have wf: "inv_ids (devices s)" "inv_presence (devices s)" using assms(1) by (simp_all add: inventory_wf_def)
  then have "d \<in> dom (presence (devices s))" using assms(2) unfolding inv_presence_def by blast
  then obtain a where a: "presence_token (devices s) d = Some a" "cell_load (devices s) a"
    using wf(2) unfolding inv_presence_def presence_token_def by blast
  have snap: "set (devices_snapshot s) = ran (inventory_get (devices s))"
    using wf(1) by (simp add: inv_ids_def devices_snapshot_def snapshot_def bt.set_vals inventory_get_def [abs_def])
  have x: "x \<in> set (devices_snapshot s)" "info_id (info x) = d"
    using wf(1) assms(2) unfolding snap by (auto simp: inv_ids_def ran_def)
  have "find (\<lambda>y. info_id (info y) = d) (devices_snapshot s) \<noteq> None" using x unfolding find_None_iff by blast
  then obtain y where y: "find (\<lambda>y. info_id (info y) = d) (devices_snapshot s) = Some y" by blast
  have "y \<in> ran (inventory_get (devices s))" "info_id (info y) = d" using find_in_set [OF y] by (simp_all add: snap)
  then have "y = x" using wf(1) assms(2) by (auto simp: inv_ids_def ran_def)
  with y have "find (\<lambda>y. info_id (info y) = d) (devices_snapshot s) = Some x" by simp
  then have "backend_of d (devices_snapshot s) = Some Emulated" using assms(3) by (simp add: backend_of_def)
  then have "stage (task_run w (replicate 5 (e, s)) \<lparr>task_urb = u, task_presence = a, stage = TStart\<rparr>) = TSending (complete_urb u)"
    using a assms(4,5) by (simp add: task_run_def numeral_nat task_step_def Let_def)
  with a(1) show thesis by (rule that)
qed

lemma complete_urb_granted: "complete_status (complete_urb u) \<noteq> LEASE_DENIED"
  by (simp add: urb_defs Let_def split: transfer_type.splits)

lemma token_activeI: "map_of (tokens s) tok = Some (p, x) \<Longrightarrow> now e \<le> x \<Longrightarrow> token_active e s p"
  by (auto simp: token_active_def list_ex_iff dest!: map_of_SomeD)

lemma urb_online:
  assumes on: "online w es s h s1 p (Some p)" and lease: "owner (leases s1) (submit_device_id u) = Some p"
    and active: "token_active (es (length h)) s1 p"
    and dev: "inventory_wf (devices s1)" "inventory_get (devices s1) (submit_device_id u) = Some x" "backend x = Emulated"
      "urb_completer s1 = None"
    and fits: "payload_len (UrbSubmit u) \<le> MAX_PAYLOAD"
  shows "fw_urb (server_network w es s a draws) u h = (Inr (complete_urb u), h @ [Asked (UrbCmd u)])"
proof -
  let ?e = "es (length h)"
  obtain l where l: "serve w es s h = (s1, l)" "principal l = Some p" "pc l = Idle" "tasks l = []" "\<not> reader_done l"
    using on by (auto simp: online_def)
  obtain t where t: "presence_token (devices s1) (submit_device_id u) = Some t"
    "stage (task_run w (replicate 5 (?e, s1)) \<lparr>task_urb = u, task_presence = t, stage = TStart\<rparr>) = TSending (complete_urb u)"
    by (rule emulated_task [OF dev refl, where w = w and e = ?e])
  have hm: "handle_message w ?e (UrbSubmit u) s1 l =
      (s1, l\<lparr>tasks := [\<lparr>task_urb = u, task_presence = t, stage = TStart\<rparr>]\<rparr>)"
    using l lease active t(1) by (simp add: handle_submit may_submit_def permits_used_def)
  have m: "arrives (UrbSubmit u) = Some (UrbSubmit u)" by (rule arrives_self) (use fits in simp_all)
  have r: "arrives (UrbComplete (complete_urb u)) = Some (UrbComplete (complete_urb u))"
    by (rule arrives_self) (use length_complete_urb [of u] in simp_all)
  have "serve_event w ?e (Asked (UrbCmd u)) (s1, l) = (s1, l\<lparr>tasks := [], out := out l @ [UrbComplete (complete_urb u)]\<rparr>)"
    by (simp add: serve_event_def l m hm settle_def t(2))
  then have "ask_server w es s h (UrbCmd u) = Inr (UrbAnswer (complete_urb u))"
    using l arrives_writes [OF m] r
    by (simp add: ask_server_def pump_reply_def pump_cmd_def await_urb_def replace_pending_def pump_msg_def deliver_def
        pump_new_def complete_urb_seq)
  moreover have eta: "\<lparr>submit_seq = submit_seq u, submit_device_id = submit_device_id u, endpoint = endpoint u,
      transfer = transfer u, requested_length = requested_length u, submit_data = submit_data u\<rparr> = u" by simp
  ultimately show ?thesis
    using complete_urb_granted [of u] by (simp add: fw_urb_def urb_with_length_def server_network_def eta)
qed

section \<open>Properties\<close>

lemma reader_keeps:
  "srv_fingerprint (fst (receive w e m s l)) = srv_fingerprint s" "hostname (fst (receive w e m s l)) = hostname s"
  "srv_fingerprint (fst (advance e s l)) = srv_fingerprint s" "hostname (fst (advance e s l)) = hostname s"
  by (simp_all add: receive_def advance_def issue_auth_token_def validate_keeps Let_def case_prod_unfold
      split: message.split reader_pc.split option.split sum.split if_split)

lemma handle_message_keeps:
  "srv_fingerprint (fst (handle_message w e m s l)) = srv_fingerprint s"
  "hostname (fst (handle_message w e m s l)) = hostname s"
  by (simp_all add: handle_message_def numeral_3_eq_3 case_prod_unfold reader_keeps)

lemma serve_keeps:
  "srv_fingerprint (fst (serve w es s h)) = srv_fingerprint s \<and> hostname (fst (serve w es s h)) = hostname s"
proof (induction h rule: rev_induct)
  case (snoc ev h)
  obtain s1 l where l: "serve w es s h = (s1, l)" by fastforce
  have end_session: "srv_fingerprint (end_session l s1) = srv_fingerprint s1" "hostname (end_session l s1) = hostname s1"
    by (simp_all add: end_session_def split: option.splits)
  show ?case
    using snoc l handle_message_keeps [of w "es (length h)" _ s1 l] end_session
    by (auto simp: serve_snoc serve_event_def case_prod_unfold split: client_event.splits option.splits)
qed (simp add: serve_Nil)

lemma online_keeps:
  "online w es s h s1 p q \<Longrightarrow> srv_fingerprint s1 = srv_fingerprint s" "online w es s h s1 p q \<Longrightarrow> hostname s1 = hostname s"
  using serve_keeps [of w es s h] by (auto simp: online_def)

lemma online_sound: "online w es s h s1 p q \<Longrightarrow> sound_server w s \<Longrightarrow> sound_server w s1"
  by (simp add: sound_server_def online_keeps)

text \<open>A new client that has connected, paired and attached a device.\<close>

lemma ready_online:
  fixes a draws es s ident pin w d
  assumes sound: "sound_server w s" and ident: "length (id_fingerprint ident) = 32"
    and pin: "pin_good w (es 2) s pin" and draw: "length (token_draw (es 2)) = 32"
    and time: "now (es 3) \<le> now (es 2) + secs (24 * 60 * 60)" and dev: "attachable s d (id_fingerprint ident)"
  defines "c \<equiv> \<lparr>client_identity = ident, auth_token = None, server_addr = a, expected = srv_fingerprint s\<rparr>"
    and "net \<equiv> server_network w es s a draws"
  defines "h2 \<equiv> [Dialled, Asked (hello_cmd c), Asked (pair_cmd (sha256 w) pin (srv_fingerprint s) c)]"
  obtains r s3 h3 where
    "connect_with_identity net a (srv_fingerprint s) ident [] = (Inr c, [Dialled, Asked (hello_cmd c)])"
    "client_pair (sha256 w) (answers net [Dialled, Asked (hello_cmd c)]) pin (srv_fingerprint s) c =
       (Inr (), c\<lparr>auth_token := Some (token_draw (es 2))\<rparr>)"
    "fw_attach net (c\<lparr>auth_token := Some (token_draw (es 2))\<rparr>) d h2 = (Inr r, h3)" "length h3 = 4"
    "online w es s h3 s3 (id_fingerprint ident) (Some (id_fingerprint ident))" "owner (leases s3) d = Some (id_fingerprint ident)"
    "map_of (tokens s3) (token_draw (es 2)) = Some (id_fingerprint ident, now (es 2) + secs (24 * 60 * 60))"
    "devices s3 = devices s" "urb_completer s3 = urb_completer s"
proof -
  let ?p = "id_fingerprint ident" and ?h1 = "[Dialled, Asked (hello_cmd c)]" and ?c2 = "c\<lparr>auth_token := Some (token_draw (es 2))\<rparr>"
  let ?h2 = "?h1 @ [Asked (pair_cmd (sha256 w) pin (srv_fingerprint s) c)]"
  note con = connect_online(1) [OF sound ident, of es a draws, folded c_def net_def]
    connect_online(2) [OF sound ident, of es a, folded c_def]
  have n: "length ?h1 = 2" "length ?h2 = 3" "?h2 = h2" and p: "id_fingerprint (client_identity c) = ?p"
    by (simp_all add: c_def h2_def)
  obtain s2 where s2: "client_pair (sha256 w) (ask_server w es s ?h1) pin (srv_fingerprint s) c = (Inr (), ?c2)"
    "online w es s ?h2 s2 ?p (Some ?p)"
    "map_of (tokens s2) (token_draw (es 2)) = Some (?p, now (es 2) + secs (24 * 60 * 60))"
    "devices s2 = devices s" "leases s2 = leases s" "urb_completer s2 = urb_completer s"
    by (rule pair_online [of w es s ?h1 s c None pin, unfolded n(1,2) p]) (use con sound pin ident draw in simp_all)
  let ?h3 = "?h2 @ [Asked (attach_cmd d (token_draw (es 2)))]"
  have att: "attachable s2 d ?p" using dev s2 by (simp add: attachable_def)
  obtain r s3 where s3: "fw_attach (server_network w es s a draws) ?c2 d ?h2 = (Inr r, ?h3)" "online w es s ?h3 s3 ?p (Some ?p)"
    "owner (leases s3) d = Some ?p" "devices s3 = devices s2" "tokens s3 = tokens s2" "urb_completer s3 = urb_completer s2"
    by (rule attach_online [OF s2(2) _ draw s2(3) _ att, unfolded n(2), of ?c2, OF _ time, where a = a and draws = draws]) simp
  have ans: "answers net = ask_server w es s" by (simp add: net_def server_network_def)
  show thesis
    by (rule that [OF con(1) _ _ _ s3(2,3)]) (use s2 s3 n(3) ans in \<open>simp_all add: net_def h2_def\<close>)
qed

text \<open>
  C6. First use works, end to end, through pump, frames and server on both sides: a client that knows the
  server's address and fingerprint and the PIN it shows connects, pairs, attaches an offered device
  nobody else holds, and submits a URB. Every call succeeds, the server has leased the device to the client's own
  fingerprint, and the URB is answered with the emulator's completion.
\<close>

theorem first_use:
  assumes sound: "sound_server w s" and ident: "length (id_fingerprint ident) = 32"
    and pin: "pin_good w (es 2) s pin" and draw: "length (token_draw (es 2)) = 32"
    and time: "now (es 3) \<le> now (es 2) + secs (24 * 60 * 60)" "now (es 4) \<le> now (es 2) + secs (24 * 60 * 60)"
    and dev: "attachable s (submit_device_id u) (id_fingerprint ident)" "inventory_wf (devices s)"
      "inventory_get (devices s) (submit_device_id u) = Some x" "backend x = Emulated" "urb_completer s = None"
    and fits: "length (submit_data u) \<le> 65536"
  shows "let net = server_network w es s a draws;
             (con, h1) = connect_with_identity net a (srv_fingerprint s) ident [] in
    \<exists>c c' r h3. con = Inr c \<and>
      client_pair (sha256 w) (answers net h1) pin (srv_fingerprint s) c = (Inr (), c') \<and>
      fw_attach net c' (submit_device_id u) (h1 @ [Asked (pair_cmd (sha256 w) pin (srv_fingerprint s) c)]) = (Inr r, h3) \<and>
      owner (leases (fst (serve w es s h3))) (submit_device_id u) = Some (id_fingerprint ident) \<and>
      fst (fw_urb net u h3) = Inr (complete_urb u)"
proof -
  let ?net = "server_network w es s a draws" and ?p = "id_fingerprint ident" and ?d = "submit_device_id u"
  obtain c c2 r s3 h1 h3 where con: "connect_with_identity ?net a (srv_fingerprint s) ident [] = (Inr c, h1)"
    and pair: "client_pair (sha256 w) (answers ?net h1) pin (srv_fingerprint s) c = (Inr (), c2)"
    and att: "fw_attach ?net c2 ?d (h1 @ [Asked (pair_cmd (sha256 w) pin (srv_fingerprint s) c)]) = (Inr r, h3)" "length h3 = 4"
    and s3: "online w es s h3 s3 ?p (Some ?p)" "owner (leases s3) ?d = Some ?p"
      "map_of (tokens s3) (token_draw (es 2)) = Some (?p, now (es 2) + secs (24 * 60 * 60))"
      "devices s3 = devices s" "urb_completer s3 = urb_completer s"
    by (rule ready_online [OF sound ident pin draw time(1) dev(1), where a = a and draws = draws]) auto
  have active: "token_active (es (length h3)) s3 ?p" using token_activeI [OF s3(3) time(2)] unfolding att(2) by (simp only:)
  have urb: "fw_urb ?net u h3 = (Inr (complete_urb u), h3 @ [Asked (UrbCmd u)])"
    by (rule urb_online [OF s3(1,2) active]) (use s3 dev fits in simp_all)
  have own: "owner (leases (fst (serve w es s h3))) ?d = Some ?p" using s3(1,2) by (auto simp: online_def)
  show ?thesis unfolding con Let_def prod.case using pair att(1) own urb by auto
qed

text \<open>A server with the laboratory's devices, and a client of it.\<close>

definition lab_world :: world where
  "lab_world = \<lparr>sha256 = (\<lambda>_. replicate 32 1), debug_text = (\<lambda>_. []), host_complete = (\<lambda>_ _ _. None)\<rparr>"

definition lab_envs :: "nat \<Rightarrow> env" where
  "lab_envs n = \<lparr>now = n, pin_draw = 100000, token_draw = replicate 32 9\<rparr>"

definition lab_server :: server_state where
  "lab_server = server_new lab_world (lab_envs 0) ''lab'' (replicate 32 5) simulated_lab_devices"

definition lab_addr :: socket_addr where "lab_addr = SocketV4 0x7F000001 4240"

lemma lab_sound: "sound_server lab_world lab_server"
  by (simp add: sound_server_def lab_world_def lab_server_def server_new_def rust_str_def) code_simp

lemma lab_keyboard: "attachable lab_server 1 p" "inventory_wf (devices lab_server)"
    "inventory_get (devices lab_server) 1 =
      Some (lab_device 1 ''1-1.2'' 0x046d 0xc31c 3 SpeedFull ''USB Keyboard'' [usb_interface 0 3 1 1 [0x81]])"
proof -
  show k: "inventory_get (devices lab_server) 1 =
      Some (lab_device 1 ''1-1.2'' 0x046d 0xc31c 3 SpeedFull ''USB Keyboard'' [usb_interface 0 3 1 1 [0x81]])"
    by (simp add: lab_server_def server_new_def demo_keyboard)
  show "inventory_wf (devices lab_server)"
    using inventory_new_wf(1) [of simulated_lab_devices 4]
    by (simp add: lab_server_def server_new_def simulated_lab_devices_def lab_device_def key_of_def)
  have "rust_str ''1-1.2''" by (simp add: rust_str_def) code_simp
  with k show "attachable lab_server 1 p"
    by (simp add: attachable_def lab_device_def lab_server_def server_new_def owner_def empty_book_def)
qed

lemma lab_pin: "pin_good lab_world (lab_envs n) lab_server (pin_text (srv_pin lab_server))" if "n \<le> secs 120"
  using that by (simp add: pin_good_def lab_server_def server_new_def issue_def issue_with_ttl_def lab_envs_def Let_def PIN_TTL_def)

theorem first_use_witness:
  "\<exists>h. owner (leases (fst (serve lab_world lab_envs lab_server h))) 1 = Some (replicate 32 1) \<and>
     fst (fw_urb (server_network lab_world lab_envs lab_server lab_addr (\<lambda>_. [])) demo_urb h) = Inr (complete_urb demo_urb)"
proof -
  let ?u = "demo_urb" and ?id = "from_secret (sha256 lab_world) [3]"
  have id: "id_fingerprint ?id = replicate 32 1" "length (id_fingerprint ?id) = 32"
    by (simp_all add: from_secret_def fingerprint_from_secret_def lab_world_def)
  have u: "submit_device_id ?u = 1" "length (submit_data ?u) \<le> 65536" by (simp_all add: demo_urb_def)
  have t: "now (lab_envs 3) \<le> now (lab_envs 2) + secs (24 * 60 * 60)" "now (lab_envs 4) \<le> now (lab_envs 2) + secs (24 * 60 * 60)"
    by (simp_all add: lab_envs_def secs_def)
  have b: "backend (lab_device 1 ''1-1.2'' 0x046d 0xc31c 3 SpeedFull ''USB Keyboard'' [usb_interface 0 3 1 1 [0x81]]) = Emulated"
    "urb_completer lab_server = None" by (simp_all add: lab_device_def lab_server_def server_new_def)
  have p: "pin_good lab_world (lab_envs 2) lab_server (pin_text (srv_pin lab_server))"
    by (rule lab_pin) (simp add: secs_def)
  have d: "length (token_draw (lab_envs 2)) = 32" by (simp add: lab_envs_def)
  from first_use [OF lab_sound id(2) p d t, of ?u, unfolded u(1), OF lab_keyboard b u(2), of lab_addr "\<lambda>_. []"]
  show ?thesis unfolding id(1) Let_def by (auto split: prod.splits)
qed



section \<open>What follows for the commands\<close>

text \<open>
  The fingerprint of a client is what its greeting says. Whoever presents a token together with the fingerprint
  it was issued to obtains the lease, whether or not it has the secret behind that fingerprint.
\<close>

lemma claimed_fingerprint_suffices:
  assumes "sound_server w s" "length p = 32" "length tok = 32"
    and "map_of (tokens s) tok = Some (p, x)" "now (es 2) \<le> x" "attachable s d p"
  shows "\<exists>c h r h'. connect_with_identity (server_network w es s a draws) a (srv_fingerprint s)
      \<lparr>id_fingerprint = p, id_secret = any_secret\<rparr> [] = (Inr c, h) \<and>
    fw_attach (server_network w es s a draws) (with_auth_token tok c) d h = (Inr r, h') \<and>
    owner (leases (fst (serve w es s h'))) d = Some p"
proof -
  let ?id = "\<lparr>id_fingerprint = p, id_secret = any_secret\<rparr>"
  define c where "c = \<lparr>client_identity = ?id, auth_token = None, server_addr = a, expected = srv_fingerprint s\<rparr>"
  have len: "length (id_fingerprint ?id) = 32" using assms(2) by simp
  note con = connect_online(1) [OF assms(1) len, of es a draws, folded c_def]
    connect_online(2) [OF assms(1) len, of es a, folded c_def, simplified]
  have tok: "auth_token (with_auth_token tok c) = Some tok" by (simp add: with_auth_token_def)
  have time: "now (es (length [Dialled, Asked (hello_cmd c)])) \<le> x" using assms(5) by (simp add: numeral_2_eq_2)
  obtain r s2 where r: "fw_attach (server_network w es s a draws) (with_auth_token tok c) d [Dialled, Asked (hello_cmd c)] =
      (Inr r, [Dialled, Asked (hello_cmd c)] @ [Asked (attach_cmd d tok)])"
    and on: "online w es s ([Dialled, Asked (hello_cmd c)] @ [Asked (attach_cmd d tok)]) s2 p (Some p)"
    and own: "owner (leases s2) d = Some p"
    by (rule attach_online [OF con(2) tok assms(3,4) time assms(6), where a = a and draws = draws])
  have "fst (serve w es s ([Dialled, Asked (hello_cmd c)] @ [Asked (attach_cmd d tok)])) = s2"
    using on by (auto simp: online_def)
  with con(1) r own show ?thesis by blast
qed

text \<open>
  \<open>farbus diagnose\<close> presents the token of the saved session over a connection with a newly drawn identity; unless
  the draw happens to repeat the paired one, the server refuses it.
\<close>

lemma diagnose_refused:
  assumes "load_session parse_addr vars (Some (srv_fingerprint s)) fs = Some saved" "session_addr saved = a"
    and "sound_server w s" "map_of (tokens s) (session_token saved) = Some (p', x)" "length (session_token saved) = 32"
    and "p' \<noteq> sha256 w (draws [])"
  shows "cli_diagnose (sha256 w) parse_addr vars (server_network w es s a draws) False False (srv_fingerprint s) fs =
    Inl (ErrClient AttachRejected)"
proof -
  let ?net = "server_network w es s a draws" and ?id = "generate (sha256 w) (draws [])"
  define c where "c = \<lparr>client_identity = ?id, auth_token = None, server_addr = a, expected = srv_fingerprint s\<rparr>"
  have id: "length (id_fingerprint ?id) = 32" "p' \<noteq> id_fingerprint ?id"
    using assms(3,6) by (simp_all add: generate_def fingerprint_from_secret_def sound_server_def Let_def)
  note con = connect_online(1) [OF assms(3) id(1), of es a draws, folded c_def]
    connect_online(2) [OF assms(3) id(1), of es a, folded c_def]
  have "connection_order [a] = [a]" by (cases a) (simp_all add: connection_order_def)
  moreover have "drawn ?net = draws" by (simp add: server_network_def)
  ultimately have "happy_eyeballs_connect (sha256 w) (\<lambda>_. ?net) (\<lambda>_. False) (\<lambda>_. False) [0] [a] (srv_fingerprint s) = Inr c"
    using con(1) by (simp add: happy_eyeballs_connect_def candidate_outcome_def client_connect_def)
  moreover have "auth_token (with_auth_token (session_token saved) c) = Some (session_token saved)"
    by (simp add: with_auth_token_def)
  note foreign_token(1) [OF con(2) this assms(5,4) id(2), where a = a and draws = draws]
  ultimately show ?thesis using assms(1,2) by (simp add: cli_diagnose_def)
qed

end
