(* ===== verification/Usbip.thy ===== *)
theory Usbip
  imports Prelude
begin

text \<open>
  The USB/IP 1.1 headers of \<^verbatim>\<open>crates/farbus-protocol/src/usbip.rs\<close>. The four structures share their
  first fields, which are the record \<open>usbip_header\<close> here. A header is 48 bytes; the encoders fill
  it from the front, so they are concatenations, and the decoders read each field at its offset.
\<close>

section \<open>Model\<close>

abbreviation USBIP_VERSION :: u16 where "USBIP_VERSION \<equiv> 0x0111"
abbreviation OP_REQ_DEVLIST :: u16 where "OP_REQ_DEVLIST \<equiv> 0x8005"
abbreviation OP_REP_DEVLIST :: u16 where "OP_REP_DEVLIST \<equiv> 0x0005"
abbreviation OP_REQ_IMPORT :: u16 where "OP_REQ_IMPORT \<equiv> 0x8003"
abbreviation OP_REP_IMPORT :: u16 where "OP_REP_IMPORT \<equiv> 0x0003"
abbreviation USBIP_CMD_SUBMIT :: u32 where "USBIP_CMD_SUBMIT \<equiv> 1"
abbreviation USBIP_RET_SUBMIT :: u32 where "USBIP_RET_SUBMIT \<equiv> 3"
abbreviation USBIP_CMD_UNLINK :: u32 where "USBIP_CMD_UNLINK \<equiv> 2"
abbreviation USBIP_RET_UNLINK :: u32 where "USBIP_RET_UNLINK \<equiv> 4"

record usbip_header =
  seqnum :: u32
  devid :: u32
  direction :: u32
  ep :: u32

record usbip_cmd_submit = usbip_header +
  transfer_flags :: u32
  transfer_buffer_length :: u32
  start_frame :: u32
  number_of_packets :: u32
  interval :: u32
  usb_setup :: bytes

record usbip_ret_submit = usbip_header +
  ret_status :: i32
  actual_length :: u32
  ret_start_frame :: u32
  ret_number_of_packets :: u32
  error_count :: i32
  ret_setup :: bytes

record usbip_cmd_unlink = usbip_header +
  unlink_seqnum :: u32

record usbip_ret_unlink = usbip_header +
  unlink_status :: i32

datatype usbip_error = UsbipTruncated | UsbipVersion u16

definition read_u32_be :: "bytes \<Rightarrow> nat \<Rightarrow> usbip_error + u32" where
  "read_u32_be bs offset =
     (if length bs < offset + 4 then Inl UsbipTruncated
      else Inr (u32_from_be_bytes (take 4 (drop offset bs))))"

text \<open>An \<open>i32\<close> is the word of its two's complement.\<close>

definition read_i32_be :: "bytes \<Rightarrow> nat \<Rightarrow> usbip_error + i32" where
  "read_i32_be bs offset =
     (if length bs < offset + 4 then Inl UsbipTruncated
      else Inr (u32_from_be_bytes (take 4 (drop offset bs))))"

definition encode_cmd_submit :: "usbip_cmd_submit \<Rightarrow> bytes" where
  "encode_cmd_submit c =
     u32_to_be_bytes USBIP_CMD_SUBMIT @ u32_to_be_bytes (seqnum c) @ u32_to_be_bytes (devid c) @
     u32_to_be_bytes (direction c) @ u32_to_be_bytes (ep c) @ u32_to_be_bytes (transfer_flags c) @
     u32_to_be_bytes (transfer_buffer_length c) @ u32_to_be_bytes (start_frame c) @
     u32_to_be_bytes (number_of_packets c) @ u32_to_be_bytes (interval c) @ usb_setup c"

definition decode_cmd_submit :: "bytes \<Rightarrow> usbip_error + usbip_cmd_submit" where
  "decode_cmd_submit bs =
     (if length bs < 48 then Inl UsbipTruncated
      else bind_res (read_u32_be bs 4) (\<lambda>sq. bind_res (read_u32_be bs 8) (\<lambda>dv.
           bind_res (read_u32_be bs 12) (\<lambda>dr. bind_res (read_u32_be bs 16) (\<lambda>e.
           bind_res (read_u32_be bs 20) (\<lambda>fl. bind_res (read_u32_be bs 24) (\<lambda>len.
           bind_res (read_u32_be bs 28) (\<lambda>sf. bind_res (read_u32_be bs 32) (\<lambda>np.
           bind_res (read_u32_be bs 36) (\<lambda>iv.
           Inr \<lparr>seqnum = sq, devid = dv, direction = dr, ep = e, transfer_flags = fl,
                transfer_buffer_length = len, start_frame = sf, number_of_packets = np, interval = iv,
                usb_setup = take 8 (drop 40 bs)\<rparr>))))))))))"

definition encode_ret_submit :: "usbip_ret_submit \<Rightarrow> bytes" where
  "encode_ret_submit r =
     u32_to_be_bytes USBIP_RET_SUBMIT @ u32_to_be_bytes (seqnum r) @ u32_to_be_bytes (devid r) @
     u32_to_be_bytes (direction r) @ u32_to_be_bytes (ep r) @ u32_to_be_bytes (ret_status r) @
     u32_to_be_bytes (actual_length r) @ u32_to_be_bytes (ret_start_frame r) @
     u32_to_be_bytes (ret_number_of_packets r) @ u32_to_be_bytes (error_count r) @ ret_setup r"

definition decode_ret_submit :: "bytes \<Rightarrow> usbip_error + usbip_ret_submit" where
  "decode_ret_submit bs =
     (if length bs < 48 then Inl UsbipTruncated
      else bind_res (read_u32_be bs 4) (\<lambda>sq. bind_res (read_u32_be bs 8) (\<lambda>dv.
           bind_res (read_u32_be bs 12) (\<lambda>dr. bind_res (read_u32_be bs 16) (\<lambda>e.
           bind_res (read_i32_be bs 20) (\<lambda>st. bind_res (read_u32_be bs 24) (\<lambda>len.
           bind_res (read_u32_be bs 28) (\<lambda>sf. bind_res (read_u32_be bs 32) (\<lambda>np.
           bind_res (read_i32_be bs 36) (\<lambda>ec.
           Inr \<lparr>seqnum = sq, devid = dv, direction = dr, ep = e, ret_status = st, actual_length = len,
                ret_start_frame = sf, ret_number_of_packets = np, error_count = ec,
                ret_setup = take 8 (drop 40 bs)\<rparr>))))))))))"

definition decode_cmd_unlink :: "bytes \<Rightarrow> usbip_error + usbip_cmd_unlink" where
  "decode_cmd_unlink bs =
     (if length bs < 48 then Inl UsbipTruncated
      else bind_res (read_u32_be bs 4) (\<lambda>sq. bind_res (read_u32_be bs 8) (\<lambda>dv.
           bind_res (read_u32_be bs 12) (\<lambda>dr. bind_res (read_u32_be bs 16) (\<lambda>e.
           bind_res (read_u32_be bs 20) (\<lambda>u.
           Inr \<lparr>seqnum = sq, devid = dv, direction = dr, ep = e, unlink_seqnum = u\<rparr>))))))"

definition encode_ret_unlink :: "usbip_ret_unlink \<Rightarrow> bytes" where
  "encode_ret_unlink r =
     u32_to_be_bytes USBIP_RET_UNLINK @ u32_to_be_bytes (seqnum r) @ u32_to_be_bytes (devid r) @
     u32_to_be_bytes (direction r) @ u32_to_be_bytes (ep r) @ u32_to_be_bytes (unlink_status r) @ replicate 24 0"

definition urb_submit_data :: "u32 \<Rightarrow> u32 \<Rightarrow> bytes \<Rightarrow> u32 \<Rightarrow> bytes \<Rightarrow> bytes \<times> u32" where
  "urb_submit_data e dir st len out_payload =
     (if e = 0 then (st @ (if dir = 0 then out_payload else []), len)
      else if dir = 0 then (out_payload, len)
      else ([], len))"

section \<open>Lemmas\<close>

lemma length_encode [simp]:
  "length (usb_setup c) = 8 \<Longrightarrow> length (encode_cmd_submit c) = 48"
  "length (ret_setup r) = 8 \<Longrightarrow> length (encode_ret_submit r) = 48"
  "length (encode_ret_unlink u) = 48"
  by (simp_all add: encode_cmd_submit_def encode_ret_submit_def encode_ret_unlink_def)

text \<open>Reading the words of a list of big-endian words.\<close>

lemma read_words:
  "read_u32_be (u32_to_be_bytes w @ bs) 0 = Inr w"
  "4 \<le> n \<Longrightarrow> read_u32_be (u32_to_be_bytes w @ bs) n = read_u32_be bs (n - 4)"
  "read_i32_be (u32_to_be_bytes w @ bs) 0 = Inr w"
  "4 \<le> n \<Longrightarrow> read_i32_be (u32_to_be_bytes w @ bs) n = read_i32_be bs (n - 4)"
  by (auto simp: read_u32_be_def read_i32_be_def)

lemma decode_encode_cmd_submit:
  "length (usb_setup c) = 8 \<Longrightarrow> decode_cmd_submit (encode_cmd_submit c @ rest) = Inr c"
  unfolding decode_cmd_submit_def
  by (simp add: encode_cmd_submit_def read_words)

lemma decode_encode_ret_submit:
  "length (ret_setup r) = 8 \<Longrightarrow> decode_ret_submit (encode_ret_submit r @ rest) = Inr r"
  unfolding decode_ret_submit_def
  by (simp add: encode_ret_submit_def read_words)

text \<open>Every 48 bytes that start with the command word are the encoding of what they decode to.\<close>

lemma split48:
  assumes "length bs = 48"
  shows "bs = take 4 bs @ take 4 (drop 4 bs) @ take 4 (drop 8 bs) @ take 4 (drop 12 bs) @ take 4 (drop 16 bs) @
    take 4 (drop 20 bs) @ take 4 (drop 24 bs) @ take 4 (drop 28 bs) @ take 4 (drop 32 bs) @
    take 4 (drop 36 bs) @ take 8 (drop 40 bs)"
proof -
  have s: "drop n bs = take 4 (drop n bs) @ drop (n + 4) bs" for n
    by (metis append_take_drop_id drop_drop add.commute)
  have e: "drop 40 bs = take 8 (drop 40 bs)" using assms by simp
  show ?thesis
    using s [of 0] s [of 4] s [of 8] s [of 12] s [of 16] s [of 20] s [of 24] s [of 28] s [of 32] s [of 36] e
    by simp
qed

lemma encode_decode_cmd_submit:
  assumes "length bs = 48" "take 4 bs = u32_to_be_bytes USBIP_CMD_SUBMIT"
  shows "\<exists>c. decode_cmd_submit bs = Inr c \<and> encode_cmd_submit c = bs \<and> length (usb_setup c) = 8"
  using assms split48 [OF assms(1)]
  by (simp add: decode_cmd_submit_def read_u32_be_def encode_cmd_submit_def)

section \<open>Properties\<close>

text \<open>
  USB/IP headers round-trip: a submit header that is written is read back field by field, with whatever follows
  it left alone, and any 48 bytes that start with the submit command are the encoding of the header they are
  read as, so that reading loses nothing.
\<close>

lemma usbip_submit_roundtrip:
  "(length (usb_setup c) = 8 \<longrightarrow> decode_cmd_submit (encode_cmd_submit c @ rest) = Inr c) \<and>
   (length (ret_setup r) = 8 \<longrightarrow> decode_ret_submit (encode_ret_submit r @ rest) = Inr r) \<and>
   (length bs = 48 \<and> take 4 bs = u32_to_be_bytes USBIP_CMD_SUBMIT \<longrightarrow>
     (\<exists>c. decode_cmd_submit bs = Inr c \<and> encode_cmd_submit c = bs))"
  using decode_encode_cmd_submit decode_encode_ret_submit encode_decode_cmd_submit by blast

lemma usbip_submit_roundtrip_example:
  "decode_ret_submit (encode_ret_submit \<lparr>seqnum = 9, devid = 2, direction = 1, ep = 0x81, ret_status = - 32,
     actual_length = 0, ret_start_frame = 0, ret_number_of_packets = 0, error_count = 0,
     ret_setup = replicate 8 0\<rparr> @ [7]) =
   Inr \<lparr>seqnum = 9, devid = 2, direction = 1, ep = 0x81, ret_status = - 32, actual_length = 0,
     ret_start_frame = 0, ret_number_of_packets = 0, error_count = 0, ret_setup = replicate 8 0\<rparr>"
proof -
  define r where "r = \<lparr>seqnum = 9, devid = 2, direction = 1, ep = 0x81, ret_status = - 32, actual_length = 0,
    ret_start_frame = 0, ret_number_of_packets = 0, error_count = 0, ret_setup = replicate 8 0\<rparr>"
  have "length (ret_setup r) = 8" by (simp add: r_def)
  with usbip_submit_roundtrip [of undefined "[7]" r] have "decode_ret_submit (encode_ret_submit r @ [7]) = Inr r"
    by blast
  then show ?thesis unfolding r_def .
qed

end
