(* ===== verification/Usbip_Proxy.thy ===== *)
theory Usbip_Proxy
  imports Usbip Urb Inventory Frame
begin

text \<open>
  The USB/IP server that exports devices to a local VHCI client
  (\<^verbatim>\<open>crates/farbus-core/src/usbip_proxy.rs\<close>). It reads with \<open>read_exact\<close> only, so the client's side
  of the connection is the byte string still unread; each loop consumes at least one header and
  ends. URB replies are sent by tasks of their own: the list \<open>serve_urbs\<close> returns is in the order
  of the commands, and the tasks may put it on the wire in any order. Accepting connections and
  binding the socket are left out.
\<close>

section \<open>Device descriptions\<close>

definition padded :: "string \<Rightarrow> nat \<Rightarrow> bytes" where
  "padded src n =
     (let copy = min (length src) (n - 1) in take copy (as_bytes src) @ replicate (n - copy) 0)"

text \<open>\<open>str::parse::<u32>\<close>.\<close>

definition dec_digit :: "char \<Rightarrow> nat option" where
  "dec_digit c = (let n = of_char c :: nat in if 48 \<le> n \<and> n \<le> 57 then Some (n - 48) else None)"

fun radix10_loop :: "nat \<Rightarrow> nat \<Rightarrow> string \<Rightarrow> nat option" where
  "radix10_loop hi acc [] = Some acc"
| "radix10_loop hi acc (c # cs) =
     (case dec_digit c of
        None \<Rightarrow> None
      | Some d \<Rightarrow> if acc * 10 + d > hi then None else radix10_loop hi (acc * 10 + d) cs)"

definition parse_u32 :: "string \<Rightarrow> u32 option" where
  "parse_u32 s =
     (let digits = (case s of (CHR ''+'') # d # ds \<Rightarrow> d # ds | _ \<Rightarrow> s)
      in if digits = [] then None else map_option of_nat (radix10_loop (2 ^ 32 - 1) 0 digits))"

fun usbip_speed :: "usb_speed \<Rightarrow> u32" where
  "usbip_speed SpeedLow = 1"
| "usbip_speed SpeedFull = 2"
| "usbip_speed SpeedHigh = 3"
| "usbip_speed SpeedSuper = 5"

definition busnum_of :: "string \<Rightarrow> u32" where
  "busnum_of bus = (case parse_u32 (takeWhile (\<lambda>c. c \<noteq> CHR ''-'') bus) of Some n \<Rightarrow> n | None \<Rightarrow> 1)"

definition encode_device_header :: "local_device \<Rightarrow> bytes" where
  "encode_device_header device =
     (let i = info device;
          niface = (case try_u8 (max (length (interfaces i)) 1) of Some n \<Rightarrow> n | None \<Rightarrow> 1)
      in padded (''/sys/bus/usb/devices/'' @ bus_id i) 256 @ padded (bus_id i) 32 @
         u32_to_be_bytes (busnum_of (bus_id i)) @ u32_to_be_bytes (info_id i) @
         u32_to_be_bytes (usbip_speed (speed i)) @ u16_to_be_bytes (vid i) @ u16_to_be_bytes (pid i) @
         u16_to_be_bytes 0x0100 @ [usb_class i, 0, 0, 1, 1, niface])"

definition encode_interfaces :: "local_device \<Rightarrow> bytes" where
  "encode_interfaces device =
     (if interfaces (info device) = [] then [usb_class (info device), 0, 0, 0]
      else concat (map (\<lambda>i. [interface_class i, interface_subclass i, interface_protocol i, 0])
             (interfaces (info device))))"

section \<open>The import phase\<close>

definition read_exact :: "nat \<Rightarrow> bytes \<Rightarrow> (bytes \<times> bytes) option" where
  "read_exact n inp = (if length inp < n then None else Some (take n inp, drop n inp))"

definition devlist_reply :: "local_device list \<Rightarrow> bytes" where
  "devlist_reply devs =
     u16_to_be_bytes USBIP_VERSION @ u16_to_be_bytes OP_REP_DEVLIST @ u32_to_be_bytes 0 @
     u32_to_be_bytes (case try_u32 (length devs) of Some n \<Rightarrow> n | None \<Rightarrow> 0) @
     concat (map (\<lambda>d. encode_device_header d @ encode_interfaces d) devs)"

definition import_reply :: "u32 \<Rightarrow> bytes \<Rightarrow> bytes" where
  "import_reply status body =
     u16_to_be_bytes USBIP_VERSION @ u16_to_be_bytes OP_REP_IMPORT @ u32_to_be_bytes status @ body"

text \<open>\<open>from_utf8(&busid).unwrap_or("").trim_end_matches('\0')\<close>.\<close>

definition requested_busid :: "bytes \<Rightarrow> string" where
  "requested_busid busid =
     (if valid_utf8 busid then string_of_bytes (rev (dropWhile (\<lambda>b. b = 0) (rev busid))) else [])"

text \<open>
  What the loop of \<open>handle_client_filtered\<close> writes, the device it hands over to the URB loop with
  the rest of the input, if any, and how it returns.
\<close>

lemma read_exact_shorter: "read_exact n inp = Some (h, r) \<Longrightarrow> length h = n \<and> inp = h @ r"
  by (auto simp: read_exact_def split: if_splits)

function import_loop ::
    "local_device list \<Rightarrow> bytes \<Rightarrow> bytes list \<times> (device_id \<times> bytes) option \<times> (io_error + unit)" where
  "import_loop devs inp =
     (case read_exact 8 inp of
        None \<Rightarrow> ([], None, Inr ())
      | Some (header, r) \<Rightarrow>
          let version = u16_from_be_bytes (take 2 header);
              command = u16_from_be_bytes (take 2 (drop 2 header))
          in if version \<noteq> USBIP_VERSION then ([], None, Inr ())
             else if command = OP_REQ_DEVLIST
             then let (ws, imp, res) = import_loop devs r in (devlist_reply devs # ws, imp, res)
             else if command = OP_REQ_IMPORT
             then (case read_exact 32 r of
                     None \<Rightarrow> ([], None, Inl UnexpectedEof)
                   | Some (busid, r1) \<Rightarrow>
                       (case find (\<lambda>d. bus_id (info d) = requested_busid busid) devs of
                          Some device \<Rightarrow>
                            ([import_reply 0 (encode_device_header device)], Some (info_id (info device), r1), Inr ())
                        | None \<Rightarrow> let (ws, imp, res) = import_loop devs r1 in (import_reply 4 [] # ws, imp, res)))
             else ([], None, Inr ()))"
  by pat_completeness auto
termination
  by (relation "measure (\<lambda>(devs, inp). length inp)") (auto dest!: read_exact_shorter [OF sym] read_exact_shorter)

declare import_loop.simps [simp del]

section \<open>The URB phase\<close>

text \<open>
  One turn of the URB loop: the command and the payload that belongs to it. The loop ends on a
  short read, an unknown command or an oversized buffer. Forwarded connections read the same way.
\<close>

datatype usbip_command =
    SubmitCommand usbip_cmd_submit transfer_type bytes
  | UnlinkCommand usbip_cmd_unlink
  | Skipped

definition transfer_of :: "usbip_cmd_submit \<Rightarrow> transfer_type" where
  "transfer_of cmd =
     (if ep cmd = 0 then Control
      else if ep cmd AND 0x80 \<noteq> 0 \<and> transfer_buffer_length cmd \<le> 64 then Interrupt
      else Bulk)"

definition read_command :: "bytes \<Rightarrow> (usbip_command \<times> bytes) option" where
  "read_command inp =
     (case read_exact 48 inp of
        None \<Rightarrow> None
      | Some (header, r) \<Rightarrow>
          let command = u32_from_be_bytes (take 4 header)
          in if command = USBIP_CMD_UNLINK
             then (case decode_cmd_unlink header of Inr cmd \<Rightarrow> Some (UnlinkCommand cmd, r) | Inl _ \<Rightarrow> Some (Skipped, r))
             else if command \<noteq> USBIP_CMD_SUBMIT then None
             else (case decode_cmd_submit header of
                     Inl _ \<Rightarrow> None
                   | Inr cmd \<Rightarrow>
                       if unat (transfer_buffer_length cmd) > 65536 then None
                       else if direction cmd = 0 \<and> transfer_buffer_length cmd > 0
                       then (case read_exact (unat (transfer_buffer_length cmd)) r of
                               None \<Rightarrow> None
                             | Some (out_payload, r1) \<Rightarrow> Some (SubmitCommand cmd (transfer_of cmd) out_payload, r1))
                       else Some (SubmitCommand cmd (transfer_of cmd) [], r)))"

text \<open>The URB a command stands for and the reply that reports its completion.\<close>

definition submit_of :: "device_id \<Rightarrow> usbip_cmd_submit \<Rightarrow> transfer_type \<Rightarrow> bytes \<Rightarrow> urb_submit" where
  "submit_of did cmd tr out_payload =
     (let (dat, len) = urb_submit_data (ep cmd) (direction cmd) (usb_setup cmd) (transfer_buffer_length cmd) out_payload
      in \<lparr>submit_seq = seqnum cmd, submit_device_id = did,
          endpoint = (case try_u8 (unat (ep cmd)) of Some e \<Rightarrow> e | None \<Rightarrow> 0), transfer = tr,
          requested_length = len, submit_data = dat\<rparr>)"

definition ret_of :: "usbip_cmd_submit \<Rightarrow> urb_complete \<Rightarrow> usbip_ret_submit" where
  "ret_of cmd complete =
     \<lparr>seqnum = seqnum cmd, devid = devid cmd, direction = direction cmd, ep = ep cmd,
      ret_status = complete_status complete,
      actual_length = (case try_u32 (length (complete_data complete)) of Some n \<Rightarrow> n | None \<Rightarrow> 0),
      ret_start_frame = 0, ret_number_of_packets = 0, error_count = 0, ret_setup = replicate 8 0\<rparr>"

definition submit_reply :: "usbip_cmd_submit \<Rightarrow> urb_complete \<Rightarrow> bytes" where
  "submit_reply cmd complete =
     encode_ret_submit (ret_of cmd complete) @
     (if direction cmd = 1 \<and> complete_data complete \<noteq> [] then complete_data complete else [])"

definition unlink_reply :: "usbip_cmd_unlink \<Rightarrow> i32 \<Rightarrow> bytes" where
  "unlink_reply cmd status =
     encode_ret_unlink \<lparr>seqnum = seqnum cmd, devid = devid cmd, direction = direction cmd, ep = ep cmd,
       unlink_status = status\<rparr>"

fun proxy_reply :: "device_id \<Rightarrow> usbip_command \<Rightarrow> bytes list" where
  "proxy_reply did (SubmitCommand cmd tr out_payload) =
     [submit_reply cmd (complete_urb (submit_of did cmd tr out_payload))]"
| "proxy_reply did (UnlinkCommand cmd) = [unlink_reply cmd 0]"
| "proxy_reply did Skipped = []"

lemma read_command_shorter: "read_command inp = Some (c, r) \<Longrightarrow> length r < length inp"
  by (auto simp: read_command_def Let_def dest!: read_exact_shorter split: option.splits prod.splits sum.splits if_splits)

function serve_urbs :: "device_id \<Rightarrow> bytes \<Rightarrow> bytes list" where
  "serve_urbs did inp =
     (case read_command inp of
        None \<Rightarrow> []
      | Some (c, r) \<Rightarrow> proxy_reply did c @ serve_urbs did r)"
  by pat_completeness auto
termination
  by (relation "measure (\<lambda>(did, inp). length inp)") (auto intro: read_command_shorter [OF sym] read_command_shorter)

declare serve_urbs.simps [simp del]

section \<open>A connection\<close>

definition handle_client_filtered ::
    "local_device list \<Rightarrow> bytes \<Rightarrow> bytes list \<times> bytes list \<times> (io_error + unit)" where
  "handle_client_filtered devices inp =
     (let devs = filter (\<lambda>d. exported (info d)) devices;
          (ws, imp, res) = import_loop devs inp
      in case imp of
           None \<Rightarrow> (ws, [], res)
         | Some (did, r) \<Rightarrow> (ws, serve_urbs did r, Inr ()))"

definition handle_client :: "local_device list \<Rightarrow> bytes \<Rightarrow> bytes list \<times> bytes list \<times> (io_error + unit)" where
  "handle_client devices inp = handle_client_filtered (filter (\<lambda>d. exported (info d)) devices) inp"

section \<open>Lemmas\<close>

lemma length_padded [simp]: "0 < n \<Longrightarrow> length (padded src n) = n"
  by (simp add: padded_def Let_def)

lemma length_encode_device_header: "length (encode_device_header d) = 312"
  by (simp add: encode_device_header_def Let_def)

lemma last_encode_device_header:
  "length (interfaces (info d)) \<le> 255 \<Longrightarrow>
     unat (last (encode_device_header d)) = max (length (interfaces (info d))) 1"
proof -
  assume a: "length (interfaces (info d)) \<le> 255"
  then obtain n where n: "try_u8 (max (length (interfaces (info d))) 1) = Some n"
    by (cases "try_u8 (max (length (interfaces (info d))) 1)") (auto simp: max_def split: if_splits)
  then show ?thesis by (simp add: encode_device_header_def Let_def)
qed

lemma length_encode_interfaces: "length (encode_interfaces d) = 4 * max (length (interfaces (info d))) 1"
proof -
  have "length (concat (map (\<lambda>i. [interface_class i, interface_subclass i, interface_protocol i, 0]) is)) = 4 * length is"
    for "is" :: "usb_interface_info list"
    by (induction "is") simp_all
  then show ?thesis by (cases "interfaces (info d)") (auto simp: encode_interfaces_def)
qed

text \<open>One turn of the import loop.\<close>

lemma import_loop_cases:
  obtains (stop) res where "import_loop devs inp = ([], None, res)"
  | (devlist) h r where "read_exact 8 inp = Some (h, r)"
      "import_loop devs inp = (let (ws, imp, res) = import_loop devs r in (devlist_reply devs # ws, imp, res))"
  | (unknown) h r b r1 where "read_exact 8 inp = Some (h, r)" "read_exact 32 r = Some (b, r1)"
      "import_loop devs inp = (let (ws, imp, res) = import_loop devs r1 in (import_reply 4 [] # ws, imp, res))"
  | (imported) d b r1 where "find (\<lambda>d. bus_id (info d) = requested_busid b) devs = Some d"
      "import_loop devs inp = ([import_reply 0 (encode_device_header d)], Some (info_id (info d), r1), Inr ())"
proof (cases "read_exact 8 inp")
  case None
  then show thesis by (intro stop) (simp add: import_loop.simps [of devs inp])
next
  case (Some hr)
  obtain h r where hr: "hr = (h, r)" by (cases hr)
  let ?v = "u16_from_be_bytes (take 2 h)" and ?c = "u16_from_be_bytes (take 2 (drop 2 h))"
  note eq = import_loop.simps [of devs inp, unfolded Some hr option.case prod.case Let_def [of ?v] Let_def [of ?c]]
  show thesis
  proof (cases "?v = USBIP_VERSION \<and> ?c \<in> {OP_REQ_DEVLIST, OP_REQ_IMPORT}")
    case False
    then show thesis by (intro stop [of "Inr ()"]) (auto simp: eq)
  next
    case True
    show thesis
    proof (cases "?c = OP_REQ_DEVLIST")
      case True
      with \<open>?v = USBIP_VERSION \<and> _\<close> Some hr show thesis by (intro devlist [of h r]) (simp_all add: eq)
    next
      case False
      with \<open>?v = USBIP_VERSION \<and> _\<close> have c: "?v = USBIP_VERSION" "?c = OP_REQ_IMPORT" by auto
      show thesis
      proof (cases "read_exact 32 r")
        case None
        then show thesis by (intro stop [of "Inl UnexpectedEof"]) (simp add: eq c)
      next
        case (Some br)
        obtain b r1 where br: "br = (b, r1)" by (cases br)
        show thesis
        proof (cases "find (\<lambda>d. bus_id (info d) = requested_busid b) devs")
          case None
          with Some br \<open>read_exact 8 inp = _\<close> hr show thesis
            by (intro unknown [of h r b r1]) (simp_all add: eq c)
        next
          case (Some d)
          with \<open>read_exact 32 r = _\<close> br show thesis by (intro imported [of b d r1]) (simp_all add: eq c)
        qed
      qed
    qed
  qed
qed

text \<open>
  The import loop hands over a device of its list, after announcing it as the last thing it wrote,
  and leaves the input that follows the request.
\<close>

lemma import_loop_device:
  "import_loop devs inp = (ws, Some (did, r), res) \<Longrightarrow>
     \<exists>d \<in> set devs. info_id (info d) = did \<and> ws \<noteq> [] \<and> last ws = import_reply 0 (encode_device_header d)"
proof (induction "length inp" arbitrary: inp ws rule: less_induct)
  case less
  show ?case
  proof (cases devs inp rule: import_loop_cases)
    case (devlist h r1)
    then have "length r1 < length inp" using read_exact_shorter [of 8 inp h r1] by auto
    moreover obtain ws' where "import_loop devs r1 = (ws', Some (did, r), res)" "ws = devlist_reply devs # ws'"
      using less(2) devlist(2) by (cases "import_loop devs r1") auto
    ultimately show ?thesis using less(1) by fastforce
  next
    case (unknown h r1 b r2)
    then have "length r2 < length inp" using read_exact_shorter [of 8 inp h r1] read_exact_shorter [of 32 r1 b r2] by auto
    moreover obtain ws' where "import_loop devs r2 = (ws', Some (did, r), res)" "ws = import_reply 4 [] # ws'"
      using less(2) unknown(3) by (cases "import_loop devs r2") auto
    ultimately show ?thesis using less(1) by fastforce
  next
    case (imported d b r1)
    then show ?thesis using less(2) find_in_set [of _ devs d] by auto
  qed (use less(2) in simp)
qed

text \<open>All commands the URB loop reads.\<close>

function commands_read :: "bytes \<Rightarrow> usbip_command list" where
  "commands_read inp = (case read_command inp of None \<Rightarrow> [] | Some (c, r) \<Rightarrow> c # commands_read r)"
  by pat_completeness auto
termination
  by (relation "measure length") (auto intro: read_command_shorter [OF sym] read_command_shorter)

declare commands_read.simps [simp del]

lemma serve_urbs_commands: "serve_urbs did inp = concat (map (proxy_reply did) (commands_read inp))"
proof (induction inp rule: commands_read.induct)
  case (1 inp)
  show ?case
  proof (cases "read_command inp")
    case (Some cr)
    then show ?thesis
      using 1 by (cases cr) (simp add: serve_urbs.simps [of did inp] commands_read.simps [of inp])
  qed (simp add: serve_urbs.simps [of did inp] commands_read.simps [of inp])
qed

lemma read_command_submit:
  assumes "read_command inp = Some (SubmitCommand cmd tr p, r)"
  shows "unat (transfer_buffer_length cmd) \<le> 65536" "length p \<le> 65536" "length (usb_setup cmd) = 8" "tr = transfer_of cmd"
proof -
  have "unat (transfer_buffer_length cmd) \<le> 65536 \<and> length p \<le> 65536 \<and> length (usb_setup cmd) = 8 \<and> tr = transfer_of cmd"
    using assms
    by (auto simp: read_command_def Let_def decode_cmd_submit_def split: option.splits prod.splits sum.splits if_splits
        dest!: read_exact_shorter)
  then show "unat (transfer_buffer_length cmd) \<le> 65536" "length p \<le> 65536" "length (usb_setup cmd) = 8" "tr = transfer_of cmd"
    by simp_all
qed

lemma submit_reply_parts:
  assumes "length (complete_data c) < 2 ^ 32"
  shows "decode_ret_submit (submit_reply cmd c) = Inr (ret_of cmd c)"
    and "direction cmd = 1 \<Longrightarrow> drop 48 (submit_reply cmd c) = complete_data c \<and>
      unat (actual_length (ret_of cmd c)) = length (complete_data c)"
proof -
  have s: "length (ret_setup (ret_of cmd c)) = 8" by (simp add: ret_of_def)
  show "decode_ret_submit (submit_reply cmd c) = Inr (ret_of cmd c)"
    unfolding submit_reply_def using decode_encode_ret_submit [OF s] by simp
  obtain n where "try_u32 (length (complete_data c)) = Some n"
    using assms by (cases "try_u32 (length (complete_data c))") auto
  then show "drop 48 (submit_reply cmd c) = complete_data c \<and>
      unat (actual_length (ret_of cmd c)) = length (complete_data c)" if "direction cmd = 1"
    using that length_encode(2) [OF s] by (auto simp: submit_reply_def) (auto simp: ret_of_def)
qed

text \<open>
  What a client may expect of the reply to a command: the sequence number, and for a device-to-host
  transfer as many bytes behind the header as the header announces.
\<close>

fun reply_answers :: "usbip_command \<Rightarrow> bytes \<Rightarrow> bool" where
  "reply_answers (SubmitCommand cmd tr p) reply =
     (case decode_ret_submit reply of
        Inl _ \<Rightarrow> False
      | Inr ret \<Rightarrow> seqnum ret = seqnum cmd \<and>
          length reply = 48 + (if direction cmd = 1 then unat (actual_length ret) else 0))"
| "reply_answers (UnlinkCommand cmd) reply =
     (length reply = 48 \<and> take 8 reply = u32_to_be_bytes USBIP_RET_UNLINK @ u32_to_be_bytes (seqnum cmd))"
| "reply_answers Skipped reply = False"

lemma submit_reply_answers:
  "length (complete_data c) < 2 ^ 32 \<Longrightarrow> reply_answers (SubmitCommand cmd tr p) (submit_reply cmd c)"
  using submit_reply_parts [of c cmd] length_encode(2) [of "ret_of cmd c"]
  by (cases "direction cmd = 1") (auto simp: submit_reply_def ret_of_def)

lemma unlink_reply_answers: "reply_answers (UnlinkCommand cmd) (unlink_reply cmd st)"
  by (simp add: unlink_reply_def encode_ret_unlink_def)

lemma read_command_not_skipped: "read_command inp = Some (c, r) \<Longrightarrow> c \<noteq> Skipped"
  by (auto simp: read_command_def Let_def decode_cmd_unlink_def read_u32_be_def split: option.splits prod.splits
      sum.splits if_splits dest!: read_exact_shorter)

lemma commands_read_not_skipped: "Skipped \<notin> set (commands_read inp)"
proof (induction inp rule: commands_read.induct)
  case (1 inp)
  then show ?case
    using read_command_not_skipped [of inp] commands_read.simps [of inp]
    by (cases "read_command inp") (auto split: prod.splits)
qed

lemma proxy_reply_answers: "c \<noteq> Skipped \<Longrightarrow> \<exists>reply. proxy_reply did c = [reply] \<and> reply_answers c reply"
proof (cases c)
  case (SubmitCommand cmd tr p)
  have "length (complete_data (complete_urb (submit_of did cmd tr p))) < 2 ^ 32"
    using length_complete_urb [of "submit_of did cmd tr p"] by simp
  from submit_reply_answers [OF this] show ?thesis by (simp add: SubmitCommand del: reply_answers.simps)
qed (auto simp: unlink_reply_answers simp del: reply_answers.simps)

text \<open>
  What the URB phase of a USB/IP server owes its client, whoever carries out the commands:
  one fitting reply for each command.
\<close>

locale command_server =
  fixes reply :: "nat \<Rightarrow> usbip_command \<Rightarrow> bytes list"
  assumes one_reply: "c \<noteq> Skipped \<Longrightarrow> \<exists>r. reply k c = [r] \<and> reply_answers c r"
begin

fun replies :: "nat \<Rightarrow> usbip_command list \<Rightarrow> bytes list" where
  "replies k [] = []"
| "replies k (c # cs) = reply k c @ replies (Suc k) cs"

lemma replies_answer: "Skipped \<notin> set cs \<Longrightarrow> list_all2 reply_answers cs (replies k cs)"
proof (induction cs arbitrary: k)
  case (Cons c cs)
  then show ?case using one_reply [of c k] by fastforce
qed simp

lemma commands_answered: "list_all2 reply_answers (commands_read inp) (replies k (commands_read inp))"
  using commands_read_not_skipped by (rule replies_answer)

end

interpretation proxy: command_server "\<lambda>k. proxy_reply did" for did
  by unfold_locales (rule proxy_reply_answers)

lemma proxy_replies: "proxy.replies did k cs = concat (map (proxy_reply did) cs)"
  by (induction cs arbitrary: k) simp_all

lemma length_submit_data: "length (submit_data (submit_of did cmd tr p)) \<le> length (usb_setup cmd) + length p"
  by (simp add: submit_of_def urb_submit_data_def)

text \<open>A client that takes a device list apart by the sizes announced in it.\<close>

definition read_device :: "bytes \<Rightarrow> ((bytes \<times> bytes) \<times> bytes) option" where
  "read_device inp =
     (case read_exact 312 inp of
        None \<Rightarrow> None
      | Some (h, r) \<Rightarrow> map_option (\<lambda>(i, r1). ((h, i), r1)) (read_exact (4 * unat (last h)) r))"

fun read_devices :: "nat \<Rightarrow> bytes \<Rightarrow> ((bytes \<times> bytes) list \<times> bytes) option" where
  "read_devices 0 inp = Some ([], inp)"
| "read_devices (Suc n) inp =
     (case read_device inp of
        None \<Rightarrow> None
      | Some (d, r) \<Rightarrow> map_option (\<lambda>(ds, r1). (d # ds, r1)) (read_devices n r))"

definition read_devlist :: "bytes \<Rightarrow> ((bytes \<times> bytes) list \<times> bytes) option" where
  "read_devlist inp =
     (case read_exact 12 inp of
        None \<Rightarrow> None
      | Some (h, r) \<Rightarrow> read_devices (unat (u32_from_be_bytes (drop 8 h))) r)"

lemma read_exact_append [simp]: "length h = n \<Longrightarrow> read_exact n (h @ r) = Some (h, r)"
  by (simp add: read_exact_def)

lemma read_device_encoded:
  "length (interfaces (info d)) \<le> 255 \<Longrightarrow>
     read_device (encode_device_header d @ encode_interfaces d @ r) = Some ((encode_device_header d, encode_interfaces d), r)"
  by (simp add: read_device_def length_encode_device_header last_encode_device_header length_encode_interfaces)

lemma read_devices_encoded:
  "\<forall>d \<in> set ds. length (interfaces (info d)) \<le> 255 \<Longrightarrow>
     read_devices (length ds) (concat (map (\<lambda>d. encode_device_header d @ encode_interfaces d) ds) @ r) =
       Some (map (\<lambda>d. (encode_device_header d, encode_interfaces d)) ds, r)"
  by (induction ds) (simp_all add: read_device_encoded)

text \<open>
  A request for a bus id, padded with zero bytes the way the header pads it, selects the first
  device with that bus id.
\<close>

definition import_request :: "string \<Rightarrow> bytes" where
  "import_request bus =
     u16_to_be_bytes USBIP_VERSION @ u16_to_be_bytes OP_REQ_IMPORT @ u32_to_be_bytes 0 @ padded bus 32"

lemma dropWhile_replicate: "P x \<Longrightarrow> dropWhile P (replicate n x @ xs) = dropWhile P xs"
  by (induction n) simp_all

lemma requested_busid_padded:
  assumes "length s \<le> 31" "\<forall>c \<in> set (as_bytes s). c < 0x80 \<and> c \<noteq> 0"
  shows "requested_busid (padded s 32) = s"
proof -
  have p: "padded s 32 = as_bytes s @ replicate (32 - length s) 0"
    using assms(1) by (simp add: padded_def min_def)
  have "valid_utf8 (padded s 32)" using assms(2) by (intro valid_utf8_ascii) (auto simp: p)
  moreover have "dropWhile (\<lambda>b. b = 0) (rev (as_bytes s)) = rev (as_bytes s)"
    using assms(2) by (cases "rev (as_bytes s)") (auto simp: dropWhile_eq_self_iff dest!: arg_cong [of "rev _" _ set])
  ultimately show ?thesis by (simp add: requested_busid_def p dropWhile_replicate)
qed

lemma import_loop_request:
  assumes "length s \<le> 31" "\<forall>c \<in> set (as_bytes s). c < 0x80 \<and> c \<noteq> 0"
    and "find (\<lambda>d. bus_id (info d) = s) devs = Some d"
  shows "import_loop devs (import_request s @ r) =
    ([import_reply 0 (encode_device_header d)], Some (info_id (info d), r), Inr ())"
proof -
  let ?h = "u16_to_be_bytes USBIP_VERSION @ u16_to_be_bytes OP_REQ_IMPORT @ u32_to_be_bytes 0"
  have i: "import_request s @ r = ?h @ padded s 32 @ r" by (simp add: import_request_def)
  have "read_exact 8 (import_request s @ r) = Some (?h, padded s 32 @ r)" unfolding i by (rule read_exact_append) simp
  moreover have "read_exact 32 (padded s 32 @ r) = Some (padded s 32, r)" by simp
  ultimately show ?thesis
    using assms(3) by (subst import_loop.simps) (simp add: requested_busid_padded [OF assms(1,2)])
qed

lemma read_command_in:
  assumes "length (usb_setup cmd) = 8" "direction cmd = 1" "unat (transfer_buffer_length cmd) \<le> 65536"
  shows "read_command (encode_cmd_submit cmd @ r) = Some (SubmitCommand cmd (transfer_of cmd) [], r)"
proof -
  have e: "read_exact 48 (encode_cmd_submit cmd @ r) = Some (encode_cmd_submit cmd, r)" using assms(1) by simp
  have "take 4 (encode_cmd_submit cmd) = u32_to_be_bytes USBIP_CMD_SUBMIT" by (simp add: encode_cmd_submit_def)
  moreover have "decode_cmd_submit (encode_cmd_submit cmd) = Inr cmd"
    using decode_encode_cmd_submit [OF assms(1), of "[]"] by simp
  ultimately show ?thesis using e assms(2,3) by (simp add: read_command_def)
qed

section \<open>Properties\<close>

text \<open>
  C29. The URB phase of the proxy answers every command it reads with exactly one reply: the k-th reply carries
  the sequence number of the k-th command, and its length is that of the header and, for transfers to the host,
  of the data it announces.
\<close>

theorem proxy_answers_commands: "list_all2 reply_answers (commands_read inp) (serve_urbs did inp)"
  using proxy.commands_answered [of inp did 0] by (simp add: serve_urbs_commands proxy_replies)

text \<open>
  C30. The proxy carries out URBs only for a device the server exports: whatever it writes in its URB phase
  belongs to an exported device of its snapshot, whose header was the last thing it announced to the client.
\<close>

theorem proxy_serves_exported_only:
  assumes "handle_client devices inp = (ws, us, res)" and "us \<noteq> []"
  shows "\<exists>d r. d \<in> set devices \<and> exported (info d) \<and> us = serve_urbs (info_id (info d)) r \<and>
    ws \<noteq> [] \<and> last ws = import_reply 0 (encode_device_header d)"
proof -
  define devs where "devs = filter (\<lambda>d. exported (info d)) devices"
  obtain ws' imp res' where l: "import_loop devs inp = (ws', imp, res')" by (cases "import_loop devs inp")
  with assms obtain did r where imp: "imp = Some (did, r)" and us: "us = serve_urbs did r" and ws: "ws = ws'"
    by (cases imp) (auto simp: handle_client_def handle_client_filtered_def devs_def)
  obtain d where d: "d \<in> set devs" "info_id (info d) = did" "ws' \<noteq> []" "last ws' = import_reply 0 (encode_device_header d)"
    using import_loop_device [OF l [unfolded imp]] by blast
  then have "d \<in> set devices \<and> exported (info d) \<and> us = serve_urbs (info_id (info d)) r \<and>
      ws \<noteq> [] \<and> last ws = import_reply 0 (encode_device_header d)"
    by (simp add: devs_def us ws)
  then show ?thesis by blast
qed

text \<open>A client that imports the keyboard and asks for its device descriptor.\<close>

definition descriptor_request :: usbip_cmd_submit where
  "descriptor_request =
     \<lparr>seqnum = 7, devid = 1, direction = 1, ep = 0, transfer_flags = 0, transfer_buffer_length = 18,
      start_frame = 0, number_of_packets = 0, interval = 0, usb_setup = [0x80, 6, 0, 1, 0, 0, 18, 0]\<rparr>"

lemma descriptor_request_read:
  "read_command (encode_cmd_submit descriptor_request @ r) = Some (SubmitCommand descriptor_request Control [], r)"
proof -
  have "transfer_of descriptor_request = Control" by (simp add: transfer_of_def descriptor_request_def)
  then show ?thesis
    using read_command_in [of descriptor_request r] by (simp add: descriptor_request_def)
qed

lemma keyboard_session:
  "handle_client simulated_lab_devices (import_request ''1-1.2'' @ encode_cmd_submit descriptor_request) =
     ([import_reply 0 (encode_device_header (hd simulated_lab_devices))],
      [submit_reply descriptor_request (completed 7 0 hid_keyboard_descriptor)], Inr ())"
proof -
  have ex: "filter (\<lambda>d. exported (info d)) simulated_lab_devices = simulated_lab_devices"
    by (simp add: simulated_lab_devices_def lab_device_def)
  have hd: "find (\<lambda>d. bus_id (info d) = ''1-1.2'') simulated_lab_devices = Some (hd simulated_lab_devices)"
    "info_id (info (hd simulated_lab_devices)) = 1"
    by (simp_all add: simulated_lab_devices_def lab_device_def)
  have l: "import_loop simulated_lab_devices (import_request ''1-1.2'' @ r) =
      ([import_reply 0 (encode_device_header (hd simulated_lab_devices))], Some (1, r), Inr ())" for r
    using import_loop_request [OF _ _ hd(1)] by (simp add: hd(2) as_bytes_def)
  have "read_command [] = None" by (simp add: read_command_def read_exact_def)
  then have "serve_urbs 1 (encode_cmd_submit descriptor_request) = proxy_reply 1 (SubmitCommand descriptor_request Control [])"
    using descriptor_request_read [of "[]"] by (simp add: serve_urbs.simps [of _ "encode_cmd_submit _"] serve_urbs.simps [of _ "[]"])
  also have "\<dots> = [submit_reply descriptor_request (completed 7 0 hid_keyboard_descriptor)]"
    by (simp add: submit_of_def urb_submit_data_def descriptor_request_def complete_urb_def control_complete_def)
  finally show ?thesis by (simp add: handle_client_def handle_client_filtered_def ex l)
qed

theorem proxy_serves_exported_only_witness:
  "\<exists>d r. d \<in> set simulated_lab_devices \<and> exported (info d) \<and>
     [submit_reply descriptor_request (completed 7 0 hid_keyboard_descriptor)] = serve_urbs (info_id (info d)) r"
  using proxy_serves_exported_only [OF keyboard_session] by blast

text \<open>
  C31. A device list can be taken apart by the sizes announced in it: a client that reads the count, then for
  each device 312 bytes and four bytes for each announced interface, gets every device with its interfaces and
  ends exactly at the end of the reply, as long as no device has more than 255 interfaces.
\<close>

theorem devlist_self_delimiting:
  assumes "\<forall>d \<in> set devs. length (interfaces (info d)) \<le> 255" and "length devs < 2 ^ 32"
  shows "read_devlist (devlist_reply devs @ r) =
    Some (map (\<lambda>d. (encode_device_header d, encode_interfaces d)) devs, r)"
proof -
  obtain n where n: "try_u32 (length devs) = Some n" "unat n = length devs"
    using assms(2) by (cases "try_u32 (length devs)") auto
  have "devlist_reply devs @ r = (u16_to_be_bytes USBIP_VERSION @ u16_to_be_bytes OP_REP_DEVLIST @ u32_to_be_bytes 0 @
      u32_to_be_bytes n) @ concat (map (\<lambda>d. encode_device_header d @ encode_interfaces d) devs) @ r"
    by (simp add: devlist_reply_def n)
  also have "read_devlist \<dots> = read_devices (length devs) (concat (map (\<lambda>d. encode_device_header d @ encode_interfaces d) devs) @ r)"
    unfolding read_devlist_def by (simp add: read_exact_def n)
  finally show ?thesis by (simp add: read_devices_encoded [OF assms(1)])
qed

theorem devlist_self_delimiting_witness:
  "read_devlist (devlist_reply simulated_lab_devices @ [1, 2]) =
    Some (map (\<lambda>d. (encode_device_header d, encode_interfaces d)) simulated_lab_devices, [1, 2])"
  by (rule devlist_self_delimiting) (simp_all add: simulated_lab_devices_def lab_device_def)

text \<open>
  Every URB a USB/IP client can put on a connection fits one frame of the control plane once it is
  forwarded: no command it is allowed to send is too long to be encoded.
\<close>

lemma usbip_urb_fits_frame:
  assumes "read_command inp = Some (SubmitCommand cmd tr p, r)"
  shows "\<exists>bs. encode (UrbSubmit (submit_of did cmd tr p)) = Inr bs"
proof -
  have "length (submit_data (submit_of did cmd tr p)) \<le> 8 + 65536"
    using length_submit_data [of did cmd tr p] read_command_submit(2,3) [OF assms] by linarith
  then show ?thesis by (subst encode_fits(1)) simp_all
qed

lemma usbip_urb_fits_frame_example:
  "\<exists>bs. encode (UrbSubmit (submit_of 1 descriptor_request Control [])) = Inr bs"
  using usbip_urb_fits_frame [OF descriptor_request_read] .

text \<open>
  The emulator does not look at the length the host asked for: a request for eight bytes of the
  device descriptor is answered with all eighteen.
\<close>

lemma emulator_exceeds_request:
  "length (submit_reply (descriptor_request\<lparr>transfer_buffer_length := 8\<rparr>)
     (complete_urb (submit_of 1 (descriptor_request\<lparr>transfer_buffer_length := 8\<rparr>) Control []))) = 48 + 18"
  by (simp add: submit_of_def urb_submit_data_def descriptor_request_def complete_urb_def control_complete_def
      completed_def hid_keyboard_descriptor_def submit_reply_def ret_of_def)

end
