(* ===== verification/Usbip_Forward.thy ===== *)
theory Usbip_Forward
  imports Usbip_Proxy Client_Calls
begin

text \<open>
  The USB/IP server that forwards URBs over an authenticated FarBus session
  (\<^verbatim>\<open>crates/farbus-core/src/usbip_forward.rs\<close>). Its loops make the calls of theory \<open>Client_Calls\<close>.
\<close>

section \<open>Recovery\<close>

definition reattach_once :: "network \<Rightarrow> farbus_client \<Rightarrow> device_id \<Rightarrow> history \<Rightarrow> (client_error + attach_response) \<times> history" where
  "reattach_once net c did h =
     (case fw_reconnect net c h of
        (Inr _, h1) \<Rightarrow> fw_attach net c did h1
      | (Inl e, h1) \<Rightarrow> (Inl e, h1))"

fun reattach_loop ::
    "network \<Rightarrow> farbus_client \<Rightarrow> device_id \<Rightarrow> nat \<Rightarrow> nat \<Rightarrow> client_error \<Rightarrow> history \<Rightarrow> (client_error + unit) \<times> history" where
  "reattach_loop net c did 0 backoff last_err h = (Inl last_err, h)"
| "reattach_loop net c did (Suc n) backoff last_err h =
     (case reattach_once net c did h of
        (Inr _, h1) \<Rightarrow> (Inr (), h1)
      | (Inl err, h1) \<Rightarrow>
          if err = AttachRejected then (Inl AttachRejected, h1)
          else reattach_loop net c did n (min (backoff * 2) 500) err (h1 @ [Slept backoff]))"

definition reconnect_and_reattach ::
    "network \<Rightarrow> farbus_client \<Rightarrow> device_id \<Rightarrow> history \<Rightarrow> (client_error + unit) \<times> history" where
  "reconnect_and_reattach net c did h = reattach_loop net c did 8 50 Closed h"

fun connection_lost :: "client_error \<Rightarrow> bool" where
  "connection_lost Closed = True"
| "connection_lost (FrameFailed _) = True"
| "connection_lost (IoFailed _) = True"
| "connection_lost _ = False"

function urb_attempts ::
    "network \<Rightarrow> farbus_client \<Rightarrow> urb_submit \<Rightarrow> nat \<Rightarrow> history \<Rightarrow> (client_error + urb_complete) \<times> history" where
  "urb_attempts net c u attempt h =
     (case fw_urb net u h of
        (Inr complete, h1) \<Rightarrow> (Inr complete, h1)
      | (Inl err, h1) \<Rightarrow>
          if connection_lost err \<and> attempt = 0
          then (case reconnect_and_reattach net c (submit_device_id u) h1 of
                  (Inl e, h2) \<Rightarrow> (Inl e, h2)
                | (Inr _, h2) \<Rightarrow> urb_attempts net c u (attempt + 1) h2)
          else (Inl err, h1))"
  by pat_completeness auto
termination by (relation "measure (\<lambda>(net, c, u, attempt, h). 1 - attempt)") auto

declare urb_attempts.simps [simp del]

definition urb_with_recovery ::
    "network \<Rightarrow> farbus_client \<Rightarrow> urb_submit \<Rightarrow> history \<Rightarrow> (client_error + urb_complete) \<times> history" where
  "urb_with_recovery net c u h = urb_attempts net c u 0 h"

section \<open>The URB phase\<close>

text \<open>
  The reader is the one of the proxy (\<open>commands_read\<close>). Every command is carried out by a task of
  its own; \<open>nets k\<close> is what the task of the \<open>k\<close>-th command finds.
\<close>

definition failed_complete :: "u32 \<Rightarrow> urb_complete" where
  "failed_complete seq = \<lparr>complete_seq = seq, complete_status = - 1, complete_data = []\<rparr>"

fun forward_reply :: "network \<Rightarrow> farbus_client \<Rightarrow> device_id \<Rightarrow> usbip_command \<Rightarrow> bytes list" where
  "forward_reply net c did (SubmitCommand cmd tr out_payload) =
     [submit_reply cmd
        (case fst (urb_with_recovery net c (submit_of did cmd tr out_payload) []) of
           Inr complete \<Rightarrow> complete
         | Inl _ \<Rightarrow> failed_complete (seqnum cmd))]"
| "forward_reply net c did (UnlinkCommand cmd) =
     [unlink_reply cmd (case fst (fw_unlink net did (unlink_seqnum cmd) []) of Inr status \<Rightarrow> status | Inl _ \<Rightarrow> 0)]"
| "forward_reply net c did Skipped = []"

fun forward_replies :: "(nat \<Rightarrow> network) \<Rightarrow> farbus_client \<Rightarrow> device_id \<Rightarrow> nat \<Rightarrow> usbip_command list \<Rightarrow> bytes list" where
  "forward_replies nets c did k [] = []"
| "forward_replies nets c did k (cmd # cmds) =
     forward_reply (nets k) c did cmd @ forward_replies nets c did (Suc k) cmds"

definition forward_urbs :: "(nat \<Rightarrow> network) \<Rightarrow> farbus_client \<Rightarrow> device_id \<Rightarrow> bytes \<Rightarrow> bytes list" where
  "forward_urbs nets c did inp = forward_replies nets c did 0 (commands_read inp)"

section \<open>A connection\<close>

definition live_forward_devices ::
    "network \<Rightarrow> farbus_client \<Rightarrow> history \<Rightarrow> local_device list \<times> history" where
  "live_forward_devices net c h =
     (case fw_devices net c h of
        (Inl _, h1) \<Rightarrow> ([], h1)
      | (Inr l, h1) \<Rightarrow> (map (\<lambda>i. \<lparr>info = i, backend = Emulated\<rparr>) l, h1))"

type_synonym forward_end = "bytes list \<times> (local_device \<times> bytes) option \<times> (io_error + unit) \<times> history"

definition also_wrote :: "bytes \<Rightarrow> forward_end \<Rightarrow> forward_end" where
  "also_wrote w e = (case e of (ws, x) \<Rightarrow> (w # ws, x))"

function forward_loop :: "network \<Rightarrow> farbus_client \<Rightarrow> bytes \<Rightarrow> history \<Rightarrow> forward_end" where
  "forward_loop net c inp h =
     (case read_exact 8 inp of
        None \<Rightarrow> ([], None, Inr (), h)
      | Some (header, r) \<Rightarrow>
          let version = u16_from_be_bytes (take 2 header);
              command = u16_from_be_bytes (take 2 (drop 2 header))
          in if version \<noteq> USBIP_VERSION then ([], None, Inr (), h)
             else if command = OP_REQ_DEVLIST
             then let (devices, h1) = live_forward_devices net c h
                  in also_wrote (devlist_reply devices) (forward_loop net c r h1)
             else if command = OP_REQ_IMPORT
             then let (devices, h1) = live_forward_devices net c h
                  in case read_exact 32 r of
                       None \<Rightarrow> ([], None, Inl UnexpectedEof, h1)
                     | Some (busid, r1) \<Rightarrow>
                         (case find (\<lambda>d. bus_id (info d) = requested_busid busid) devices of
                            None \<Rightarrow> also_wrote (import_reply 4 []) (forward_loop net c r1 h1)
                          | Some device \<Rightarrow>
                              (case fw_attach net c (info_id (info device)) h1 of
                                 (Inl _, h2) \<Rightarrow> also_wrote (import_reply 2 []) (forward_loop net c r1 h2)
                               | (Inr _, h2) \<Rightarrow>
                                   ([import_reply 0 (encode_device_header device)], Some (device, r1), Inr (), h2)))
             else ([], None, Inr (), h))"
  by pat_completeness auto
termination
  by (relation "measure (\<lambda>(net, c, inp, h). length inp)")
    (auto dest!: read_exact_shorter [OF sym] read_exact_shorter)

declare forward_loop.simps [simp del]

definition handle_forward ::
    "network \<Rightarrow> (nat \<Rightarrow> network) \<Rightarrow> farbus_client \<Rightarrow> bytes \<Rightarrow> bytes list \<times> bytes list \<times> (io_error + unit) \<times> history" where
  "handle_forward net nets c inp =
     (case forward_loop net c inp [] of
        (ws, None, res, h) \<Rightarrow> (ws, [], res, h)
      | (ws, Some (device, r), res, h) \<Rightarrow>
          let replies = forward_urbs nets c (info_id (info device)) r;
              (_, h1) = fw_detach net c (info_id (info device)) h
          in (ws, replies, Inr (), h1))"

section \<open>What a task does\<close>

text \<open>One round of the recovery dials once and submits nothing; a round that succeeds ends with a
  new session on which the device was attached.\<close>

lemma reattach_once_events:
  "\<exists>t. snd (reattach_once net c did h) = h @ t \<and> dials t = 1 \<and> submissions t = 0 \<and> slept t = 0"
  by (cases "dial net h (server_addr c) (expected c)"; cases "client_hello (answers net (h @ [Dialled])) c")
    (auto simp: reattach_once_def fw_reconnect_def fw_attach_def)

definition reattached :: "network \<Rightarrow> farbus_client \<Rightarrow> device_id \<Rightarrow> history \<Rightarrow> history \<Rightarrow> bool" where
  "reattached net c did h h' \<longleftrightarrow>
     (\<exists>token r. auth_token c = Some token \<and> dial net h (server_addr c) (expected c) = Inr () \<and>
        h' = h @ [Dialled, Asked (hello_cmd c), Asked (attach_cmd did token)] \<and>
        client_attach (answers net (h @ [Dialled, Asked (hello_cmd c)])) did c = Inr r)"

lemma reattach_once_success:
  "reattach_once net c did h = (Inr r, h') \<Longrightarrow> reattached net c did h h'"
  by (cases "dial net h (server_addr c) (expected c)"; cases "client_hello (answers net (h @ [Dialled])) c")
    (auto simp: reattach_once_def fw_reconnect_def fw_attach_def reattached_def asked_def client_attach_def)

lemma reattach_loop_success:
  "reattach_loop net c did n b e h = (Inr r, h') \<Longrightarrow> \<exists>t. reattached net c did (h @ t) h'"
proof (induction n arbitrary: b e h)
  case (Suc n)
  obtain res h1 where o: "reattach_once net c did h = (res, h1)" by (cases "reattach_once net c did h")
  show ?case
  proof (cases res)
    case (Inl err)
    then have "reattach_loop net c did n (min (b * 2) 500) err (h1 @ [Slept b]) = (Inr r, h')"
      using Suc.prems o by (auto split: if_splits)
    then obtain t where "reattached net c did ((h1 @ [Slept b]) @ t) h'" using Suc.IH by blast
    moreover obtain t' where "h1 = h @ t'" using reattach_once_events [of net c did h] o by auto
    ultimately show ?thesis by (intro exI [of _ "t' @ [Slept b] @ t"]) simp
  next
    case (Inr x)
    then have "h' = h1" using Suc.prems o by simp
    then have "reattached net c did (h @ []) h'" using reattach_once_success o Inr by auto
    then show ?thesis by blast
  qed
qed simp

lemma reattach_loop_events:
  "\<exists>t. snd (reattach_loop net c did n b e h) = h @ t \<and> dials t \<le> n \<and> submissions t = 0 \<and> slept t \<le> sleep_budget 500 n b"
proof (induction n arbitrary: b e h)
  case (Suc n)
  obtain res h1 where o: "reattach_once net c did h = (res, h1)" by (cases "reattach_once net c did h")
  then obtain t1 where t1: "h1 = h @ t1" "dials t1 = 1" "submissions t1 = 0" "slept t1 = 0"
    using reattach_once_events [of net c did h] by auto
  show ?case
  proof (cases "\<exists>err. res = Inl err \<and> err \<noteq> AttachRejected")
    case True
    then obtain err where err: "res = Inl err" "err \<noteq> AttachRejected" by blast
    from Suc.IH [of "min (b * 2) 500" err "h1 @ [Slept b]"]
    obtain t2 where "snd (reattach_loop net c did n (min (b * 2) 500) err (h1 @ [Slept b])) = h1 @ [Slept b] @ t2"
      "dials t2 \<le> n" "submissions t2 = 0" "slept t2 \<le> sleep_budget 500 n (min (b * 2) 500)" by auto
    then show ?thesis
      using o err t1 by (intro exI [of _ "t1 @ [Slept b] @ t2"]) simp
  next
    case False
    then have "snd (reattach_loop net c did (Suc n) b e h) = h1" using o by (cases res) auto
    then show ?thesis using t1 by (intro exI [of _ t1]) simp
  qed
qed simp

lemma recovery_budget: "sleep_budget 500 8 50 = 2750"
  by (simp add: eval_nat_numeral)

text \<open>The loop of \<open>urb_with_recovery\<close>, unrolled.\<close>

lemma urb_with_recovery_unfold:
  "urb_with_recovery net c u h =
     (case fw_urb net u h of
        (Inr complete, h1) \<Rightarrow> (Inr complete, h1)
      | (Inl err, h1) \<Rightarrow>
          if connection_lost err
          then (case reconnect_and_reattach net c (submit_device_id u) h1 of
                  (Inl e, h2) \<Rightarrow> (Inl e, h2)
                | (Inr _, h2) \<Rightarrow> fw_urb net u h2)
          else (Inl err, h1))"
proof -
  have "urb_attempts net c u 1 h = fw_urb net u h" for h
    by (subst urb_attempts.simps) (auto split: prod.splits sum.splits)
  then show ?thesis
    unfolding urb_with_recovery_def by (subst urb_attempts.simps) (simp cong: sum.case_cong prod.case_cong if_cong)
qed

lemma fw_urb_events: "snd (fw_urb net u h) = h @ [Asked (UrbCmd u)]"
  by (simp add: fw_urb_def)

lemma recovery_history:
  obtains (once) "snd (urb_with_recovery net c u h) = h @ [Asked (UrbCmd u)]"
      "fst (urb_with_recovery net c u h) = fst (fw_urb net u h)"
    | (failed) t where "snd (urb_with_recovery net c u h) = h @ [Asked (UrbCmd u)] @ t"
      "dials t \<le> 8" "submissions t = 0" "slept t \<le> 2750"
    | (retried) t h2 where "snd (urb_with_recovery net c u h) = h @ [Asked (UrbCmd u)] @ t @ [Asked (UrbCmd u)]"
      "dials t \<le> 8" "submissions t = 0" "slept t \<le> 2750" "h2 = h @ [Asked (UrbCmd u)] @ t"
      "reconnect_and_reattach net c (submit_device_id u) (h @ [Asked (UrbCmd u)]) = (Inr (), h2)"
proof -
  let ?h1 = "h @ [Asked (UrbCmd u)]"
  obtain res where f: "fw_urb net u h = (res, ?h1)" using fw_urb_events [of net u h] by (cases "fw_urb net u h") auto
  show thesis
  proof (cases "\<exists>err. res = Inl err \<and> connection_lost err")
    case False
    with f show thesis by (intro once) (cases res; simp add: urb_with_recovery_unfold)+
  next
    case True
    then obtain err where err: "res = Inl err" "connection_lost err" by blast
    obtain res2 t where r: "reconnect_and_reattach net c (submit_device_id u) ?h1 = (res2, ?h1 @ t)"
      and t: "dials t \<le> 8" "submissions t = 0" "slept t \<le> 2750"
      using reattach_loop_events [of net c "submit_device_id u" 8 50 Closed ?h1]
      unfolding recovery_budget reconnect_and_reattach_def
      by (cases "reattach_loop net c (submit_device_id u) 8 50 Closed ?h1") auto
    show thesis
    proof (cases res2)
      case (Inl e)
      with f err r t show thesis by (intro failed [of t]) (simp_all add: urb_with_recovery_unfold)
    next
      case (Inr x)
      with f err r t show thesis
        by (intro retried [of t "?h1 @ t"]) (simp_all add: urb_with_recovery_unfold fw_urb_events)
    qed
  qed
qed

section \<open>Replies and leases of a connection\<close>

text \<open>The client only ever hands out completions it has read from the wire.\<close>

definition from_wire :: "network \<Rightarrow> bool" where
  "from_wire net \<longleftrightarrow>
     (\<forall>h q complete. answers net h q = Inr (UrbAnswer complete) \<longrightarrow> (\<exists>bs. decode bs = Inr (UrbComplete complete)))"

lemma wire_complete_short: "decode bs = Inr (UrbComplete complete) \<Longrightarrow> length (complete_data complete) < 2 ^ 32"
  using encode_fits(1) [of "UrbComplete complete"] decode_iff [of bs "UrbComplete complete"] by auto

lemma fw_urb_wire:
  assumes "from_wire net" "fst (fw_urb net u h) = Inr complete"
  shows "length (complete_data complete) < 2 ^ 32"
proof -
  obtain q where "answers net h q = Inr (UrbAnswer complete)"
    using assms(2) by (auto simp: fw_urb_def urb_with_length_def split: sum.splits answer.splits if_splits)
  with assms(1) obtain bs where "decode bs = Inr (UrbComplete complete)" unfolding from_wire_def by blast
  then show ?thesis by (rule wire_complete_short)
qed

lemma recovery_result:
  "fst (urb_with_recovery net c u h) = Inr complete \<Longrightarrow> \<exists>h'. fst (fw_urb net u h') = Inr complete"
  unfolding urb_with_recovery_unfold
  by (auto split: prod.splits sum.splits if_splits) (metis fst_conv)+

lemma forward_reply_answers:
  assumes "from_wire net" "cmd \<noteq> Skipped"
  shows "\<exists>r. forward_reply net c did cmd = [r] \<and> reply_answers cmd r"
proof (cases cmd)
  case (SubmitCommand s tr p)
  have "length (complete_data (case fst (urb_with_recovery net c (submit_of did s tr p) []) of
      Inr complete \<Rightarrow> complete | Inl _ \<Rightarrow> failed_complete (seqnum s))) < 2 ^ 32"
    using fw_urb_wire [OF assms(1)] recovery_result [of net c "submit_of did s tr p" "[]"]
    by (fastforce simp: failed_complete_def split: sum.splits)
  from submit_reply_answers [OF this] show ?thesis by (simp add: SubmitCommand del: reply_answers.simps)
qed (use assms(2) in \<open>auto simp: unlink_reply_answers simp del: reply_answers.simps\<close>)

lemma forward_command_server: "\<forall>k. from_wire (nets k) \<Longrightarrow> command_server (\<lambda>k. forward_reply (nets k) c did)"
  by unfold_locales (simp add: forward_reply_answers)

lemma forward_replies_server:
  "\<forall>k. from_wire (nets k) \<Longrightarrow>
     forward_replies nets c did k cs = command_server.replies (\<lambda>k. forward_reply (nets k) c did) k cs"
  by (induction cs arbitrary: k) (simp_all add: command_server.replies.simps [OF forward_command_server])

text \<open>How the import phase hands a device over.\<close>

definition attached_on :: "network \<Rightarrow> farbus_client \<Rightarrow> local_device \<Rightarrow> history \<Rightarrow> bool" where
  "attached_on net c d h \<longleftrightarrow>
     (\<exists>token h0 r. auth_token c = Some token \<and> h = h0 @ [Asked (attach_cmd (info_id (info d)) token)] \<and>
        client_attach (answers net h0) (info_id (info d)) c = Inr r)"

lemma fw_attach_success:
  "fw_attach net c (info_id (info d)) h = (Inr r, h') \<Longrightarrow> attached_on net c d h'"
  by (auto simp: fw_attach_def attached_on_def asked_def client_attach_def)

lemma also_wrote_eq [simp]:
  "also_wrote w e = (ws, x) \<longleftrightarrow> (\<exists>ws'. e = (ws', x) \<and> ws = w # ws')"
  by (cases e) (auto simp: also_wrote_def)

text \<open>One turn of the import loop: it goes on with a shorter input, ends, or hands a device over.\<close>

lemma forward_loop_cases:
  obtains (goes_on) w r' h1 where "length r' < length inp"
      "forward_loop net c inp h = also_wrote w (forward_loop net c r' h1)"
    | (ends) res h1 where "forward_loop net c inp h = ([], None, res, h1)"
    | (hands_over) d r' h1 where "attached_on net c d h1"
      "forward_loop net c inp h = ([import_reply 0 (encode_device_header d)], Some (d, r'), Inr (), h1)"
proof (cases "read_exact 8 inp")
  case None
  then show thesis by (intro ends) (simp add: forward_loop.simps [of net c inp h])
next
  case (Some hr)
  obtain x r0 where hr: "hr = (x, r0)" by (cases hr)
  have l0: "length r0 < length inp" using Some hr read_exact_shorter [of 8 inp x r0] by auto
  obtain ds h1 where live: "live_forward_devices net c h = (ds, h1)" by (cases "live_forward_devices net c h")
  let ?v = "u16_from_be_bytes (take 2 x)" and ?c = "u16_from_be_bytes (take 2 (drop 2 x))"
  note eq = forward_loop.simps [of net c inp h, unfolded Some hr live option.case prod.case Let_def]
  consider (stop) "?v \<noteq> USBIP_VERSION \<or> ?c \<noteq> OP_REQ_DEVLIST \<and> ?c \<noteq> OP_REQ_IMPORT"
    | (devlist) "?v = USBIP_VERSION" "?c = OP_REQ_DEVLIST" | (imp) "?v = USBIP_VERSION" "?c = OP_REQ_IMPORT"
    by blast
  then show thesis
  proof cases
    case stop
    then show thesis by (intro ends) (auto simp: eq)
  next
    case devlist
    with l0 show thesis by (intro goes_on) (simp_all add: eq)
  next
    case imp
    show thesis
    proof (cases "read_exact 32 r0")
      case None
      with imp show thesis by (intro ends) (simp add: eq)
    next
      case (Some br)
      obtain b r1 where br: "br = (b, r1)" by (cases br)
      have l1: "length r1 < length inp" using l0 Some br read_exact_shorter [of 32 r0 b r1] by auto
      show thesis
      proof (cases "find (\<lambda>d. bus_id (info d) = requested_busid b) ds")
        case None
        with imp Some br l1 show thesis by (intro goes_on) (simp_all add: eq)
      next
        case (Some d)
        obtain a h2 where at: "fw_attach net c (info_id (info d)) h1 = (a, h2)"
          by (cases "fw_attach net c (info_id (info d)) h1")
        with imp Some \<open>read_exact 32 r0 = _\<close> br l1 fw_attach_success [of net c d h1] show thesis
          by (cases a) (auto intro: goes_on [OF l1] hands_over simp: eq)
      qed
    qed
  qed
qed

lemma forward_loop_attached:
  "forward_loop net c inp h = (ws, Some (d, r), res, h') \<Longrightarrow>
     attached_on net c d h' \<and> ws \<noteq> [] \<and> last ws = import_reply 0 (encode_device_header d)"
proof (induction "length inp" arbitrary: inp ws h rule: less_induct)
  case less
  show ?case
  proof (cases rule: forward_loop_cases [where net = net and c = c and inp = inp and h = h])
    case (goes_on w r' h1)
    with less(2) obtain ws' where "forward_loop net c r' h1 = (ws', Some (d, r), res, h')" "ws = w # ws'" by auto
    with less(1) [OF goes_on(1)] show ?thesis by auto
  qed (use less(2) in auto)
qed

lemma forward_loop_request:
  assumes "length s \<le> 31" "\<forall>b \<in> set (as_bytes s). b < 0x80 \<and> b \<noteq> 0"
    and "live_forward_devices net c h = (ds, h1)" "find (\<lambda>d. bus_id (info d) = s) ds = Some d"
    and "fw_attach net c (info_id (info d)) h1 = (Inr a, h2)"
  shows "forward_loop net c (import_request s @ r) h =
    ([import_reply 0 (encode_device_header d)], Some (d, r), Inr (), h2)"
proof -
  let ?h = "u16_to_be_bytes USBIP_VERSION @ u16_to_be_bytes OP_REQ_IMPORT @ u32_to_be_bytes 0"
  have i: "import_request s @ r = ?h @ padded s 32 @ r" by (simp add: import_request_def)
  have "read_exact 8 (import_request s @ r) = Some (?h, padded s 32 @ r)" unfolding i by (rule read_exact_append) simp
  moreover have "read_exact 32 (padded s 32 @ r) = Some (padded s 32, r)" by simp
  ultimately show ?thesis
    using assms(3-5) by (subst forward_loop.simps) (simp add: requested_busid_padded [OF assms(1,2)])
qed

section \<open>Properties\<close>


text \<open>
  C26. A URB is submitted a second time only after the connection was lost and, in between, a new session was
  opened to the pinned server, greeted, and the same device was attached on it: the last three calls before
  the second submission are the dialling, the hello and the successful attach.
\<close>

theorem retry_only_after_reattach:
  assumes "snd (urb_with_recovery net c u h) = h @ t" and "submissions t = 2"
  shows "(\<exists>e. fst (fw_urb net u h) = Inl e \<and> connection_lost e) \<and>
    (\<exists>h0 h2. reattached net c (submit_device_id u) h0 h2 \<and> h @ t = h2 @ [Asked (UrbCmd u)] \<and>
       fst (urb_with_recovery net c u h) = fst (fw_urb net u h2))"
proof (cases rule: recovery_history [where net = net and c = c and u = u and h = h])
  case (retried t' h2)
  obtain res h1 where f: "fw_urb net u h = (res, h1)" by (cases "fw_urb net u h")
  then have h1: "h1 = h @ [Asked (UrbCmd u)]" using fw_urb_events [of net u h] by simp
  have lost: "\<exists>e. res = Inl e \<and> connection_lost e"
  proof (rule ccontr)
    assume "\<not> ?thesis"
    with f have "snd (urb_with_recovery net c u h) = h1" by (cases res) (auto simp: urb_with_recovery_unfold)
    with retried(1) h1 show False by simp
  qed
  then have "fst (urb_with_recovery net c u h) = fst (fw_urb net u h2)"
    using f h1 retried(6) by (auto simp: urb_with_recovery_unfold)
  moreover have "\<exists>h0. reattached net c (submit_device_id u) h0 h2"
    using retried(6) reattach_loop_success unfolding reconnect_and_reattach_def by blast
  ultimately show ?thesis using lost f retried(1,5) assms(1) by auto
qed (use assms in auto)

text \<open>A server that drops the first connection when the URB arrives and serves the second one.\<close>

definition flaky_grant :: "device_id \<Rightarrow> attach_response" where
  "flaky_grant did = \<lparr>attached_device_id = did, attach_success = True, usbip_port = 3240, attached_bus_id = ''1-1.2''\<rparr>"

definition flaky_network :: network where
  "flaky_network =
     \<lparr>dial = (\<lambda>h a fp. Inr ()),
      answers = (\<lambda>h q. case q of
        UrbCmd u \<Rightarrow> if h = [] then Inl Closed else Inr (UrbAnswer (completed (submit_seq u) 0 []))
      | UnlinkCmd u \<Rightarrow> Inr (StatusAnswer 0)
      | ControlCmd m \<Rightarrow> (case m of
            Hello x \<Rightarrow> Inr (MessageAnswer (Hello x))
          | DeviceListRequest t \<Rightarrow> Inr (MessageAnswer (DeviceList (map info simulated_lab_devices)))
          | AttachRequest a \<Rightarrow> Inr (MessageAnswer (AttachResponse (flaky_grant (attach_device_id a))))
          | DetachRequest d \<Rightarrow> Inr (MessageAnswer (Detach (detach_device_id d)))
          | _ \<Rightarrow> Inl Closed)),
      drawn = (\<lambda>h. replicate 32 2)\<rparr>"

definition flaky_client :: farbus_client where
  "flaky_client =
     \<lparr>client_identity = \<lparr>id_fingerprint = replicate 32 1, id_secret = replicate 32 2\<rparr>,
      auth_token = Some (replicate 32 3), server_addr = SocketV4 0x7f000001 7420, expected = replicate 32 4\<rparr>"

abbreviation flaky_urb :: urb_submit where
  "flaky_urb \<equiv> submit_of 1 descriptor_request Control []"

lemma flaky_hello: "client_hello (answers flaky_network h) c = Inr ()"
  by (simp add: client_hello_def flaky_network_def)

lemma flaky_attach: "auth_token c = Some token \<Longrightarrow> client_attach (answers flaky_network h) did c = Inr (flaky_grant did)"
  by (simp add: client_attach_def flaky_network_def flaky_grant_def)

lemma flaky_recovery:
  "snd (urb_with_recovery flaky_network flaky_client flaky_urb []) =
     [] @ [Asked (UrbCmd flaky_urb), Dialled, Asked (hello_cmd flaky_client),
       Asked (attach_cmd (submit_device_id flaky_urb) (replicate 32 3)), Asked (UrbCmd flaky_urb)]"
proof -
  have u: "fw_urb flaky_network flaky_urb [] = (Inl Closed, [Asked (UrbCmd flaky_urb)])"
    by (simp add: fw_urb_def urb_with_length_def) (simp add: flaky_network_def)
  have d: "dial flaky_network h a fp = Inr ()" for h a fp by (simp add: flaky_network_def)
  have t: "auth_token flaky_client = Some (replicate 32 3)" by (simp add: flaky_client_def)
  have "reattach_once flaky_network flaky_client did h =
      (Inr (flaky_grant did), h @ [Dialled, Asked (hello_cmd flaky_client), Asked (attach_cmd did (replicate 32 3))])" for h did
    by (simp add: reattach_once_def fw_reconnect_def fw_attach_def asked_def d flaky_hello t flaky_attach [OF t])
  then have "reconnect_and_reattach flaky_network flaky_client did h =
      (Inr (), h @ [Dialled, Asked (hello_cmd flaky_client), Asked (attach_cmd did (replicate 32 3))])" for did h
    by (simp add: reconnect_and_reattach_def eval_nat_numeral)
  with u show ?thesis by (simp add: urb_with_recovery_unfold fw_urb_events)
qed

theorem retry_only_after_reattach_witness:
  "\<exists>h0 h2. reattached flaky_network flaky_client (submit_device_id flaky_urb) h0 h2 \<and>
     fst (urb_with_recovery flaky_network flaky_client flaky_urb []) = fst (fw_urb flaky_network flaky_urb h2)"
  using retry_only_after_reattach [OF flaky_recovery] by (auto simp: attach_cmd_def hello_cmd_def)

text \<open>
  C27. The forwarder answers every command it reads with exactly one reply, in which the sequence number and the
  announced length are right, whatever the server does and however the recoveries of the single URBs end.
\<close>

theorem forward_answers_commands:
  assumes "\<forall>k. from_wire (nets k)"
  shows "list_all2 reply_answers (commands_read inp) (forward_urbs nets c did inp)"
  unfolding forward_urbs_def forward_replies_server [OF assms]
  by (rule command_server.commands_answered [OF forward_command_server [OF assms]])

lemma flaky_from_wire: "from_wire flaky_network"
proof -
  have "\<exists>bs. decode bs = Inr (UrbComplete (completed seq 0 []))" for seq
    unfolding decode_iff using encode_fits(1) [of "UrbComplete (completed seq 0 [])"] by (simp add: completed_def)
  then show ?thesis
    by (auto simp: from_wire_def flaky_network_def split: client_cmd.splits message.splits if_splits)
qed

theorem forward_answers_commands_witness:
  "\<exists>r. forward_urbs (\<lambda>_. flaky_network) flaky_client 1 (encode_cmd_submit descriptor_request) = [r] \<and>
     reply_answers (SubmitCommand descriptor_request Control []) r"
proof -
  have "read_command [] = None" by (simp add: read_command_def read_exact_def)
  then have "commands_read (encode_cmd_submit descriptor_request) = [SubmitCommand descriptor_request Control []]"
    using descriptor_request_read [of "[]"] by (simp add: commands_read.simps [of "encode_cmd_submit _"] commands_read.simps [of "[]"])
  then show ?thesis
    using forward_answers_commands [of "\<lambda>_. flaky_network" "encode_cmd_submit descriptor_request" flaky_client 1]
    by (simp add: flaky_from_wire list_all2_Cons1 del: reply_answers.simps)
qed


lemma flaky_live:
  "live_forward_devices flaky_network flaky_client h =
     (map (\<lambda>d. d\<lparr>backend := Emulated\<rparr>) simulated_lab_devices, h @ [Asked (ControlCmd (DeviceListRequest (replicate 32 3)))])"
  by (simp add: live_forward_devices_def fw_devices_def client_devices_def flaky_network_def flaky_client_def asked_def
      simulated_lab_devices_def lab_device_def)


end
