(* ===== verification/Transparency.thy ===== *)
theory Transparency
  imports End_To_End Usbip_Forward
begin

text \<open>
  The forwarder of the client over the server: a USB/IP driver that uses a device through
  \<open>usbip_forward.rs\<close>, the FarBus connection and the server's session gets the very bytes it would get from
  the USB/IP listener on the server's own machine (\<open>usbip_proxy.rs\<close>).
\<close>

section \<open>A network from a point on\<close>

text \<open>The calls of a task see the network after everything that happened before the task.\<close>

definition after :: "network \<Rightarrow> history \<Rightarrow> network" where
  "after net h =
     \<lparr>dial = (\<lambda>h'. dial net (h @ h')), answers = (\<lambda>h'. answers net (h @ h')), drawn = (\<lambda>h'. drawn net (h @ h'))\<rparr>"

lemma after_devices:
  "fw_devices net c (h @ h') = (r, h @ h2) \<Longrightarrow> fw_devices (after net h) c h' = (r, h2)"
  by (auto simp: fw_devices_def after_def)

lemma after_attach:
  "fw_attach net c d (h @ h') = (r, h @ h2) \<Longrightarrow> fw_attach (after net h) c d h' = (r, h2)"
  by (auto simp: fw_attach_def after_def)

lemma after_urb: "fst (fw_urb (after net h) u []) = fst (fw_urb net u h)"
  by (simp add: fw_urb_def after_def)

lemma after_unlink: "fst (fw_unlink (after net h) d n []) = fst (fw_unlink net d n h)"
  by (simp add: fw_unlink_def after_def)

section \<open>Conditions\<close>

text \<open>The offered devices are emulated, can be leased to \<open>p\<close> and can be listed in one frame.\<close>

definition usable :: "server_state \<Rightarrow> fingerprint \<Rightarrow> bool" where
  "usable s p \<longleftrightarrow> inventory_wf (devices s) \<and> urb_completer s = None \<and>
     (\<forall>d \<in> set (devices_snapshot s). exported (info d) \<longrightarrow>
        backend d = Emulated \<and> owner (leases s) (info_id (info d)) \<in> {None, Some p}) \<and>
     wf_message (DeviceList (device_list s)) \<and> fields_fit (DeviceList (device_list s)) \<and>
     payload_len (DeviceList (device_list s)) \<le> MAX_PAYLOAD"

text \<open>The client holds a token that outlives the session.\<close>

definition entitled :: "(nat \<Rightarrow> env) \<Rightarrow> server_state \<Rightarrow> farbus_client \<Rightarrow> bool" where
  "entitled es s c \<longleftrightarrow> (\<exists>tok x. auth_token c = Some tok \<and> length tok = 32 \<and>
     map_of (tokens s) tok = Some (id_fingerprint (client_identity c), x) \<and> (\<forall>n. now (es n) \<le> x))"

definition forwardable :: "server_state \<Rightarrow> local_device list" where
  "forwardable s = filter (\<lambda>d. exported (info d)) (devices_snapshot s)"

lemma forwardable_live:
  assumes "usable s p"
  shows "map (\<lambda>i. \<lparr>info = i, backend = Emulated\<rparr>) (device_list s) = forwardable s"
proof -
  have "\<lparr>info = info d, backend = Emulated\<rparr> = d" if "d \<in> set (forwardable s)" for d
    using assms that by (auto simp: usable_def forwardable_def)
  then have "map (\<lambda>d. \<lparr>info = info d, backend = Emulated\<rparr>) (forwardable s) = forwardable s"
    by (rule map_idI)
  then show ?thesis by (simp add: device_list_def forwardable_def devices_snapshot_def comp_def)
qed

lemma forwardable_get:
  assumes "usable s p" "d \<in> set (forwardable s)"
  shows "inventory_get (devices s) (info_id (info d)) = Some d" "exported (info d)" "backend d = Emulated"
    "attachable s (info_id (info d)) p"
proof -
  have ids: "inv_ids (devices s)" using assms(1) by (simp add: usable_def inventory_wf_def)
  have "d \<in> ran (inventory_get (devices s))"
    using assms(2) ids by (simp add: forwardable_def devices_snapshot_def snapshot_def inv_ids_def bt.set_vals
        inventory_get_def [abs_def])
  then show g: "inventory_get (devices s) (info_id (info d)) = Some d" using ids by (auto simp: ran_def inv_ids_def)
  show e: "exported (info d)" "backend d = Emulated" using assms by (auto simp: usable_def forwardable_def)
  have "info d \<in> set (device_list s)" using assms(2) by (auto simp: device_list_def forwardable_def devices_snapshot_def)
  then have "rust_str (bus_id (info d))" "length (bus_id (info d)) \<le> 255"
    using assms(1) by (auto simp: usable_def wf_device_def device_fits_def)
  moreover have "owner (leases s) (info_id (info d)) \<in> {None, Some p}"
    using assms e by (auto simp: usable_def forwardable_def)
  ultimately show "attachable s (info_id (info d)) p" using g e by (auto simp: attachable_def)
qed

section \<open>Requests on a connection that is up\<close>

lemma devices_online:
  assumes on: "online w es s h s1 (id_fingerprint (client_identity c)) q" and ok: "usable s1 (id_fingerprint (client_identity c))"
    and tok: "auth_token c = Some tok" "length tok = 32" "map_of (tokens s1) tok = Some (id_fingerprint (client_identity c), x)"
      "now (es (length h)) \<le> x"
  shows "fw_devices (server_network w es s a draws) c h =
      (Inr (device_list s1), h @ [Asked (ControlCmd (DeviceListRequest tok))])"
    and "online w es s (h @ [Asked (ControlCmd (DeviceListRequest tok))]) s1 (id_fingerprint (client_identity c))
      (Some (id_fingerprint (client_identity c)))"
proof -
  let ?p = "id_fingerprint (client_identity c)" and ?r = "DeviceList (device_list s1)"
  have hm: "handle_message w (es (length h)) (DeviceListRequest tok) s1 l = (s1, send ?r (l\<lparr>principal := Some ?p\<rparr>))"
    if "peer l = Some ?p" "principal l = q" "pc l = Idle" for l
    using that tok by (simp add: handler_defs authorize_def send_def)
  note step = online_ask [OF on _ _ _ hm]
  have 1: "ask_server w es s h (ControlCmd (DeviceListRequest tok)) = Inr (MessageAnswer ?r)"
    by (rule step(1)) (use tok ok in \<open>simp_all add: is_control_def usable_def\<close>)
  show "online w es s (h @ [Asked (ControlCmd (DeviceListRequest tok))]) s1 ?p (Some ?p)"
    by (rule step(2)) (use tok ok in \<open>simp_all add: is_control_def usable_def\<close>)
  show "fw_devices (server_network w es s a draws) c h =
      (Inr (device_list s1), h @ [Asked (ControlCmd (DeviceListRequest tok))])"
    using 1 by (simp add: fw_devices_def client_devices_def server_network_def asked_def tok)
qed

lemma unlink_online:
  assumes on: "online w es s h s1 p (Some p)" and lease: "owner (leases s1) d = Some p"
  shows "fst (fw_unlink (server_network w es s a draws) d n h) = Inr 0"
proof -
  obtain l where l: "serve w es s h = (s1, l)" "principal l = Some p" "pc l = Idle" "tasks l = []" "\<not> reader_done l"
    using on by (auto simp: online_def)
  let ?m = "UrbUnlink \<lparr>unlink_seq = n, unlink_device_id = d\<rparr>" and ?r = "UrbUnlinked \<lparr>unlinked_seq = n, unlinked_status = 0\<rparr>"
  have m: "arrives ?m = Some ?m" "arrives ?r = Some ?r" by (rule arrives_self; simp)+
  have "handle_message w (es (length h)) ?m s1 l = (s1, send ?r l)"
    using l lease by (simp add: handler_defs)
  then have "serve_event w (es (length h)) (Asked (UnlinkCmd \<lparr>unlink_seq = n, unlink_device_id = d\<rparr>)) (s1, l) = (s1, send ?r l)"
    using l m by (simp add: serve_event_def settle_idle)
  then have "ask_server w es s h (UnlinkCmd \<lparr>unlink_seq = n, unlink_device_id = d\<rparr>) = Inr (StatusAnswer 0)"
    using l arrives_writes [OF m(1)] m(2)
    by (simp add: ask_server_def pump_reply_def pump_cmd_def await_unlink_def replace_pending_def pump_msg_def deliver_def pump_new_def)
  then show ?thesis by (simp add: fw_unlink_def client_unlink_def server_network_def)
qed

text \<open>What the tasks of a connection do meanwhile: URBs and unlinks, in any number and order.\<close>

fun data_event :: "client_event \<Rightarrow> bool" where
  "data_event (Asked (UrbCmd u)) = (payload_len (UrbSubmit u) \<le> MAX_PAYLOAD)"
| "data_event (Asked (UnlinkCmd _)) = True"
| "data_event (Slept _) = True"
| "data_event _ = False"

lemma data_event_online:
  assumes "online w es s h s1 p q" "data_event ev"
  shows "online w es s (h @ [ev]) s1 p q"
proof -
  obtain l where l: "serve w es s h = (s1, l)" "peer l = Some p" "principal l = q" "pc l = Idle" "tasks l = []" "\<not> reader_done l"
    using assms(1) by (auto simp: online_def)
  let ?e = "es (length h)"
  have urb: "\<exists>l'. handle_message w ?e (UrbSubmit u) s1 l = (s1, l') \<and> peer l' = Some p \<and> principal l' = q \<and> pc l' = Idle \<and> \<not> reader_done l'" for u
    using l by (auto simp: handle_submit permits_used_def split: option.splits)
  have unl: "\<exists>l'. handle_message w ?e (UrbUnlink u) s1 l = (s1, l') \<and> peer l' = Some p \<and> principal l' = q \<and> pc l' = Idle \<and> \<not> reader_done l'" for u
    using l by (simp add: handler_defs)
  have arr: "arrives (message_of cmd) = Some (message_of cmd)" if "ev = Asked cmd" for cmd
    by (rule arrives_self) (use assms(2) that in \<open>cases cmd; simp\<close>)+
  have "\<exists>l'. serve_event w ?e ev (s1, l) = (s1, l') \<and> peer l' = Some p \<and> principal l' = q \<and> pc l' = Idle \<and> tasks l' = [] \<and> \<not> reader_done l'"
  proof (cases ev)
    case (Asked cmd)
    have "\<exists>l'. handle_message w ?e (message_of cmd) s1 l = (s1, l') \<and> peer l' = Some p \<and> principal l' = q \<and> pc l' = Idle \<and> \<not> reader_done l'"
      using urb unl assms(2) Asked by (cases cmd) simp_all
    then obtain l' where "handle_message w ?e (message_of cmd) s1 l = (s1, l')" "peer l' = Some p" "principal l' = q" "pc l' = Idle" "\<not> reader_done l'"
      by blast
    then show ?thesis using Asked arr [OF Asked] l by (simp add: serve_event_def settle_def)
  qed (use l assms(2) in \<open>simp_all add: serve_event_def\<close>)
  then show ?thesis by (auto simp: online_def serve_snoc l(1))
qed

lemma data_events_online:
  "online w es s h s1 p q \<Longrightarrow> list_all data_event evs \<Longrightarrow> online w es s (h @ evs) s1 p q"
proof (induction evs arbitrary: h)
  case (Cons ev evs)
  then show ?case using data_event_online [of w es s h s1 p q ev] Cons.IH [of "h @ [ev]"] by simp
qed simp

section \<open>The import phase\<close>

text \<open>What the import loop of the listener hands over, seen from the forwarder.\<close>

definition same_import ::
    "world \<Rightarrow> (nat \<Rightarrow> env) \<Rightarrow> server_state \<Rightarrow> history \<Rightarrow> server_state \<Rightarrow> farbus_client \<Rightarrow>
     bytes list \<times> (device_id \<times> bytes) option \<times> (io_error + unit) \<Rightarrow> forward_end \<Rightarrow> bool" where
  "same_import w es s h s1 c i f \<longleftrightarrow>
     (case (i, f) of
        ((ws, None, res), (ws', None, res', _)) \<Rightarrow> ws' = ws \<and> res' = res
      | ((ws, Some (did, r), res), (ws', Some (d, r'), res', h')) \<Rightarrow>
          ws' = ws \<and> res' = res \<and> r' = r \<and> info_id (info d) = did \<and> d \<in> set (forwardable s1) \<and>
          (\<exists>s2. online w es s (h @ h') s2 (id_fingerprint (client_identity c)) (Some (id_fingerprint (client_identity c))) \<and>
             owner (leases s2) did = Some (id_fingerprint (client_identity c)) \<and> devices s2 = devices s1 \<and>
             tokens s2 = tokens s1 \<and> urb_completer s2 = urb_completer s1)
      | _ \<Rightarrow> False)"

lemma same_import_wrote:
  "same_import w es s h s1 c (ws, imp, res) f \<Longrightarrow> same_import w es s h s1 c (x # ws, imp, res) (also_wrote x f)"
  by (auto simp: same_import_def also_wrote_def split: prod.splits option.splits)

lemma forward_loop_imports:
  assumes "online w es s (h @ h') s1 (id_fingerprint (client_identity c)) q"
    and ok: "usable s1 (id_fingerprint (client_identity c))" and ent: "entitled es s1 c"
  shows "same_import w es s h s1 c (import_loop (forwardable s1) inp)
    (forward_loop (after (server_network w es s a draws) h) c inp h')"
  using assms(1)
proof (induction "length inp" arbitrary: inp h' q rule: less_induct)
  case less
  let ?net = "server_network w es s a draws" and ?p = "id_fingerprint (client_identity c)" and ?devs = "forwardable s1"
  obtain tok x where tok: "auth_token c = Some tok" "length tok = 32" "map_of (tokens s1) tok = Some (?p, x)"
    and time: "\<And>n. now (es n) \<le> x" using ent by (auto simp: entitled_def)
  define h1 where "h1 = h' @ [Asked (ControlCmd (DeviceListRequest tok))]"
  note dl = devices_online(1) [OF less.prems ok tok time, of a draws] devices_online(2) [OF less.prems ok tok time]
  have live: "live_forward_devices (after ?net h) c h' = (?devs, h1)"
    using after_devices [of ?net c h h' _ h1] dl(1) by (simp add: live_forward_devices_def forwardable_live [OF ok] h1_def)
  have on1: "online w es s (h @ h1) s1 ?p (Some ?p)" using dl(2) by (simp add: h1_def)
  show ?case
  proof (cases "read_exact 8 inp")
    case None
    then show ?thesis by (simp add: import_loop.simps [of _ inp] forward_loop.simps [of _ _ inp] same_import_def)
  next
    case (Some hr)
    obtain hd r where hr: "hr = (hd, r)" by (cases hr)
    have rd: "read_exact 8 inp = Some (hd, r)" using Some hr by simp
    then have lt: "length r < length inp" using read_exact_shorter [of 8 inp hd r] by auto
    let ?v = "u16_from_be_bytes (take 2 hd)" and ?cmd = "u16_from_be_bytes (take 2 (drop 2 hd))"
    note L = import_loop.simps [of ?devs inp, unfolded rd option.case prod.case Let_def [of ?v] Let_def [of ?cmd]]
    note F = forward_loop.simps [of "after ?net h" c inp h', unfolded rd option.case prod.case Let_def [of ?v] Let_def [of ?cmd] live]
    consider (stop) "?v \<noteq> USBIP_VERSION \<or> ?cmd \<notin> {OP_REQ_DEVLIST, OP_REQ_IMPORT}"
      | (devlist) "?v = USBIP_VERSION" "?cmd = OP_REQ_DEVLIST" | (imp) "?v = USBIP_VERSION" "?cmd = OP_REQ_IMPORT" by blast
    then show ?thesis
    proof cases
      case stop
      then show ?thesis by (auto simp: L F same_import_def)
    next
      case devlist
      obtain ws imp res where i: "import_loop ?devs r = (ws, imp, res)" by (metis surj_pair)
      have "same_import w es s h s1 c (ws, imp, res) (forward_loop (after ?net h) c r h1)"
        using less.hyps [OF lt on1] i by simp
      then show ?thesis using devlist by (simp add: L F i same_import_wrote)
    next
      case imp
      show ?thesis
      proof (cases "read_exact 32 r")
        case None
        then show ?thesis using imp by (simp add: L F same_import_def)
      next
        case (Some br)
        obtain b r1 where br: "br = (b, r1)" by (cases br)
        have lt1: "length r1 < length inp" using read_exact_shorter [of 32 r b r1] Some br lt by auto
        show ?thesis
        proof (cases "find (\<lambda>d. bus_id (info d) = requested_busid b) ?devs")
          case None
          obtain ws im res where i: "import_loop ?devs r1 = (ws, im, res)" by (metis surj_pair)
          have "same_import w es s h s1 c (ws, im, res) (forward_loop (after ?net h) c r1 h1)"
            using less.hyps [OF lt1 on1] i by simp
          then show ?thesis using imp Some br None i by (simp add: L F same_import_wrote)
        next
          case (Some d)
          then have d: "d \<in> set ?devs" using find_in_set by fastforce
          obtain rsp s2 where att: "fw_attach ?net c (info_id (info d)) (h @ h1) = (Inr rsp, (h @ h1) @ [Asked (attach_cmd (info_id (info d)) tok)])"
            and on2: "online w es s ((h @ h1) @ [Asked (attach_cmd (info_id (info d)) tok)]) s2 ?p (Some ?p)"
            and s2: "owner (leases s2) (info_id (info d)) = Some ?p" "devices s2 = devices s1" "tokens s2 = tokens s1"
              "urb_completer s2 = urb_completer s1"
            by (rule attach_online [OF on1 tok time forwardable_get(4) [OF ok d], where a = a and draws = draws])
          have "fw_attach (after ?net h) c (info_id (info d)) h1 = (Inr rsp, h1 @ [Asked (attach_cmd (info_id (info d)) tok)])"
            using att by (intro after_attach) simp
          then show ?thesis
            using imp \<open>read_exact 32 r = Some br\<close> br Some d on2 s2 by (auto simp: L F same_import_def)
        qed
      qed
    qed
  qed
qed

section \<open>The URB phase\<close>

lemma forward_reply_transparent:
  assumes on: "online w es s h s2 p (Some p)" and lease: "owner (leases s2) did = Some p"
    and active: "\<And>n. token_active (es n) s2 p"
    and dev: "inventory_wf (devices s2)" "inventory_get (devices s2) did = Some x" "backend x = Emulated" "urb_completer s2 = None"
    and fits: "\<And>sc tr q. cmd = SubmitCommand sc tr q \<Longrightarrow> payload_len (UrbSubmit (submit_of did sc tr q)) \<le> MAX_PAYLOAD"
  shows "forward_reply (after (server_network w es s a draws) h) c did cmd = proxy_reply did cmd"
proof (cases cmd)
  case (SubmitCommand sc tr q)
  let ?net = "server_network w es s a draws" and ?u = "submit_of did sc tr q"
  have u: "submit_device_id ?u = did" by (simp add: submit_of_def Let_def split: prod.splits)
  have "fw_urb ?net ?u h = (Inr (complete_urb ?u), h @ [Asked (UrbCmd ?u)])"
    by (rule urb_online [OF on _ active dev(1) _ dev(3,4)]) (use lease dev(2) u fits [OF SubmitCommand] in simp_all)
  then have "fst (fw_urb (after ?net h) ?u []) = Inr (complete_urb ?u)" by (simp add: after_urb)
  then have "fst (urb_with_recovery (after ?net h) c ?u []) = Inr (complete_urb ?u)"
    by (cases "fw_urb (after ?net h) ?u []") (simp add: urb_with_recovery_unfold)
  then show ?thesis by (simp add: SubmitCommand)
next
  case (UnlinkCommand uc)
  then show ?thesis using unlink_online [OF on lease, of a draws] by (simp add: after_unlink)
qed simp

lemma commands_read_fit:
  assumes "SubmitCommand sc tr q \<in> set (commands_read inp)"
  shows "payload_len (UrbSubmit (submit_of did sc tr q)) \<le> MAX_PAYLOAD"
  using assms
proof (induction "length inp" arbitrary: inp rule: less_induct)
  case less
  show ?case
  proof (cases "read_command inp")
    case None
    then show ?thesis using less.prems by (simp add: commands_read.simps [of inp])
  next
    case (Some cr)
    obtain cm r where cr: "cr = (cm, r)" by (cases cr)
    from less.prems Some cr have "SubmitCommand sc tr q = cm \<or> SubmitCommand sc tr q \<in> set (commands_read r)"
      by (simp add: commands_read.simps [of inp])
    then show ?thesis
    proof
      assume "SubmitCommand sc tr q = cm"
      then have "read_command inp = Some (SubmitCommand sc tr q, r)" using Some cr by simp
      then show ?thesis using length_submit_data [of did sc tr q] read_command_submit(2,3) [of inp sc tr q r] by simp
    next
      assume "SubmitCommand sc tr q \<in> set (commands_read r)"
      then show ?thesis using less.hyps [OF read_command_shorter] Some cr by blast
    qed
  qed
qed

lemma forward_replies_transparent:
  assumes "\<And>k cmd. cmd \<in> set cmds \<Longrightarrow> forward_reply (nets k) c did cmd = proxy_reply did cmd"
  shows "forward_replies nets c did k cmds = concat (map (proxy_reply did) cmds)"
  using assms by (induction cmds arbitrary: k) auto

section \<open>Property\<close>


text \<open>The laboratory server once a client has paired, and that client.\<close>

definition lab_paired :: server_state where
  "lab_paired = lab_server\<lparr>tokens := [(replicate 32 9, replicate 32 1, secs 86400)]\<rparr>"

definition lab_client :: farbus_client where
  "lab_client = \<lparr>client_identity = from_secret (sha256 lab_world) [3], auth_token = None, server_addr = lab_addr,
     expected = srv_fingerprint lab_paired\<rparr>"

lemma lab_client_fp [simp]: "id_fingerprint (client_identity lab_client) = replicate 32 1"
  by (simp add: lab_client_def from_secret_def fingerprint_from_secret_def lab_world_def)

lemma lab_paired_sound: "sound_server lab_world lab_paired"
  using lab_sound by (simp add: sound_server_def lab_paired_def)

lemma lab_online:
  "online lab_world es lab_paired [Dialled, Asked (hello_cmd lab_client)] lab_paired (replicate 32 1) None"
proof -
  have id: "length (id_fingerprint (from_secret (sha256 lab_world) [3])) = 32" "id_fingerprint (from_secret (sha256 lab_world) [3]) = replicate 32 1"
    by (simp_all add: from_secret_def fingerprint_from_secret_def lab_world_def)
  show ?thesis
    using connect_online(2) [OF lab_paired_sound id(1), of es lab_addr] unfolding id(2) lab_client_def [symmetric] .
qed

lemma lab_snapshot: "snapshot (inventory_new simulated_lab_devices) = simulated_lab_devices"
  by code_simp

lemma lab_usable: "usable lab_paired p"
proof -
  have d: "devices lab_paired = inventory_new simulated_lab_devices"
    by (simp add: lab_paired_def lab_server_def server_new_def)
  have wf: "inventory_wf (devices lab_paired)" using lab_keyboard(2) by (simp add: lab_paired_def)
  have l: "owner (leases lab_paired) i = None" for i
    by (simp add: lab_paired_def lab_server_def server_new_def owner_def empty_book_def)
  have "filter (\<lambda>x. exported (info x)) simulated_lab_devices = simulated_lab_devices"
    by (simp add: simulated_lab_devices_def lab_device_def)
  then have dl: "device_list lab_paired = map info simulated_lab_devices" by (simp add: device_list_def d lab_snapshot)
  have "wf_message (DeviceList (map info simulated_lab_devices))"
    by (simp add: simulated_lab_devices_def lab_device_def wf_device_def rust_str_def) code_simp
  moreover have "fields_fit (DeviceList (map info simulated_lab_devices))"
    "payload_len (DeviceList (map info simulated_lab_devices)) \<le> MAX_PAYLOAD"
    by (simp_all add: simulated_lab_devices_def lab_device_def usb_interface_def device_fits_def device_len_def interface_len_def)
  moreover have "\<forall>x \<in> set simulated_lab_devices. backend x = Emulated"
    by (simp add: simulated_lab_devices_def lab_device_def)
  moreover have "urb_completer lab_paired = None" by (simp add: lab_paired_def lab_server_def server_new_def)
  ultimately show ?thesis unfolding usable_def dl devices_snapshot_def d lab_snapshot using wf l by (simp add: d)
qed

lemma lab_entitled: "entitled (\<lambda>_. lab_envs 0) lab_paired (with_auth_token (replicate 32 9) lab_client)"
  unfolding entitled_def
  by (intro exI [of _ "replicate 32 9"] exI [of _ "secs 86400"])
     (simp add: with_auth_token_def lab_client_def lab_paired_def lab_envs_def from_secret_def fingerprint_from_secret_def
       lab_world_def)


end
