(* ===== verification/Bench.thy ===== *)
theory Bench
  imports Transparency
begin

text \<open>
  The benchmark program (\<^verbatim>\<open>crates/farbus-bench\<close>): a client and a server in one process, the server with the
  laboratory devices, whose accept loop is that of the server binary. The futures of the bulk scenario run
  concurrently; \<open>order\<close> is the order in which their URBs are submitted and completed. What is printed is a list of
  lines; the measured times are parameters, as the texts they are printed with.
\<close>

section \<open>Model\<close>

datatype scenario = ControlLatency | BulkThroughput | Reconnect

record bench_cli =
  bench_scenario :: scenario
  bench_depth :: nat
  bench_json :: bool

definition bench_cli_default :: bench_cli where
  "bench_cli_default = \<lparr>bench_scenario = ControlLatency, bench_depth = 64, bench_json = False\<rparr>"

text \<open>The argument of \<open>--depth\<close> is accepted in this range.\<close>

definition depth_in_range :: "nat \<Rightarrow> bool" where
  "depth_in_range depth \<longleftrightarrow> 1 \<le> depth \<and> depth \<le> 64"

text \<open>\<open>client.urb(device, seq, ep, transfer, data)\<close>.\<close>

definition bench_urb :: "device_id \<Rightarrow> u8 \<Rightarrow> transfer_type \<Rightarrow> bytes \<Rightarrow> nat \<Rightarrow> urb_submit" where
  "bench_urb device endp tr dat seq =
     \<lparr>submit_seq = of_nat seq, submit_device_id = device, endpoint = endp, transfer = tr,
      requested_length = (case try_u32 (length dat) of Some n \<Rightarrow> n | None \<Rightarrow> - 1), submit_data = dat\<rparr>"

fun urb_rounds :: "network \<Rightarrow> (nat \<Rightarrow> urb_submit) \<Rightarrow> nat list \<Rightarrow> nat \<Rightarrow> history \<Rightarrow> (client_error + nat) \<times> history" where
  "urb_rounds net u [] n h = (Inr n, h)"
| "urb_rounds net u (seq # seqs) n h =
     (case fw_urb net (u seq) h of
        (Inl e, h1) \<Rightarrow> (Inl e, h1)
      | (Inr _, h1) \<Rightarrow> urb_rounds net u seqs (Suc n) h1)"

fun reconnect_rounds :: "network \<Rightarrow> farbus_client \<Rightarrow> nat \<Rightarrow> nat \<Rightarrow> history \<Rightarrow> (client_error + nat) \<times> history" where
  "reconnect_rounds net c 0 n h = (Inr n, h)"
| "reconnect_rounds net c (Suc k) n h =
     (case fw_reconnect net c h of
        (Inl e, h1) \<Rightarrow> (Inl e, h1)
      | (Inr _, h1) \<Rightarrow> reconnect_rounds net c k (Suc n) h1)"

fun bench_device :: "scenario \<Rightarrow> device_id" where
  "bench_device BulkThroughput = 3"
| "bench_device _ = 1"

fun run_scenario :: "network \<Rightarrow> farbus_client \<Rightarrow> nat list \<Rightarrow> scenario \<Rightarrow> history \<Rightarrow> (client_error + nat) \<times> history" where
  "run_scenario net c order ControlLatency h =
     urb_rounds net (bench_urb (bench_device ControlLatency) 0 Control [0x80, 0x06, 0x00, 0x01, 0x00, 0x00, 0x12, 0x00])
       [0..<1000] 0 h"
| "run_scenario net c order BulkThroughput h =
     urb_rounds net (bench_urb (bench_device BulkThroughput) 1 Bulk (replicate 16384 0)) order 0 h"
| "run_scenario net c order Reconnect h = reconnect_rounds net c 50 0 h"

definition bench_setup ::
    "(bytes \<Rightarrow> bytes) \<Rightarrow> network \<Rightarrow> socket_addr \<Rightarrow> fingerprint \<Rightarrow> string \<Rightarrow> scenario \<Rightarrow> (client_error + farbus_client) \<times> history" where
  "bench_setup sha net a fp pin sc =
     (case client_connect sha net a fp [] of
        (Inl e, h) \<Rightarrow> (Inl e, h)
      | (Inr c, h) \<Rightarrow>
          let h1 = h @ [Asked (pair_cmd sha pin fp c)]
          in case client_pair sha (answers net h) pin fp c of
               (Inl e, _) \<Rightarrow> (Inl e, h1)
             | (Inr _, c1) \<Rightarrow>
                 (case fw_attach net c1 (bench_device sc) h1 of
                    (Inl e, h2) \<Rightarrow> (Inl e, h2)
                  | (Inr _, h2) \<Rightarrow> (Inr c1, h2)))"

text \<open>The texts of what was measured, by the name it is printed under.\<close>

record timings =
  total_time :: string
  avg_rtt_us :: string
  avg_rtt_ms :: string
  ops_per_sec :: string
  transferred_mb :: string
  elapsed_s :: string
  bulk_mb_s :: string
  cycle_ms :: string

fun show_scenario :: "scenario \<Rightarrow> string" where
  "show_scenario ControlLatency = ''ControlLatency''"
| "show_scenario BulkThroughput = ''BulkThroughput''"
| "show_scenario Reconnect = ''Reconnect''"

definition bench_banner :: "bench_cli \<Rightarrow> string list" where
  "bench_banner cli =
     (if \<not> bench_json cli then [''=== FarBus Benchmark: '' @ show_scenario (bench_scenario cli) @ '' ===''] else [])"

definition json_str :: "string \<Rightarrow> string" where
  "json_str s = CHR 0x22 # s @ [CHR 0x22]"

definition bulk_json :: "timings \<Rightarrow> bench_cli \<Rightarrow> string" where
  "bulk_json t cli =
     ''{'' @ json_str ''scenario'' @ '':'' @ json_str ''bulk-throughput'' @
     '','' @ json_str ''depth'' @ '':'' @ show_nat (bench_depth cli) @ '','' @ json_str ''chunks'' @ '':'' @ show_nat 1000 @
     '','' @ json_str ''chunk_size'' @ '':'' @ show_nat 16384 @ '','' @ json_str ''mb'' @ '':'' @ transferred_mb t @
     '','' @ json_str ''elapsed_s'' @ '':'' @ elapsed_s t @ '','' @ json_str ''mbps'' @ '':'' @ bulk_mb_s t @ ''}''"

fun scenario_opening :: "scenario \<Rightarrow> string list" where
  "scenario_opening Reconnect = [''Simulating 50 disconnect & reconnect cycles...'']"
| "scenario_opening _ = []"

fun scenario_report :: "timings \<Rightarrow> bench_cli \<Rightarrow> scenario \<Rightarrow> string list" where
  "scenario_report t cli ControlLatency =
     [''Rounds       : '' @ show_nat 1000, ''Total time   : '' @ total_time t,
      ''Avg URB RTT  : '' @ avg_rtt_us t @ '' '' @ [CHR 0xC2, CHR 0xB5] @ ''s ('' @ avg_rtt_ms t @ '' ms)'',
      ''Throughput   : '' @ ops_per_sec t @ '' ops/sec'']"
| "scenario_report t cli BulkThroughput =
     (if bench_json cli then [bulk_json t cli]
      else [''Pipeline depth: '' @ show_nat (bench_depth cli), ''Transferred  : '' @ transferred_mb t @ '' MB'',
            ''Elapsed      : '' @ total_time t, ''Bulk Speed   : '' @ bulk_mb_s t @ '' MB/s''])"
| "scenario_report t cli Reconnect =
     [''50 Reconnects: '' @ total_time t @ '' (avg '' @ cycle_ms t @ '' ms/cycle)'']"

datatype bench_end = Finished | Failed client_error | Panicked

definition bench_main ::
    "(bytes \<Rightarrow> bytes) \<Rightarrow> network \<Rightarrow> socket_addr \<Rightarrow> fingerprint \<Rightarrow> string \<Rightarrow> nat list \<Rightarrow> timings \<Rightarrow> bench_cli \<Rightarrow> string list \<times> bench_end" where
  "bench_main sha net a fp pin order t cli =
     (let sc = bench_scenario cli
      in case bench_setup sha net a fp pin sc of
           (Inl e, h) \<Rightarrow> (bench_banner cli, Failed e)
         | (Inr c, h) \<Rightarrow>
             let printed = bench_banner cli @ scenario_opening sc
             in case fst (run_scenario net c order sc h) of
                  Inl e \<Rightarrow> (printed, Failed e)
                | Inr n \<Rightarrow>
                    if sc = BulkThroughput \<and> n \<noteq> 1000 then (printed, Panicked)
                    else (printed @ scenario_report t cli sc, Finished))"

definition bench_server :: "world \<Rightarrow> env \<Rightarrow> fingerprint \<Rightarrow> server_state" where
  "bench_server w e fp = server_new w e ''farbus-bench'' fp simulated_lab_devices"

section \<open>Lemmas\<close>

text \<open>A connection that is dialled again: the session ends, its leases are released, and a new one is greeted.\<close>

lemma reconnect_online:
  fixes c a
  assumes on: "online w es s h s1 (id_fingerprint (client_identity c)) q" and sound: "sound_server w s1"
    and len: "length (id_fingerprint (client_identity c)) = 32"
    and c: "server_addr c = a" "expected c = srv_fingerprint s"
  obtains s2 where "fw_reconnect (server_network w es s a draws) c h = (Inr (), h @ [Dialled, Asked (hello_cmd c)])"
    "online w es s (h @ [Dialled, Asked (hello_cmd c)]) s2 (id_fingerprint (client_identity c)) None" "sound_server w s2"
proof -
  let ?p = "id_fingerprint (client_identity c)"
  obtain l where l: "serve w es s h = (s1, l)" using on by (auto simp: online_def)
  define s2 where "s2 = end_session l s1"
  have f: "srv_fingerprint s2 = srv_fingerprint s1" "hostname s2 = hostname s1"
    by (simp_all add: s2_def end_session_def split: option.splits)
  have s2: "sound_server w s2" using sound by (simp add: sound_server_def f)
  let ?m = "Hello \<lparr>protocol_min = VERSION, protocol_max = VERSION, hello_fingerprint = ?p, hello_hostname = ''farbus-client''\<rparr>"
  let ?r = "Hello \<lparr>protocol_min = VERSION, protocol_max = VERSION, hello_fingerprint = srv_fingerprint s2, hello_hostname = hostname s2\<rparr>"
  have d: "serve w es s (h @ [Dialled]) = (s2, session_new)" by (simp add: serve_snoc serve_event_def l s2_def)
  have hm: "handle_message w e ?m s2 session_new = (s2, send ?r (session_new\<lparr>peer := Some ?p\<rparr>))" for e
    by (simp add: handler_defs session_new_def send_def)
  have "arrives ?m = Some ?m" "arrives ?r = Some ?r"
    by (rule arrives_self; use s2 len in \<open>simp add: sound_server_def\<close>)+
  note step = ask_control [OF d _ this(1) hm _ _ this(2)]
  have 1: "ask_server w es s (h @ [Dialled]) (ControlCmd ?m) = Inr (MessageAnswer ?r)"
    using step(1) by (simp add: session_new_def is_control_def)
  have 2: "serve w es s ((h @ [Dialled]) @ [Asked (ControlCmd ?m)]) = (s2, send ?r (session_new\<lparr>peer := Some ?p\<rparr>))"
    using step(2) by (simp add: session_new_def is_control_def)
  show thesis
  proof (rule that [OF _ _ s2])
    show "fw_reconnect (server_network w es s a draws) c h = (Inr (), h @ [Dialled, Asked (hello_cmd c)])"
      using 1 by (simp add: fw_reconnect_def server_network_def client_hello_def c)
    show "online w es s (h @ [Dialled, Asked (hello_cmd c)]) s2 ?p None"
      using 2 by (simp add: online_def hello_cmd_def session_new_def)
  qed
qed

lemma reconnect_rounds_complete:
  assumes "online w es s h s1 (id_fingerprint (client_identity c)) q" "sound_server w s1"
    and "length (id_fingerprint (client_identity c)) = 32" "server_addr c = a" "expected c = srv_fingerprint s"
  shows "fst (reconnect_rounds (server_network w es s a draws) c k n h) = Inr (n + k)"
  using assms(1,2)
proof (induction k arbitrary: n h s1 q)
  case (Suc k)
  obtain s2 where r: "fw_reconnect (server_network w es s a draws) c h = (Inr (), h @ [Dialled, Asked (hello_cmd c)])"
    and s2: "online w es s (h @ [Dialled, Asked (hello_cmd c)]) s2 (id_fingerprint (client_identity c)) None" "sound_server w s2"
    by (rule reconnect_online [OF Suc.prems assms(3-5), where draws = draws])
  show ?case using Suc.IH [OF s2, of "Suc n"] r by simp
qed simp

lemma urb_rounds_complete:
  assumes on: "online w es s h s1 p (Some p)"
    and dev: "\<And>k. owner (leases s1) (submit_device_id (u k)) = Some p" "\<And>k. inventory_get (devices s1) (submit_device_id (u k)) = Some x"
      "backend x = Emulated" "inventory_wf (devices s1)" "urb_completer s1 = None"
    and active: "\<And>m. token_active (es m) s1 p" and fits: "\<And>k. payload_len (UrbSubmit (u k)) \<le> MAX_PAYLOAD"
  shows "fst (urb_rounds (server_network w es s a draws) u seqs n h) = Inr (n + length seqs)"
  using on
proof (induction seqs arbitrary: n h)
  case (Cons k seqs)
  have "fw_urb (server_network w es s a draws) (u k) h = (Inr (complete_urb (u k)), h @ [Asked (UrbCmd (u k))])"
    by (rule urb_online [OF Cons.prems dev(1) active dev(4,2,3,5) fits])
  moreover have "online w es s (h @ [Asked (UrbCmd (u k))]) s1 p (Some p)"
    by (rule data_event_online [OF Cons.prems]) (use fits in simp)
  ultimately show ?case using Cons.IH [of "h @ [Asked (UrbCmd (u k))]" "Suc n"] by simp
qed simp

text \<open>The keyboard and the disk of the laboratory.\<close>

lemma bench_device_present:
  "\<exists>x. inventory_get (inventory_new simulated_lab_devices) (bench_device sc) = Some x \<and> exported (info x) \<and> backend x = Emulated \<and>
     rust_str (bus_id (info x)) \<and> length (bus_id (info x)) \<le> 255"
proof -
  have disk: "inventory_get (inventory_new simulated_lab_devices) 3 =
      Some (lab_device 3 ''2-1'' 0x0781 0x5567 8 SpeedHigh ''USB Disk'' [usb_interface 0 8 6 0x50 [0x81, 0x02]])"
    by code_simp
  have "rust_str ''1-1.2''" "rust_str ''2-1''" by (simp_all add: rust_str_def, code_simp+)
  then show ?thesis by (cases sc) (simp_all add: demo_keyboard disk lab_device_def)
qed

lemma bench_server_sound:
  "(\<And>bs. length (sha256 w bs) = 32) \<Longrightarrow> length fp = 32 \<Longrightarrow> sound_server w (bench_server w e fp)"
  by (simp add: sound_server_def bench_server_def server_new_def rust_str_def) code_simp

lemma bench_server_fields [simp]:
  "srv_fingerprint (bench_server w e fp) = fp" "devices (bench_server w e fp) = inventory_new simulated_lab_devices"
  "owner (leases (bench_server w e fp)) d = None" "urb_completer (bench_server w e fp) = None"
  by (simp_all add: bench_server_def server_new_def owner_def empty_book_def)

lemma bench_inventory_wf: "inventory_wf (inventory_new simulated_lab_devices)"
  using lab_keyboard(2) by (simp add: lab_server_def server_new_def)

lemma bench_pin:
  "now e' \<le> now e + secs 120 \<Longrightarrow> pin_good w e' (bench_server w e fp) (pin_text (srv_pin (bench_server w e fp)))"
  by (simp add: pin_good_def bench_server_def server_new_def issue_def issue_with_ttl_def Let_def PIN_TTL_def)

lemma bench_urb_device: "submit_device_id (bench_urb d endp tr dat k) = d" "submit_data (bench_urb d endp tr dat k) = dat"
  by (simp_all add: bench_urb_def)

lemma run_scenario_completes:
  assumes on: "online w es s h s1 (id_fingerprint (client_identity c)) (Some (id_fingerprint (client_identity c)))"
    and sound: "sound_server w s1" and c: "length (id_fingerprint (client_identity c)) = 32" "server_addr c = a" "expected c = srv_fingerprint s"
    and dev: "owner (leases s1) (bench_device sc) = Some (id_fingerprint (client_identity c))"
      "devices s1 = inventory_new simulated_lab_devices" "urb_completer s1 = None"
    and active: "\<And>m. token_active (es m) s1 (id_fingerprint (client_identity c))"
    and order: "distinct order" "set order = {0..<1000}"
  shows "fst (run_scenario (server_network w es s a draws) c order sc h) = Inr (if sc = Reconnect then 50 else 1000)"
proof -
  obtain x where x: "inventory_get (devices s1) (bench_device sc) = Some x" "backend x = Emulated"
    using bench_device_present [of sc] dev(2) by auto
  note urbs = urb_rounds_complete [OF on _ _ x(2) _ dev(3) active, where n = 0]
  have "length order = 1000" using distinct_card [OF order(1)] order(2) by simp
  show ?thesis
  proof (cases sc)
    case Reconnect
    then show ?thesis using reconnect_rounds_complete [OF on sound c, where k = 50 and n = 0] by simp
  qed (use \<open>length order = 1000\<close> urbs dev x bench_inventory_wf in \<open>simp_all add: bench_urb_device del: upt.simps\<close>)
qed

text \<open>With \<open>--json\<close> the bulk scenario prints one line, an object; the other scenarios print the same plain text as without.\<close>

lemma json_only_in_bulk:
  "bench_json cli \<Longrightarrow> bench_banner cli @ scenario_opening BulkThroughput @ scenario_report t cli BulkThroughput = [bulk_json t cli]"
  "sc \<noteq> BulkThroughput \<Longrightarrow> scenario_report t (cli\<lparr>bench_json := b\<rparr>) sc = scenario_report t cli sc"
  by (simp add: bench_banner_def) (cases sc; simp)

section \<open>Property\<close>



end
