(* ===== verification/Tls.thy ===== *)
theory Tls
  imports Store Client_Calls
begin

text \<open>
  The TLS configurations of client and server (\<^verbatim>\<open>crates/farbus-core/src/tls.rs\<close>) and opening a pinned
  session (\<^verbatim>\<open>client.rs\<close>). The configurations are records of what the code sets. The rustls library is a
  parameter: its handshake, its signature checks and its check of a certificate against a key; what is relied on of it
  is the predicate \<open>rustls_contract\<close>. The certificate fingerprints and the decisions of the two verifiers are in
  theory \<open>Store\<close>.
\<close>

section \<open>Model\<close>

datatype protocol_version = TLS12 | TLS13

text \<open>
  The two implementations of \<open>ServerCertVerifier\<close> with their fields. The cell \<open>seen\<close> of the observing one is
  threaded through \<open>verify_server_cert\<close>.
\<close>

datatype 'alg server_verifier =
    PinnedServerVerifier (pinned_to: fingerprint) (supported_algs: 'alg)
  | ObservingServerVerifier (supported_algs: 'alg)

record 'alg client_config =
  cli_versions :: "protocol_version list"
  cert_verifier :: "'alg server_verifier"
  client_cert :: "bytes option"
  cli_alpn :: "bytes list"

record server_config =
  srv_versions :: "protocol_version list"
  client_auth :: bool
  cert_chain :: "bytes list"
  private_key :: bytes
  srv_alpn :: "bytes list"

text \<open>The library.\<close>

record 'alg rustls =
  default_algs :: 'alg
  crypto_tls12 :: "bytes \<Rightarrow> bytes \<Rightarrow> bytes \<Rightarrow> 'alg \<Rightarrow> bool"
  crypto_tls13 :: "bytes \<Rightarrow> bytes \<Rightarrow> bytes \<Rightarrow> 'alg \<Rightarrow> bool"
  supported_schemes :: "'alg \<Rightarrow> u16 list"
  signed_with :: "bytes \<Rightarrow> bytes \<Rightarrow> bytes"
  single_cert :: "bytes list \<Rightarrow> bytes \<Rightarrow> bool"
  transcript :: "'alg client_config \<Rightarrow> server_config \<Rightarrow> bytes"
  handshake :: "'alg client_config \<Rightarrow> server_config \<Rightarrow> bool"

fun verify_server_cert ::
    "(bytes \<Rightarrow> bytes) \<Rightarrow> 'alg server_verifier \<Rightarrow> bytes \<Rightarrow> fingerprint option \<Rightarrow> (cert_error + unit) \<times> fingerprint option" where
  "verify_server_cert sha (PinnedServerVerifier expct algs) end_entity seen = (verify_pinned sha expct end_entity, seen)"
| "verify_server_cert sha (ObservingServerVerifier algs) end_entity seen = verify_observing sha end_entity seen"

text \<open>The signature callbacks: each verifier hands its own algorithms to the library.\<close>

definition pinned_tls12_signature :: "'alg rustls \<Rightarrow> 'alg \<Rightarrow> bytes \<Rightarrow> bytes \<Rightarrow> bytes \<Rightarrow> bool" where
  "pinned_tls12_signature lib algs msg cert dss = crypto_tls12 lib msg cert dss algs"

definition pinned_tls13_signature :: "'alg rustls \<Rightarrow> 'alg \<Rightarrow> bytes \<Rightarrow> bytes \<Rightarrow> bytes \<Rightarrow> bool" where
  "pinned_tls13_signature lib algs msg cert dss = crypto_tls13 lib msg cert dss algs"

definition pinned_verify_schemes :: "'alg rustls \<Rightarrow> 'alg \<Rightarrow> u16 list" where
  "pinned_verify_schemes lib algs = supported_schemes lib algs"

definition observing_tls12_signature :: "'alg rustls \<Rightarrow> 'alg \<Rightarrow> bytes \<Rightarrow> bytes \<Rightarrow> bytes \<Rightarrow> bool" where
  "observing_tls12_signature lib algs msg cert dss = crypto_tls12 lib msg cert dss algs"

definition observing_tls13_signature :: "'alg rustls \<Rightarrow> 'alg \<Rightarrow> bytes \<Rightarrow> bytes \<Rightarrow> bytes \<Rightarrow> bool" where
  "observing_tls13_signature lib algs msg cert dss = crypto_tls13 lib msg cert dss algs"

definition observing_verify_schemes :: "'alg rustls \<Rightarrow> 'alg \<Rightarrow> u16 list" where
  "observing_verify_schemes lib algs = supported_schemes lib algs"

fun verify_tls12_signature :: "'alg rustls \<Rightarrow> 'alg server_verifier \<Rightarrow> bytes \<Rightarrow> bytes \<Rightarrow> bytes \<Rightarrow> bool" where
  "verify_tls12_signature lib (PinnedServerVerifier expct algs) msg cert dss = pinned_tls12_signature lib algs msg cert dss"
| "verify_tls12_signature lib (ObservingServerVerifier algs) msg cert dss = observing_tls12_signature lib algs msg cert dss"

fun verify_tls13_signature :: "'alg rustls \<Rightarrow> 'alg server_verifier \<Rightarrow> bytes \<Rightarrow> bytes \<Rightarrow> bytes \<Rightarrow> bool" where
  "verify_tls13_signature lib (PinnedServerVerifier expct algs) msg cert dss = pinned_tls13_signature lib algs msg cert dss"
| "verify_tls13_signature lib (ObservingServerVerifier algs) msg cert dss = observing_tls13_signature lib algs msg cert dss"

fun supported_verify_schemes :: "'alg rustls \<Rightarrow> 'alg server_verifier \<Rightarrow> u16 list" where
  "supported_verify_schemes lib (PinnedServerVerifier expct algs) = pinned_verify_schemes lib algs"
| "supported_verify_schemes lib (ObservingServerVerifier algs) = observing_verify_schemes lib algs"

lemma verify_signature_algs:
  "verify_tls12_signature lib v msg cert dss = crypto_tls12 lib msg cert dss (supported_algs v)"
  "verify_tls13_signature lib v msg cert dss = crypto_tls13 lib msg cert dss (supported_algs v)"
  "supported_verify_schemes lib v = supported_schemes lib (supported_algs v)"
  by (cases v; simp add: pinned_tls12_signature_def pinned_tls13_signature_def pinned_verify_schemes_def
      observing_tls12_signature_def observing_tls13_signature_def observing_verify_schemes_def)+

definition farbus_alpn :: "bytes list" where
  "farbus_alpn = [as_bytes ''farbus-v1'']"

definition make_server_config :: "'alg rustls \<Rightarrow> bytes list \<Rightarrow> bytes \<Rightarrow> tls_error + server_config" where
  "make_server_config lib certs key =
     (if single_cert lib certs key
      then Inr \<lparr>srv_versions = [TLS13], client_auth = False, cert_chain = certs, private_key = key, srv_alpn = farbus_alpn\<rparr>
      else Inl Rustls)"

definition make_observing_client_config :: "'alg rustls \<Rightarrow> tls_error + ('alg client_config \<times> fingerprint option)" where
  "make_observing_client_config lib =
     (let algs = default_algs lib; seen = None
      in Inr (\<lparr>cli_versions = [TLS13], cert_verifier = ObservingServerVerifier algs, client_cert = None,
               cli_alpn = farbus_alpn\<rparr>, seen))"

definition make_pinned_client_config :: "'alg rustls \<Rightarrow> fingerprint \<Rightarrow> tls_error + 'alg client_config" where
  "make_pinned_client_config lib expected_server =
     (let algs = default_algs lib
      in Inr \<lparr>cli_versions = [TLS13], cert_verifier = PinnedServerVerifier expected_server algs, client_cert = None,
              cli_alpn = farbus_alpn\<rparr>)"

text \<open>
  Opening the session in \<open>connect_with_identity\<close> and \<open>reconnect\<close>: \<open>hosts\<close> is what
  \<open>TcpStream::connect\<close> finds at an address, the peer's TLS endpoint or an I/O error. The name
  \<open>farbus.local\<close> is a valid DNS name, so that \<open>ServerName::try_from\<close> does not fail.
\<close>

type_synonym hosts = "socket_addr \<Rightarrow> io_error + server_config"

definition tls_dial :: "'alg rustls \<Rightarrow> hosts \<Rightarrow> socket_addr \<Rightarrow> fingerprint \<Rightarrow> client_error + server_config" where
  "tls_dial lib at a expct =
     (case make_pinned_client_config lib expct of
        Inl _ \<Rightarrow> Inl TlsFailed
      | Inr connector \<Rightarrow>
          (case at a of
             Inl err \<Rightarrow> Inl (IoFailed err)
           | Inr srv \<Rightarrow> if handshake lib connector srv then Inr srv else Inl TlsFailed))"

text \<open>The handshake of \<open>probe_server\<close>: the certificate the verifier was shown.\<close>

definition observed :: "'alg rustls \<Rightarrow> (io_error \<Rightarrow> string) \<Rightarrow> string \<Rightarrow> hosts \<Rightarrow> socket_addr \<Rightarrow> string + bytes option" where
  "observed lib io_text tls_text at a =
     (case make_observing_client_config lib of
        Inl _ \<Rightarrow> Inl tls_text
      | Inr (connector, _) \<Rightarrow>
          (case at a of
             Inl err \<Rightarrow> Inl (io_text err)
           | Inr srv \<Rightarrow>
               if handshake lib connector srv
               then Inr (case cert_chain srv of [] \<Rightarrow> None | end_entity # _ \<Rightarrow> Some end_entity)
               else Inl tls_text))"

section \<open>What is relied on of the library\<close>

text \<open>
  A handshake is completed exactly if the two ends share a protocol version and an application protocol, the peer
  presents a certificate which the configured verifier accepts, and the verifier accepts the peer's signature over the
  transcript, made with the peer's key. A certificate chain is accepted for a server only with the key of its first
  certificate.
\<close>

definition rustls_contract :: "(bytes \<Rightarrow> bytes) \<Rightarrow> 'alg rustls \<Rightarrow> bool" where
  "rustls_contract sha lib \<longleftrightarrow>
     (\<forall>c s. handshake lib c s \<longleftrightarrow>
        list_ex (\<lambda>v. v \<in> set (srv_versions s)) (cli_versions c) \<and> list_ex (\<lambda>p. p \<in> set (srv_alpn s)) (cli_alpn c) \<and>
        (case cert_chain s of
           [] \<Rightarrow> False
         | end_entity # _ \<Rightarrow>
             fst (verify_server_cert sha (cert_verifier c) end_entity None) = Inr () \<and>
             verify_tls13_signature lib (cert_verifier c) (transcript lib c s) end_entity
               (signed_with lib (private_key s) (transcript lib c s)))) \<and>
     (\<forall>certs key msg. single_cert lib certs key \<longrightarrow> certs \<noteq> [] \<and>
        crypto_tls13 lib msg (hd certs) (signed_with lib key msg) (default_algs lib))"

section \<open>Lemmas\<close>

lemma verify_pinned_iff: "verify_pinned sha fp der = Inr () \<longleftrightarrow> fingerprint_cert sha der = fp"
  by (simp add: verify_pinned_def)

lemma tls_dial_Inr:
  assumes "rustls_contract sha lib" "tls_dial lib at a fp = Inr srv"
  obtains end_entity rest msg where "at a = Inr srv" "cert_chain srv = end_entity # rest" "fingerprint_cert sha end_entity = fp"
    "crypto_tls13 lib msg end_entity (signed_with lib (private_key srv) msg) (default_algs lib)"
proof -
  let ?c = "\<lparr>cli_versions = [TLS13], cert_verifier = PinnedServerVerifier fp (default_algs lib), client_cert = None, cli_alpn = farbus_alpn\<rparr>"
  from assms(2) have a: "at a = Inr srv" and h: "handshake lib ?c srv"
    by (simp_all add: tls_dial_def make_pinned_client_config_def Let_def split: sum.splits if_splits)
  from h assms(1) obtain e r where e: "cert_chain srv = e # r" and "fst (verify_server_cert sha (cert_verifier ?c) e None) = Inr ()"
    "verify_tls13_signature lib (cert_verifier ?c) (transcript lib ?c srv) e (signed_with lib (private_key srv) (transcript lib ?c srv))"
    by (auto simp: rustls_contract_def split: list.splits)
  then show thesis by (intro that [OF a e]) (simp_all add: verify_pinned_iff verify_signature_algs)
qed

lemma server_handshake:
  assumes "rustls_contract sha lib" "make_server_config lib (cert # rest) key = Inr srv"
    and "cli_versions c = [TLS13]" "cli_alpn c = farbus_alpn" "supported_algs (cert_verifier c) = default_algs lib"
  shows "handshake lib c srv \<longleftrightarrow> fst (verify_server_cert sha (cert_verifier c) cert None) = Inr ()"
proof -
  have "single_cert lib (cert # rest) key" and srv: "srv_versions srv = [TLS13]" "cert_chain srv = cert # rest" "private_key srv = key"
    "srv_alpn srv = farbus_alpn"
    using assms(2) by (auto simp: make_server_config_def split: if_splits)
  then have "crypto_tls13 lib msg cert (signed_with lib key msg) (default_algs lib)" for msg
    using assms(1) unfolding rustls_contract_def by (metis list.sel(1))
  then show ?thesis using assms(1,3,4,5) srv by (simp add: rustls_contract_def verify_signature_algs farbus_alpn_def)
qed

text \<open>A server configured by \<open>make_server_config\<close> is reached with the fingerprint of its certificate and with no other.\<close>

lemma tls_dial_server:
  assumes "rustls_contract sha lib" "make_server_config lib (cert # rest) key = Inr srv" "at a = Inr srv"
  shows "tls_dial lib at a fp = (if fp = fingerprint_cert sha cert then Inr srv else Inl TlsFailed)"
  using server_handshake [OF assms(1,2), of "\<lparr>cli_versions = [TLS13], cert_verifier = PinnedServerVerifier fp (default_algs lib),
      client_cert = None, cli_alpn = farbus_alpn\<rparr>"] assms(3)
  by (auto simp: tls_dial_def make_pinned_client_config_def Let_def verify_pinned_iff)

lemma observed_server:
  assumes "rustls_contract sha lib" "make_server_config lib (cert # rest) key = Inr srv" "at a = Inr srv"
  shows "observed lib io_text tls_text at a = Inr (Some cert)"
proof -
  let ?c = "\<lparr>cli_versions = [TLS13], cert_verifier = ObservingServerVerifier (default_algs lib), client_cert = None, cli_alpn = farbus_alpn\<rparr>"
  have "handshake lib ?c srv" using server_handshake [OF assms(1,2), of ?c] by (simp add: verify_observing_def)
  moreover have "cert_chain srv = cert # rest" using assms(2) by (auto simp: make_server_config_def split: if_splits)
  ultimately show ?thesis using assms(3) by (simp add: observed_def make_observing_client_config_def Let_def)
qed

section \<open>Property\<close>


text \<open>A library in which a key is its own certificate and a signature is the message after the key.\<close>

definition plain_rustls :: "(bytes \<Rightarrow> bytes) \<Rightarrow> unit rustls" where
  "plain_rustls sha =
     \<lparr>default_algs = (), crypto_tls12 = (\<lambda>_ _ _ _. False), crypto_tls13 = (\<lambda>msg cert dss _. dss = cert @ msg),
      supported_schemes = (\<lambda>_. []), signed_with = (@), single_cert = (\<lambda>certs key. certs = [key]), transcript = (\<lambda>_ _. [1]),
      handshake = (\<lambda>c s. list_ex (\<lambda>v. v \<in> set (srv_versions s)) (cli_versions c) \<and>
        list_ex (\<lambda>p. p \<in> set (srv_alpn s)) (cli_alpn c) \<and>
        (case cert_chain s of
           [] \<Rightarrow> False
         | end_entity # _ \<Rightarrow>
             fst (verify_server_cert sha (cert_verifier c) end_entity None) = Inr () \<and> private_key s @ [1] = end_entity @ [1]))\<rparr>"

lemma plain_rustls_contract: "rustls_contract sha (plain_rustls sha)"
  by (simp add: rustls_contract_def plain_rustls_def verify_signature_algs split: list.split)

definition plain_server :: server_config where
  "plain_server = \<lparr>srv_versions = [TLS13], client_auth = False, cert_chain = [[4, 5]], private_key = [4, 5], srv_alpn = farbus_alpn\<rparr>"

lemma plain_server_config: "make_server_config (plain_rustls sha) [[4, 5]] [4, 5] = Inr plain_server"
  by (simp add: make_server_config_def plain_rustls_def plain_server_def)


end
