(* ===== verification/Policy.thy ===== *)
theory Policy
  imports Session_Properties
begin

text \<open>
  The export policy of the server binary (\<^verbatim>\<open>crates/farbus-server/src/lib.rs\<close>) and the parts of its
  \<^verbatim>\<open>main.rs\<close> that apply it: at the start and at every hot-plug scan. The rest of
  that program is in theory \<open>Server_Main\<close>.
\<close>

section \<open>Model\<close>

fun sensitive :: "u8 \<Rightarrow> bool" where
  "sensitive class = (class = 3 \<or> class = 8 \<or> class = 9)"

definition is_sensitive :: "local_device \<Rightarrow> bool" where
  "is_sensitive device \<longleftrightarrow>
     sensitive (usb_class (info device)) \<or>
     (usb_class (info device) = 0 \<and> interfaces (info device) = []) \<or>
     list_ex (\<lambda>i. sensitive (interface_class i)) (interfaces (info device))"

definition set_exported :: "bool \<Rightarrow> local_device \<Rightarrow> local_device" where
  "set_exported b device = device\<lparr>info := (info device)\<lparr>exported := b\<rparr>\<rparr>"

definition apply_export_flags :: "bool \<Rightarrow> string list \<Rightarrow> local_device list \<Rightarrow> local_device list" where
  "apply_export_flags export_all exact_bus_ids devs =
     map (\<lambda>device. set_exported
            (bus_id (info device) \<in> set exact_bus_ids \<or> (export_all \<and> \<not> is_sensitive device)) device) devs"

definition apply_export_policy :: "bool \<Rightarrow> string list \<Rightarrow> local_device list \<Rightarrow> local_device list" where
  "apply_export_policy export_all exact_bus_ids devs = apply_export_flags export_all exact_bus_ids devs"

text \<open>The start of the server with the devices found, and one tick of the hot-plug task; a failed scan is skipped.\<close>

definition server_start ::
    "world \<Rightarrow> env \<Rightarrow> string \<Rightarrow> fingerprint \<Rightarrow> bool \<Rightarrow> string list \<Rightarrow> local_device list \<Rightarrow> server_state" where
  "server_start w e host fp export_all exact found =
     server_new w e host fp (apply_export_policy export_all exact found)"

definition hotplug_tick :: "bool \<Rightarrow> string list \<Rightarrow> local_device list option \<Rightarrow> server_state \<Rightarrow> server_state" where
  "hotplug_tick export_all exact scan s =
     (case scan of
        None \<Rightarrow> s
      | Some scanned \<Rightarrow> snd (refresh_host_devices (apply_export_flags export_all exact scanned) s))"

text \<open>The server process with its hot-plug task: every other step leaves the inventory alone.\<close>

inductive server_runs :: "world \<Rightarrow> bool \<Rightarrow> string list \<Rightarrow> sys \<Rightarrow> sys \<Rightarrow> bool" for w export_all exact y0 where
  start: "server_runs w export_all exact y0 y0"
| tick: "server_runs w export_all exact y0 y \<Longrightarrow>
    server_runs w export_all exact y0 (y\<lparr>server := hotplug_tick export_all exact scan (server y)\<rparr>)"
| other: "server_runs w export_all exact y0 y \<Longrightarrow> sys_step w y y' \<Longrightarrow> devices (server y') = devices (server y) \<Longrightarrow>
    server_runs w export_all exact y0 y'"

section \<open>Lemmas\<close>

text \<open>A property of devices that does not depend on their id is kept by the inventory.\<close>

lemma bt_values_insert: "set (bt_values (bt_insert k v m)) \<subseteq> insert v (set (bt_values m))"
  by (induction k v m rule: bt_insert.induct) (auto simp: bt_values_def)

lemma bt_values_remove: "set (bt_values (bt_remove k m)) \<subseteq> set (bt_values m)"
  by (auto simp: bt_values_def bt_remove_def)

definition all_devices :: "(local_device \<Rightarrow> bool) \<Rightarrow> device_inventory \<Rightarrow> bool" where
  "all_devices Q v \<longleftrightarrow> (\<forall>d \<in> set (snapshot v). Q d)"

lemma all_devices_add:
  assumes "\<And>i d. Q (set_id i d) = Q d" "all_devices Q v" "Q d"
  shows "all_devices Q (add_device d v)"
  using assms bt_values_insert
  by (fastforce simp: all_devices_def add_device_def snapshot_def Let_def insert_presence_def allocate_id_def)

lemma all_devices_new:
  assumes "\<And>i d. Q (set_id i d) = Q d" "\<forall>d \<in> set ds. Q d"
  shows "all_devices Q (inventory_new ds)"
proof -
  have "all_devices Q v \<Longrightarrow> all_devices Q (fold add_device ds v)" for v
    using assms(2) by (induction ds arbitrary: v) (auto simp: all_devices_add [OF assms(1)])
  moreover have "all_devices Q empty_inventory"
    by (simp add: empty_inventory_def all_devices_def snapshot_def bt_values_def)
  ultimately show ?thesis by (simp add: inventory_new_def)
qed

lemma scan_hosts:
  assumes "\<And>i d. Q (set_id i d) = Q d" "\<forall>d \<in> set ds. Q d" "\<forall>(i, d) \<in> set (snd (snd st)). Q d"
  shows "\<forall>(i, d) \<in> set (snd (snd (fold scan_step ds st))). Q d"
  using assms(2,3)
proof (induction ds arbitrary: st)
  case (Cons x ds)
  have "\<forall>(i, d) \<in> set (snd (snd (scan_step x st))). Q d"
    using Cons.prems assms(1) by (auto simp: scan_step_def Let_def split: option.splits prod.splits)
  with Cons show ?case by simp
qed simp

lemma all_devices_refresh:
  assumes "\<And>i d. Q (set_id i d) = Q d" "all_devices Q v" "\<forall>d \<in> set scanned. Q d"
  shows "all_devices Q (snd (refresh_hosts scanned v))"
proof -
  obtain v1 new hosts where st: "fold scan_step scanned (v, [], []) = (v1, new, hosts)"
    by (cases "fold scan_step scanned (v, [], [])")
  have "\<forall>(i, d) \<in> set hosts. Q d" using scan_hosts [of Q scanned "(v, [], [])"] assms st by simp
  moreover have "all_devices Q v1"
    using assms(2) st fold_scan_step_present [of scanned "(v, [], [])"] by (simp add: all_devices_def snapshot_def)
  moreover have "all_devices Q v \<Longrightarrow> all_devices Q (fold remove_host ids v)" for v ids
  proof (induction ids arbitrary: v)
    case (Cons i ids)
    have "all_devices Q (remove_host i v)"
      using Cons.prems bt_values_remove
      by (fastforce simp: all_devices_def remove_host_def snapshot_def Let_def split: option.splits)
    with Cons show ?case by simp
  qed simp
  moreover have "\<forall>(i, d) \<in> set hs. Q d \<Longrightarrow> all_devices Q v \<Longrightarrow> all_devices Q (fold insert_host hs v)" for v hs
  proof (induction hs arbitrary: v)
    case (Cons h hs)
    have "all_devices Q (insert_host h v)"
      using Cons.prems bt_values_insert
      by (fastforce simp: all_devices_def insert_host_def snapshot_def Let_def insert_presence_def split: option.splits)
    with Cons show ?case by simp
  qed simp
  ultimately show ?thesis by (simp add: refresh_hosts_def st Let_def)
qed

text \<open>What the policy allows for a device.\<close>

definition may_export :: "bool \<Rightarrow> string list \<Rightarrow> local_device \<Rightarrow> bool" where
  "may_export export_all exact d \<longleftrightarrow> bus_id (info d) \<in> set exact \<or> export_all \<and> \<not> is_sensitive d"

definition flagged :: "bool \<Rightarrow> string list \<Rightarrow> local_device \<Rightarrow> bool" where
  "flagged export_all exact d \<longleftrightarrow> exported (info d) = may_export export_all exact d"

lemma flagged_set_id: "flagged export_all exact (set_id i d) = flagged export_all exact d"
  by (simp add: flagged_def may_export_def set_id_def is_sensitive_def)

lemma apply_export_flags_flagged: "\<forall>d \<in> set (apply_export_flags export_all exact devs). flagged export_all exact d"
  by (auto simp: apply_export_flags_def flagged_def may_export_def set_exported_def is_sensitive_def)

lemma refresh_host_devices_inventory:
  "devices (snd (refresh_host_devices devs s)) = snd (refresh_hosts devs (devices s))"
  by (simp add: refresh_host_devices_def Let_def split: prod.splits)

lemma hotplug_tick_flagged:
  assumes "all_devices (flagged export_all exact) (devices s)"
  shows "all_devices (flagged export_all exact) (devices (hotplug_tick export_all exact scan s))"
proof (cases scan)
  case (Some scanned)
  then show ?thesis
    using all_devices_refresh [OF flagged_set_id assms apply_export_flags_flagged] Some
    by (simp add: hotplug_tick_def refresh_host_devices_inventory)
qed (simp add: hotplug_tick_def assms)

lemma server_start_flagged: "all_devices (flagged export_all exact) (devices (server_start w e host fp export_all exact found))"
  using all_devices_new [OF flagged_set_id apply_export_flags_flagged]
  by (simp add: server_start_def server_new_def apply_export_policy_def)

lemma server_runs_flagged:
  assumes "server_runs w export_all exact (sys_init (server_start w e host fp export_all exact found) t) y"
  shows "all_devices (flagged export_all exact) (devices (server y))"
  using assms
proof induction
  case start
  then show ?case by (simp add: sys_init_def server_start_flagged)
next
  case (tick y scan)
  then show ?case by (simp add: hotplug_tick_flagged)
next
  case (other y y')
  then show ?case by simp
qed

section \<open>Properties\<close>

text \<open>
  The export policy holds for as long as the server runs: whatever is plugged in, whatever clients do and in
  whatever order, the devices offered to clients are exactly those in the inventory that were selected by bus id
  or, with \<open>--export-all\<close>, are not sensitive. In particular no keyboard, storage device or hub, also not as an
  interface of a composite device, is offered unless its bus id was given.
\<close>

lemma export_policy_holds:
  assumes "server_runs w export_all exact (sys_init (server_start w e host fp export_all exact found) t) y"
  shows "set (device_list (server y)) = info ` {d \<in> set (devices_snapshot (server y)). may_export export_all exact d}"
  using server_runs_flagged [OF assms] by (auto simp: device_list_def devices_snapshot_def all_devices_def flagged_def)

lemma export_policy_holds_example:
  "device_list (hotplug_tick True [] (Some [host_device 1 ''4-2'', host_device 2 ''4-3''])
     (server_start demo_world (demo_env []) ''lab'' [5] True [] [])) = []"
proof -
  let ?y = "(sys_init (server_start demo_world (demo_env []) ''lab'' [5] True [] []) 0)
    \<lparr>server := hotplug_tick True [] (Some [host_device 1 ''4-2'', host_device 2 ''4-3''])
      (server (sys_init (server_start demo_world (demo_env []) ''lab'' [5] True [] []) 0))\<rparr>"
  have "server_runs demo_world True [] (sys_init (server_start demo_world (demo_env []) ''lab'' [5] True [] []) 0) ?y"
    by (rule server_runs.tick [OF server_runs.start])
  from export_policy_holds [OF this]
  have "set (device_list (server ?y)) = info ` {d \<in> set (devices_snapshot (server ?y)). may_export True [] d}" .
  moreover have "all_devices is_sensitive (devices (server ?y))"
  proof -
    have i: "is_sensitive (set_id i d) = is_sensitive d" for i d by (simp add: is_sensitive_def set_id_def)
    have "all_devices is_sensitive (inventory_new [])" by (rule all_devices_new [OF i]) simp
    then show ?thesis
      unfolding hotplug_tick_def sys_init_def server_start_def server_new_def apply_export_policy_def apply_export_flags_def
      by (simp add: refresh_host_devices_inventory)
         (rule all_devices_refresh [OF i], assumption, simp add: is_sensitive_def set_exported_def host_device_def lab_device_def)
  qed
  ultimately have "set (device_list (server ?y)) = {}"
    by (auto simp: may_export_def all_devices_def devices_snapshot_def)
  then show ?thesis by (simp add: sys_init_def)
qed

section \<open>A device that changes its nature\<close>

text \<open>
  The policy decides what can be attached, not what stays attached. Inventory keys are the bus id, vendor and
  product, so a device that comes back between two scans with other interfaces keeps its id, its presence
  flag and its lease, although it is no longer offered.
\<close>

lemma lease_outlives_export:
  fixes plain keyboard s0 s1 s2
  defines "plain \<equiv> (host_device 1 ''4-2'')\<lparr>info := (info (host_device 1 ''4-2''))\<lparr>usb_class := 255\<rparr>\<rparr>"
    and "keyboard \<equiv> (host_device 1 ''4-2'')\<lparr>info := (info (host_device 1 ''4-2''))\<lparr>usb_class := 3\<rparr>\<rparr>"
  defines "s0 \<equiv> server_start demo_world (demo_env []) ''lab'' [5] True [] [plain]"
  defines "s1 \<equiv> s0\<lparr>leases := snd (acquire 1 [7] (leases s0))\<rparr>"
  defines "s2 \<equiv> hotplug_tick True [] (Some [keyboard]) s1"
  shows "map info_id (device_list s1) = [1]" "device_list s2 = []" "owner (leases s2) 1 = Some [7]"
proof -
  have 0: "map info_id (map info (filter (\<lambda>d. exported (info d)) (snapshot (inventory_new (apply_export_flags True [] [plain]))))) = [1]"
    "filter (\<lambda>d. exported (info d)) (snapshot (snd (refresh_hosts (apply_export_flags True [] [keyboard])
       (inventory_new (apply_export_flags True [] [plain]))))) = []"
    "removed (fst (refresh_hosts (apply_export_flags True [] [keyboard])
       (inventory_new (apply_export_flags True [] [plain])))) = []"
    unfolding plain_def keyboard_def by code_simp+
  then show "map info_id (device_list s1) = [1]"
    by (simp add: s1_def s0_def server_start_def server_new_def apply_export_policy_def device_list_def)
  have d: "devices s1 = inventory_new (apply_export_flags True [] [plain])" "owner (leases s1) 1 = Some [7]"
    by (simp_all add: s1_def s0_def server_start_def server_new_def apply_export_policy_def acquire_def empty_book_def owner_def)
  obtain delta s' where r: "refresh_host_devices (apply_export_flags True [] [keyboard]) s1 = (delta, s')"
    by (metis surj_pair)
  note f = refresh_host_devices_fields [OF r]
  have "s2 = s'" by (simp add: s2_def hotplug_tick_def r)
  then show "device_list s2 = []" "owner (leases s2) 1 = Some [7]"
    using f(3,4) 0(2,3) d by (simp_all add: device_list_def)
qed

end
