(* ===== verification/Sysfs.thy ===== *)
theory Sysfs
  imports Inventory Store
begin

text \<open>
  The scanner of the Linux sysfs tree (\<^verbatim>\<open>parse_sysfs_device\<close> and its helpers in
  \<^verbatim>\<open>crates/farbus-core/src/usb.rs\<close>). A tree is a \<open>node\<close>; the entries of a directory are listed in the
  order \<open>read_dir\<close> returns them, symbolic links are already followed, and entries that cannot be read
  are absent. The kernel's names are ASCII, so that their lossy conversion is the identity. The libusb
  enumeration, which is tried first, is in theory \<open>Host_Usb\<close>.
\<close>

section \<open>Model\<close>

datatype node = File bytes | Dir "(string \<times> node) list"

fun read_dir :: "node \<Rightarrow> (string \<times> node) list option" where
  "read_dir (Dir es) = Some es"
| "read_dir (File _) = None"

fun is_dir :: "node \<Rightarrow> bool" where
  "is_dir (Dir _) = True"
| "is_dir (File _) = False"

definition read_attr :: "node \<Rightarrow> string \<Rightarrow> string option" where
  "read_attr dir name =
     (case read_dir dir of
        None \<Rightarrow> None
      | Some es \<Rightarrow>
          (case map_of es name of
             Some (File bs) \<Rightarrow> if valid_utf8 bs then Some (string_of_bytes bs) else None
           | _ \<Rightarrow> None))"

definition hex_text :: "string \<Rightarrow> string" where
  "hex_text txt = trim_front [''0x''] (trim txt)"

definition read_hex_u16 :: "node \<Rightarrow> string \<Rightarrow> u16 option" where
  "read_hex_u16 dir name = Option.bind (read_attr dir name) (\<lambda>txt. u16_from_hex (hex_text txt))"

definition read_hex_u8 :: "node \<Rightarrow> string \<Rightarrow> u8 option" where
  "read_hex_u8 dir name = Option.bind (read_attr dir name) (\<lambda>txt. u8_from_hex (hex_text txt))"

definition or_zero :: "u8 option \<Rightarrow> u8" where
  "or_zero b = (case b of Some x \<Rightarrow> x | None \<Rightarrow> 0)"

definition parse_sysfs_endpoints :: "node \<Rightarrow> u8 list" where
  "parse_sysfs_endpoints interface_dir =
     (case read_dir interface_dir of
        None \<Rightarrow> []
      | Some es \<Rightarrow>
          sort (List.map_filter
            (\<lambda>(name, n). if starts_with ''ep_'' name then read_hex_u8 n ''bEndpointAddress'' else None) es))"

definition parse_interface_entry :: "string \<Rightarrow> string \<times> node \<Rightarrow> usb_interface_info option" where
  "parse_interface_entry prefix = (\<lambda>(name, n).
     if \<not> is_dir n then None
     else if \<not> starts_with prefix name \<or> CHR ''.'' \<notin> set name then None
     else map_option (\<lambda>number.
            \<lparr>interface_number = number,
             interface_class = or_zero (read_hex_u8 n ''bInterfaceClass''),
             interface_subclass = or_zero (read_hex_u8 n ''bInterfaceSubClass''),
             interface_protocol = or_zero (read_hex_u8 n ''bInterfaceProtocol''),
             endpoints = parse_sysfs_endpoints n\<rparr>)
          (read_hex_u8 n ''bInterfaceNumber''))"

definition parse_sysfs_interfaces :: "node \<Rightarrow> string \<Rightarrow> usb_interface_info list" where
  "parse_sysfs_interfaces device_dir bus =
     (case read_dir device_dir of
        None \<Rightarrow> []
      | Some es \<Rightarrow> sort_key interface_number (List.map_filter (parse_interface_entry (bus @ '':'')) es))"

text \<open>\<open>{vid:04x}\<close>.\<close>

definition hex_u16 :: "u16 \<Rightarrow> string" where
  "hex_u16 w = hex_string (u16_to_be_bytes w)"

definition speed_of_text :: "string option \<Rightarrow> usb_speed" where
  "speed_of_text txt =
     (case map_option trim txt of
        Some t \<Rightarrow>
          if t = ''1.5'' then SpeedLow
          else if t = ''12'' then SpeedFull
          else if t = ''5000'' \<or> t = ''10000'' \<or> t = ''20000'' then SpeedSuper
          else SpeedHigh
      | None \<Rightarrow> SpeedHigh)"

definition parse_sysfs_device :: "string \<Rightarrow> node \<Rightarrow> device_id \<Rightarrow> local_device option" where
  "parse_sysfs_device name dir did =
     Option.bind (read_hex_u16 dir ''idVendor'') (\<lambda>v.
     Option.bind (read_hex_u16 dir ''idProduct'') (\<lambda>p.
       let class = or_zero (read_hex_u8 dir ''bDeviceClass'');
           prod = (case map_option trim (read_attr dir ''product'') of
                     Some t \<Rightarrow> if t \<noteq> [] then t else hex_u16 v @ '':'' @ hex_u16 p
                   | None \<Rightarrow> hex_u16 v @ '':'' @ hex_u16 p);
           sp = speed_of_text (read_attr dir ''speed'')
       in if CHR ''-'' \<notin> set name then None
          else let ifs = parse_sysfs_interfaces dir name;
                   ifs1 = (if ifs = [] \<and> class \<noteq> 0
                           then [\<lparr>interface_number = 0, interface_class = class, interface_subclass = 0,
                                  interface_protocol = 0, endpoints = []\<rparr>]
                           else ifs)
               in Some \<lparr>info = \<lparr>info_id = did, bus_id = name, vid = v, pid = p, usb_class = class, speed = sp,
                          product = prod, exported = False, interfaces = ifs1\<rparr>, backend = Host\<rparr>))"

text \<open>The loop over the entries of the bus directory; the ids count up from one.\<close>

fun scan_entries :: "u32 \<Rightarrow> (string \<times> node) list \<Rightarrow> local_device list" where
  "scan_entries nxt [] = []"
| "scan_entries nxt ((name, n) # es) =
     (if \<not> is_dir n then scan_entries nxt es
      else case parse_sysfs_device name n nxt of
             Some device \<Rightarrow> device # scan_entries (nxt + 1) es
           | None \<Rightarrow> scan_entries nxt es)"

definition scan_sysfs :: "node option \<Rightarrow> local_device list" where
  "scan_sysfs root =
     (case Option.bind root read_dir of None \<Rightarrow> [] | Some es \<Rightarrow> scan_entries 1 es)"

definition scan_sysfs_result :: "node option \<Rightarrow> unit + local_device list" where
  "scan_sysfs_result root =
     (case Option.bind root read_dir of None \<Rightarrow> Inl () | Some es \<Rightarrow> Inr (scan_entries 1 es))"

text \<open>\<open>libusb\<close> is what the libusb enumeration returned.\<close>

definition try_scan_host_usb :: "local_device list option \<Rightarrow> node option \<Rightarrow> unit + local_device list" where
  "try_scan_host_usb libusb root = (case libusb of Some ds \<Rightarrow> Inr ds | None \<Rightarrow> scan_sysfs_result root)"

definition scan_host_usb :: "local_device list option \<Rightarrow> node option \<Rightarrow> local_device list" where
  "scan_host_usb libusb root = (case try_scan_host_usb libusb root of Inr ds \<Rightarrow> ds | Inl _ \<Rightarrow> [])"

section \<open>Lemmas\<close>

lemma parse_sysfs_device_fields:
  assumes "parse_sysfs_device name n did = Some d"
  shows "info_id (info d) = did" "bus_id (info d) = name" "exported (info d) = False" "backend d = Host"
    "CHR ''-'' \<in> set name" "sorted (map interface_number (interfaces (info d)))"
  using assms
  by (auto simp: parse_sysfs_device_def Let_def parse_sysfs_interfaces_def split: bind_splits if_splits option.splits)

lemma scan_entries_ids:
  "map (\<lambda>d. info_id (info d)) (scan_entries nxt es) = map (\<lambda>k. nxt + of_nat k) [0..<length (scan_entries nxt es)]"
proof (induction nxt es rule: scan_entries.induct)
  case (2 nxt name n es)
  show ?case
  proof (cases "\<not> is_dir n")
    case True
    then show ?thesis using 2(1) by simp
  next
    case False
    show ?thesis
    proof (cases "parse_sysfs_device name n nxt")
      case None
      then show ?thesis using 2(2) [OF False] False by simp
    next
      case (Some d)
      then show ?thesis
        using 2(3) [OF False] False parse_sysfs_device_fields(1) [OF Some]
        by (simp add: upt_conv_Cons map_Suc_upt [symmetric] del: upt_Suc)
    qed
  qed
qed simp

lemma scan_entries_devices:
  "d \<in> set (scan_entries nxt es) \<Longrightarrow> \<exists>name n did. (name, n) \<in> set es \<and> parse_sysfs_device name n did = Some d"
  by (induction nxt es rule: scan_entries.induct) (fastforce split: if_splits option.splits)+

lemma scan_entries_distinct:
  "distinct (map fst es) \<Longrightarrow> distinct (map (\<lambda>d. bus_id (info d)) (scan_entries nxt es))"
proof (induction nxt es rule: scan_entries.induct)
  case (2 nxt name n es)
  have "bus_id (info d) \<in> fst ` set es" if "d \<in> set (scan_entries k es)" for d k
    using scan_entries_devices [OF that] parse_sysfs_device_fields(2) by (metis fst_conv image_eqI)
  then show ?case
    using 2 parse_sysfs_device_fields(2) [of name n nxt] by (auto split: option.splits)
qed simp

lemma distinct_keys:
  assumes "distinct (map (\<lambda>d. bus_id (info d)) ds)"
  shows "distinct (map key_of ds)"
proof -
  have "map (\<lambda>d. bus_id (info d)) ds = map key_bus_id (map key_of ds)" by (simp add: key_of_def)
  with assms show ?thesis by (metis distinct_map)
qed

lemma length_scan_entries: "length (scan_entries nxt es) \<le> length es"
  by (induction nxt es rule: scan_entries.induct) (auto split: option.splits intro: le_SucI)

text \<open>What the kernel prints with \<^verbatim>\<open>%04x\<close> and \<^verbatim>\<open>%02x\<close> and a newline.\<close>

lemma trim_line:
  assumes "s \<noteq> []" "\<forall>c \<in> set s. visible c"
  shows "trim (s @ [newline]) = s"
proof -
  have "trim_front white_space (s @ [newline]) = s @ [newline]"
    using strip_front_visible [of white_space "s @ [newline]"] white_space_ends assms by (subst trim_front.simps) simp
  moreover have "strip_front (map rev white_space) (newline # rev s) = Some (rev s)"
  proof -
    have "find (\<lambda>w. w \<noteq> [] \<and> take (length w) (newline # rev s) = w) (map rev white_space) = Some [newline]"
      by (simp add: white_space_def char_of_def bit_0)
    then show ?thesis by (simp add: strip_front_def)
  qed
  moreover have "strip_front (map rev white_space) (rev s) = None"
    using strip_front_visible [of "map rev white_space" "rev s"] white_space_ends assms by (auto simp: hd_rev)
  ultimately show ?thesis
    by (simp add: trim_def trim_front.simps [of "map rev white_space" "newline # rev s"]
        trim_front.simps [of "map rev white_space" "rev s"])
qed

lemma hex_text_line:
  assumes "bs \<noteq> []"
  shows "hex_text (hex_string bs @ [newline]) = hex_string bs"
proof -
  obtain b r where bs: "bs = b # r" using assms by (cases bs) auto
  then have ne: "hex_string bs \<noteq> []" by (simp add: hex_string_def hex_byte_def)
  have x: "hex_char n \<noteq> CHR ''x''" if "n < 16" for n
  proof
    assume e: "hex_char n = CHR ''x''"
    have "(of_char (hex_char n) :: nat) \<le> 102" using that by (simp add: hex_char_def)
    then show False by (simp add: e)
  qed
  have "strip_front [''0x''] (hex_string bs) = None"
    using x [OF nibble(2), of b] by (simp add: bs strip_front_def hex_string_def hex_byte_def)
  then have "trim_front [''0x''] (hex_string bs) = hex_string bs" by (subst trim_front.simps) simp
  then show ?thesis using trim_line [of "hex_string bs"] ne hex_visible by (auto simp: hex_text_def)
qed

lemma u16_from_hex_u16: "u16_from_hex (hex_u16 w) = Some w"
proof -
  let ?a = "ucast (drop_bit 8 w) :: u8" and ?b = "ucast w :: u8"
  have v: "unat ?a * 256 + unat ?b = unat w"
  proof -
    have "unat (drop_bit 8 w) = unat w div 256" by (simp add: unat_div drop_bit_eq_div)
    moreover have "unat w div 256 < 256" using unat_less(2) [of w] by (simp add: less_mult_imp_div_less)
    ultimately have "unat ?a = unat w div 256" by (simp add: unsigned_ucast_eq take_bit_eq_mod)
    moreover have "unat ?b = unat w mod 256" by (simp add: unsigned_ucast_eq take_bit_eq_mod)
    ultimately show ?thesis by simp
  qed
  have n: "unat x = 16 * (unat x div 16) + unat x mod 16" for x :: u8 by simp
  have le: "unat w \<le> 65535" using unat_less(2) [of w] by linarith
  have "from_str_radix16 65535 (hex_u16 w) = Some (unat ?a * 256 + unat ?b)"
    using nibble [of ?a] nibble [of ?b] n [of ?a] n [of ?b] v le
    by (simp add: from_str_radix16_def hex_u16_def u16_to_be_bytes_def hex_string_def hex_byte_def hex_char_not_sign
        hex_digit_hex_char algebra_simps)
  then show ?thesis by (simp add: u16_from_hex_def v)
qed

section \<open>Properties\<close>

text \<open>
  C35. What a scan of sysfs returns is well formed, whatever the tree holds: the devices are numbered one, two, three
  and so on in the order of the directory, are host devices that are not exported, have a bus id that is the name
  of their directory and contains a dash, and list their interfaces in the order of their numbers.
\<close>

theorem scan_sysfs_wf:
  "map (\<lambda>d. info_id (info d)) (scan_sysfs root) = map (\<lambda>k. 1 + of_nat k) [0..<length (scan_sysfs root)] \<and>
   list_all (\<lambda>d. backend d = Host \<and> \<not> exported (info d) \<and> CHR ''-'' \<in> set (bus_id (info d)) \<and>
     sorted (map interface_number (interfaces (info d)))) (scan_sysfs root)"
proof (cases "Option.bind root read_dir")
  case (Some es)
  have "backend d = Host \<and> \<not> exported (info d) \<and> CHR ''-'' \<in> set (bus_id (info d)) \<and>
      sorted (map interface_number (interfaces (info d)))" if dd: "d \<in> set (scan_entries 1 es)" for d
  proof -
    obtain name n did where "parse_sysfs_device name n did = Some d" using scan_entries_devices [OF dd] by blast
    from parse_sysfs_device_fields [OF this] show ?thesis by simp
  qed
  then show ?thesis by (auto simp: scan_sysfs_def Some scan_entries_ids list_all_iff)
qed (simp add: scan_sysfs_def)

text \<open>
  The scanner reads back what the kernel prints: the vendor and product number of a device, written as four hex
  digits and a newline, come out as they went in.
\<close>

lemma sysfs_ids_roundtrip:
  assumes "read_attr dir ''idVendor'' = Some (hex_u16 v @ [newline])" "read_attr dir ''idProduct'' = Some (hex_u16 p @ [newline])"
    and "CHR ''-'' \<in> set name"
  shows "\<exists>d. parse_sysfs_device name dir did = Some d \<and> vid (info d) = v \<and> pid (info d) = p \<and> bus_id (info d) = name"
proof -
  have "hex_text (hex_u16 w @ [newline]) = hex_u16 w" for w
    unfolding hex_u16_def by (rule hex_text_line) (simp add: u16_to_be_bytes_def)
  then show ?thesis using assms by (simp add: parse_sysfs_device_def read_hex_u16_def u16_from_hex_u16 Let_def)
qed

text \<open>A keyboard as the kernel shows it.\<close>

definition attr :: "string \<Rightarrow> string \<Rightarrow> string \<times> node" where
  "attr name txt = (name, File (as_bytes (txt @ [newline])))"

definition sample_keyboard :: node where
  "sample_keyboard = Dir [attr ''idVendor'' (hex_u16 0x046d), attr ''idProduct'' (hex_u16 0xc31c), attr ''bDeviceClass'' ''00'',
     (''1-1:1.0'', Dir [attr ''bInterfaceNumber'' ''00'', attr ''bInterfaceClass'' ''03'', (''ep_81'', Dir [attr ''bEndpointAddress'' ''81''])])]"

lemma hex_u16_utf8: "valid_utf8 (as_bytes (hex_u16 w @ [newline]))"
proof (rule valid_utf8_ascii, rule ballI)
  fix b assume "b \<in> set (as_bytes (hex_u16 w @ [newline]))"
  then have "b \<in> set (as_bytes (hex_u16 w)) \<or> b = 10" by (auto simp: as_bytes_def)
  then show "b < 0x80" using visible_bytes [of "hex_u16 w"] hex_visible by (auto simp: hex_u16_def)
qed

lemma sysfs_ids_roundtrip_example:
  "\<exists>d. parse_sysfs_device ''1-1'' sample_keyboard 1 = Some d \<and> vid (info d) = 0x046d \<and> pid (info d) = 0xc31c"
  using sysfs_ids_roundtrip [of sample_keyboard "0x046d" "0xc31c" "''1-1''" 1] hex_u16_utf8
  by (auto simp: sample_keyboard_def read_attr_def attr_def)

text \<open>
  A server that starts on a sysfs scan starts with a well-formed inventory: the bus ids of the devices differ
  because the names in a directory do, so every device gets its own key and keeps the number of the scan.
\<close>

lemma scan_starts_wf:
  assumes "distinct (map fst es)" "2 * length es < 2 ^ 31"
  shows "inventory_wf (inventory_new (scan_sysfs (Some (Dir es))))"
proof -
  let ?ds = "scan_entries 1 es" and ?m = "Suc (length es)"
  have "unat (info_id (info d)) \<le> ?m" if d: "d \<in> set ?ds" for d
  proof -
    have "info_id (info d) \<in> set (map (\<lambda>k. 1 + of_nat k) [0..<length ?ds])"
      using d unfolding scan_entries_ids [symmetric] by simp
    then obtain k where k: "info_id (info d) = of_nat (Suc k)" "k < length es"
      using length_scan_entries [of 1 es] by auto
    then show ?thesis using assms(2) by (simp only: unat_of_nat) (simp add: take_bit_eq_mod)
  qed
  moreover have "distinct (map key_of ?ds)" by (intro distinct_keys scan_entries_distinct assms(1))
  ultimately show ?thesis
    using inventory_new_wf(1) [of ?ds ?m] length_scan_entries [of 1 es] assms(2) by (simp add: scan_sysfs_def)
qed

lemma scan_starts_wf_example: "inventory_wf (inventory_new (scan_sysfs (Some (Dir [(''1-1'', sample_keyboard)]))))"
  by (rule scan_starts_wf) simp_all

end
