(* ===== verification/Host_Usb.thy ===== *)
theory Host_Usb
  imports Sysfs Urb
begin

text \<open>
  Real USB devices through libusb (\<^verbatim>\<open>crates/farbus-core/src/host_usb.rs\<close>). The library is a parameter: the
  list of the devices it enumerates, each with what the calls on it return. A \<open>handle\<close> is what the
  transfers on an opened device, on which an interface was claimed, return: the bytes that were read or
  whether the write succeeded, \<open>None\<close> and \<open>False\<close> on an error. The timeouts are part of these outcomes.
\<close>

section \<open>The library\<close>

datatype rusb_speed = RusbUnknown | RusbLow | RusbFull | RusbHigh | RusbSuper | RusbSuperPlus

record handle =
  read_control :: "u8 \<Rightarrow> u8 \<Rightarrow> u16 \<Rightarrow> u16 \<Rightarrow> nat \<Rightarrow> bytes option"
  write_control :: "u8 \<Rightarrow> u8 \<Rightarrow> u16 \<Rightarrow> u16 \<Rightarrow> bytes \<Rightarrow> bool"
  read_bulk :: "u8 \<Rightarrow> nat \<Rightarrow> bytes option"
  write_bulk :: "u8 \<Rightarrow> bytes \<Rightarrow> bool"
  read_interrupt :: "u8 \<Rightarrow> nat \<Rightarrow> bytes option"
  write_interrupt :: "u8 \<Rightarrow> bytes \<Rightarrow> bool"

text \<open>A descriptor is the vendor, the product and the class; an interface is given by its first descriptor.\<close>

record rusb_device =
  device_descriptor :: "(u16 \<times> u16 \<times> u8) option"
  rusb_speed_of :: rusb_speed
  product_string :: "string option"
  bus_number :: u8
  port_numbers :: "u8 list option"
  config_interfaces :: "usb_interface_info option list option"
  open_claimed :: "(u8 \<Rightarrow> handle) option"

section \<open>Enumeration\<close>

fun join_with :: "string \<Rightarrow> string list \<Rightarrow> string" where
  "join_with sep [] = []"
| "join_with sep [x] = x"
| "join_with sep (x # y # xs) = x @ sep @ join_with sep (y # xs)"

definition topology_bus_id :: "u8 \<Rightarrow> u8 list \<Rightarrow> string" where
  "topology_bus_id bus ports =
     show_nat (unat bus) @ ''-'' @ join_with ''.'' (map (\<lambda>p. show_nat (unat p)) ports)"

definition collect_interfaces :: "rusb_device \<Rightarrow> usb_interface_info list" where
  "collect_interfaces device =
     (case config_interfaces device of None \<Rightarrow> [] | Some is \<Rightarrow> List.map_filter (\<lambda>i. i) is)"

fun libusb_speed :: "rusb_speed \<Rightarrow> usb_speed" where
  "libusb_speed RusbLow = SpeedLow"
| "libusb_speed RusbFull = SpeedFull"
| "libusb_speed RusbSuper = SpeedSuper"
| "libusb_speed RusbSuperPlus = SpeedSuper"
| "libusb_speed _ = SpeedHigh"

text \<open>The loop of \<open>try_scan_libusb\<close>: a failing call ends the scan, a root hub is skipped.\<close>

fun scan_libusb_from :: "u32 \<Rightarrow> rusb_device list \<Rightarrow> local_device list option" where
  "scan_libusb_from did [] = Some []"
| "scan_libusb_from did (device # rest) =
     (case device_descriptor device of
        None \<Rightarrow> None
      | Some (v, p, class) \<Rightarrow>
          let prod = (case product_string device of Some t \<Rightarrow> t | None \<Rightarrow> hex_u16 v @ '':'' @ hex_u16 p)
          in case port_numbers device of
               None \<Rightarrow> None
             | Some ports \<Rightarrow>
                 if ports = [] then scan_libusb_from did rest
                 else map_option (\<lambda>ds.
                        \<lparr>info = \<lparr>info_id = did, bus_id = topology_bus_id (bus_number device) ports, vid = v, pid = p,
                           usb_class = class, speed = libusb_speed (rusb_speed_of device), product = prod,
                           exported = False, interfaces = collect_interfaces device\<rparr>, backend = Host\<rparr> # ds)
                      (scan_libusb_from (did + 1) rest))"

definition try_scan_libusb :: "rusb_device list option \<Rightarrow> local_device list option" where
  "try_scan_libusb lib = Option.bind lib (scan_libusb_from 1)"

definition scan_libusb :: "rusb_device list option \<Rightarrow> local_device list" where
  "scan_libusb lib = (case try_scan_libusb lib of Some ds \<Rightarrow> ds | None \<Rightarrow> [])"

section \<open>Transfers\<close>

definition transfer_result :: "u32 \<Rightarrow> bytes option \<Rightarrow> urb_complete" where
  "transfer_result seq r = (case r of Some dat \<Rightarrow> completed seq 0 dat | None \<Rightarrow> completed seq (- 1) [])"

definition write_result_of :: "u32 \<Rightarrow> bool \<Rightarrow> urb_complete" where
  "write_result_of seq ok = (if ok then completed seq 0 [] else completed seq (- 1) [])"

definition u16_le :: "u8 \<Rightarrow> u8 \<Rightarrow> u16" where
  "u16_le a b = u16_from_be_bytes [b, a]"

definition host_control :: "handle \<Rightarrow> urb_submit \<Rightarrow> urb_complete option" where
  "host_control h submit =
     (let dat = submit_data submit
      in if length dat < 8 then None
         else let request_type = dat ! 0; request = dat ! 1; val = u16_le (dat ! 2) (dat ! 3);
                  index = u16_le (dat ! 4) (dat ! 5);
                  w_length = min (unat (u16_le (dat ! 6) (dat ! 7))) 65536
              in if request_type AND 0x80 \<noteq> 0
                 then Some (transfer_result (submit_seq submit)
                        (read_control h request_type request val index (max w_length 1)))
                 else Some (write_result_of (submit_seq submit)
                        (write_control h request_type request val index (drop 8 dat))))"

definition host_bulk :: "handle \<Rightarrow> urb_submit \<Rightarrow> urb_complete" where
  "host_bulk h submit =
     (if endpoint submit AND 0x80 \<noteq> 0
      then transfer_result (submit_seq submit)
             (read_bulk h (endpoint submit) (clamp_nat 1 65536 (unat (requested_length submit))))
      else write_result_of (submit_seq submit) (write_bulk h (endpoint submit) (submit_data submit)))"

definition host_interrupt :: "handle \<Rightarrow> urb_submit \<Rightarrow> urb_complete" where
  "host_interrupt h submit =
     (if endpoint submit AND 0x80 \<noteq> 0
      then transfer_result (submit_seq submit)
             (read_interrupt h (endpoint submit) (clamp_nat 1 65536 (unat (requested_length submit))))
      else write_result_of (submit_seq submit) (write_interrupt h (endpoint submit) (submit_data submit)))"

definition interface_for_endpoint :: "usb_interface_info list \<Rightarrow> u8 \<Rightarrow> u8 option" where
  "interface_for_endpoint ifaces e =
     (case find (\<lambda>i. e \<in> set (endpoints i) \<or> e = 0) ifaces of
        Some i \<Rightarrow> Some (interface_number i)
      | None \<Rightarrow> (case ifaces of i # _ \<Rightarrow> Some (interface_number i) | [] \<Rightarrow> None))"

definition is_candidate :: "local_device \<Rightarrow> rusb_device \<Rightarrow> bool" where
  "is_candidate device candidate =
     (case (device_descriptor candidate, port_numbers candidate) of
        (Some (v, p, _), Some ports) \<Rightarrow>
          v = vid (info device) \<and> p = pid (info device) \<and>
          topology_bus_id (bus_number candidate) ports = bus_id (info device)
      | _ \<Rightarrow> False)"

definition host_target :: "urb_submit \<Rightarrow> local_device list \<Rightarrow> local_device option" where
  "host_target submit devs =
     find (\<lambda>d. info_id (info d) = submit_device_id submit \<and> exported (info d) \<and> backend d = Host) devs"

definition host_transfer :: "handle \<Rightarrow> urb_submit \<Rightarrow> urb_complete option" where
  "host_transfer h submit =
     (case transfer submit of
        Control \<Rightarrow> host_control h submit
      | Bulk \<Rightarrow> Some (host_bulk h submit)
      | Interrupt \<Rightarrow> Some (host_interrupt h submit)
      | Isochronous \<Rightarrow> Some (completed (submit_seq submit) (- 32) []))"

definition try_host :: "rusb_device list option \<Rightarrow> urb_submit \<Rightarrow> local_device list \<Rightarrow> urb_complete option" where
  "try_host lib submit devs =
     Option.bind (host_target submit devs) (\<lambda>device.
     Option.bind lib (\<lambda>candidates.
     Option.bind (find (is_candidate device) candidates) (\<lambda>usb_dev.
     Option.bind (open_claimed usb_dev) (\<lambda>claimed.
       let h = claimed (case interface_for_endpoint (interfaces (info device)) (endpoint submit) of
                          Some i \<Rightarrow> i | None \<Rightarrow> 0)
       in host_transfer h submit))))"

definition complete_host_or_emulated ::
    "rusb_device list option \<Rightarrow> urb_submit \<Rightarrow> local_device list \<Rightarrow> urb_complete" where
  "complete_host_or_emulated lib submit devs =
     (case try_host lib submit devs of
        Some complete \<Rightarrow> complete
      | None \<Rightarrow>
          let emulated = list_ex (\<lambda>d. info_id (info d) = submit_device_id submit \<and> backend d = Emulated) devs
          in if emulated then complete_urb submit else completed (submit_seq submit) (- 1) [])"

section \<open>Lemmas\<close>

subsection \<open>Bus ids\<close>

definition is_digit :: "char \<Rightarrow> bool" where
  "is_digit c \<longleftrightarrow> 48 \<le> (of_char c :: nat) \<and> (of_char c :: nat) \<le> 57"

definition digits_value :: "string \<Rightarrow> nat" where
  "digits_value s = foldl (\<lambda>a c. a * 10 + (of_char c - 48)) 0 s"

lemma show_nat_digits: "show_nat n \<noteq> [] \<and> (\<forall>c \<in> set (show_nat n). is_digit c)"
proof (induction n rule: show_nat.induct)
  case (1 n)
  have "n mod 10 < 10" by simp
  then have "is_digit (char_of (n mod 10 + 48))" by (simp add: is_digit_def)
  with 1 show ?case by (subst (1 2) show_nat.simps) (auto simp: is_digit_def)
qed

lemma digits_value_show_nat: "digits_value (show_nat n) = n"
proof (induction n rule: show_nat.induct)
  case (1 n)
  have "n mod 10 + 48 < 256" by (simp add: less_trans [of _ 10])
  then have "(of_char (char_of (n mod 10 + 48)) :: nat) = n mod 10 + 48" by simp
  with 1 show ?case by (subst show_nat.simps) (auto simp: digits_value_def)
qed

lemma show_nat_inject: "show_nat m = show_nat n \<longleftrightarrow> m = n"
  by (metis digits_value_show_nat)

lemma separator_inject:
  assumes "x \<notin> set a" "x \<notin> set b" "a @ x # r = b @ x # r'"
  shows "a = b \<and> r = r'"
proof -
  have t: "takeWhile (\<lambda>c. c \<noteq> x) (l @ x # t) = l" if "x \<notin> set l" for l t
    using that by (induction l) auto
  from assms t [of a r] t [of b r'] have "a = b" by metis
  with assms(3) show ?thesis by simp
qed

lemma join_with_inject:
  assumes "\<forall>s \<in> set xs \<union> set ys. s \<noteq> [] \<and> d \<notin> set s" "join_with [d] xs = join_with [d] ys"
  shows "xs = ys"
  using assms
proof (induction "[d]" xs arbitrary: ys rule: join_with.induct)
  case 1
  then show ?case by (cases ys rule: list.exhaust; cases "tl ys") auto
next
  case (2 x)
  then have x: "x \<noteq> []" "d \<notin> set x" by auto
  then show ?case
  proof (cases ys)
    case (Cons y zs)
    then show ?thesis using 2 x by (cases zs) auto
  qed (use 2 in auto)
next
  case (3 x y xs)
  have j: "join_with [d] (x # y # xs) = x @ d # join_with [d] (y # xs)" by simp
  show ?case
  proof (cases ys)
    case Nil
    then show ?thesis using 3(3) j by simp
  next
    case (Cons a zs)
    show ?thesis
    proof (cases zs)
      case Nil
      then have "d \<in> set a" using 3(3) j Cons by (metis in_set_conv_decomp join_with.simps(2))
      then show ?thesis using 3(2) Cons by auto
    next
      case (Cons b ws)
      then have "x @ d # join_with [d] (y # xs) = a @ d # join_with [d] (b # ws)"
        using 3(3) j \<open>ys = a # zs\<close> by simp
      moreover have "d \<notin> set x" "d \<notin> set a" using 3(2) \<open>ys = a # zs\<close> by auto
      ultimately have "x = a" "join_with [d] (y # xs) = join_with [d] (b # ws)"
        using separator_inject [of d x a] by auto
      then show ?thesis using 3(1) [of "b # ws"] 3(2) \<open>ys = a # zs\<close> Cons by auto
    qed
  qed
qed

lemma topology_bus_id_eq: "topology_bus_id b ps = topology_bus_id b' ps' \<longleftrightarrow> b = b' \<and> ps = ps'"
proof
  assume eq: "topology_bus_id b ps = topology_bus_id b' ps'"
  have d: "CHR ''-'' \<notin> set (show_nat n)" "CHR ''.'' \<notin> set (show_nat n)" "show_nat n \<noteq> []" for n
    using show_nat_digits [of n] by (auto simp: is_digit_def)
  from eq have "show_nat (unat b) = show_nat (unat b') \<and>
      join_with ''.'' (map (\<lambda>p. show_nat (unat p)) ps) = join_with ''.'' (map (\<lambda>p. show_nat (unat p)) ps')"
    unfolding topology_bus_id_def using separator_inject [OF d(1) d(1)] by simp
  then have "b = b'" and j: "join_with ''.'' (map (\<lambda>p. show_nat (unat p)) ps) = join_with ''.'' (map (\<lambda>p. show_nat (unat p)) ps')"
    by (simp_all add: show_nat_inject word_unat_eq_iff)
  moreover have "map (\<lambda>p. show_nat (unat p)) ps = map (\<lambda>p. show_nat (unat p)) ps'"
    by (rule join_with_inject [OF _ j]) (use d in auto)
  moreover have "inj (\<lambda>p :: u8. show_nat (unat p))" by (auto intro!: injI simp: show_nat_inject word_unat_eq_iff)
  ultimately show "b = b' \<and> ps = ps'" by (simp add: inj_map_eq_map)
qed simp

subsection \<open>Completions\<close>

text \<open>What libusb promises: no transfer returns more bytes than the buffer it was given.\<close>

definition handle_ok :: "handle \<Rightarrow> bool" where
  "handle_ok h \<longleftrightarrow>
     (\<forall>rt r v i n bs. read_control h rt r v i n = Some bs \<longrightarrow> length bs \<le> n) \<and>
     (\<forall>e n bs. read_bulk h e n = Some bs \<longrightarrow> length bs \<le> n) \<and>
     (\<forall>e n bs. read_interrupt h e n = Some bs \<longrightarrow> length bs \<le> n)"

definition libusb_ok :: "rusb_device list option \<Rightarrow> bool" where
  "libusb_ok lib \<longleftrightarrow> (\<forall>ds d claimed i. lib = Some ds \<longrightarrow> d \<in> set ds \<longrightarrow> open_claimed d = Some claimed \<longrightarrow> handle_ok (claimed i))"

lemma transfer_result_simps:
  "complete_seq (transfer_result seq r) = seq" "complete_seq (write_result_of seq ok) = seq"
  "complete_data (write_result_of seq ok) = []"
  "complete_data (transfer_result seq r) = (case r of Some dat \<Rightarrow> dat | None \<Rightarrow> [])"
  by (simp_all add: transfer_result_def write_result_of_def completed_def split: option.splits)

lemma transfer_result_bound:
  "(\<And>bs. r = Some bs \<Longrightarrow> length bs \<le> n) \<Longrightarrow> n \<le> 65536 \<Longrightarrow> length (complete_data (transfer_result seq r)) \<le> 65536"
  by (cases r) (auto simp: transfer_result_simps intro: order_trans)

lemma host_transfer_answers:
  assumes "handle_ok h" "host_transfer h u = Some c"
  shows "complete_seq c = submit_seq u \<and> length (complete_data c) \<le> 65536"
proof -
  note h = assms(1) [unfolded handle_ok_def]
  have cl: "clamp_nat 1 65536 x \<le> 65536" for x by (simp add: clamp_nat_def)
  have w: "max (min (unat (w :: u16)) 65536) 1 \<le> 65536" for w using unat_less(2) [of w] by linarith
  have "complete_seq (host_bulk h u) = submit_seq u \<and> length (complete_data (host_bulk h u)) \<le> 65536"
    "complete_seq (host_interrupt h u) = submit_seq u \<and> length (complete_data (host_interrupt h u)) \<le> 65536"
    using h by (auto simp: host_bulk_def host_interrupt_def transfer_result_simps(1-3) intro!: transfer_result_bound [OF _ cl [of "unat (requested_length u)"]]
        simp del: One_nat_def)
  moreover have "complete_seq c = submit_seq u \<and> length (complete_data c) \<le> 65536" if "host_control h u = Some c"
    using that h by (auto simp: host_control_def Let_def transfer_result_simps(1-3) split: if_splits
        intro!: transfer_result_bound [OF _ w [of "u16_le (submit_data u ! 6) (submit_data u ! 7)"]] simp del: One_nat_def)
  ultimately show ?thesis
    using assms(2) by (auto simp: host_transfer_def completed_def split: transfer_type.splits)
qed

lemma try_host_Some:
  assumes "try_host lib u devs = Some c"
  obtains d ds cand claimed i where "host_target u devs = Some d" "lib = Some ds" "find (is_candidate d) ds = Some cand"
    "open_claimed cand = Some claimed" "host_transfer (claimed i) u = Some c"
proof -
  have "\<exists>d ds cand claimed i. host_target u devs = Some d \<and> lib = Some ds \<and> find (is_candidate d) ds = Some cand \<and>
    open_claimed cand = Some claimed \<and> host_transfer (claimed i) u = Some c"
    using assms by (fastforce simp: try_host_def Let_def split: bind_splits)
  with that show thesis by blast
qed

lemma complete_host_answers:
  assumes "libusb_ok lib"
  shows "complete_seq (complete_host_or_emulated lib u devs) = submit_seq u \<and>
    length (complete_data (complete_host_or_emulated lib u devs)) \<le> 65536"
proof (cases "try_host lib u devs")
  case None
  then show ?thesis
    using complete_urb_seq [of u] length_complete_urb [of u] by (simp add: complete_host_or_emulated_def completed_def)
next
  case (Some c)
  then obtain d ds cand claimed i where f: "lib = Some ds" "find (is_candidate d) ds = Some cand" "open_claimed cand = Some claimed"
    and c: "host_transfer (claimed i) u = Some c"
    by (rule try_host_Some)
  have "handle_ok (claimed i)" using assms f find_in_set [OF f(2)] unfolding libusb_ok_def by blast
  from host_transfer_answers [OF this c] Some show ?thesis by (simp add: complete_host_or_emulated_def)
qed

section \<open>Properties\<close>

text \<open>
  Whatever the hardware does, a URB that reaches the host USB stack is completed: the completion carries its
  sequence number and fits one frame, as long as libusb returns no more bytes than it was given room for.
\<close>

lemma host_completion_fits:
  assumes "libusb_ok lib"
  shows "complete_seq (complete_host_or_emulated lib u devs) = submit_seq u \<and>
    (\<exists>bs. encode (UrbComplete (complete_host_or_emulated lib u devs)) = Inr bs)"
proof -
  have "payload_len (UrbComplete (complete_host_or_emulated lib u devs)) \<le> MAX_PAYLOAD"
    using complete_host_answers [OF assms, of u devs] by simp
  then show ?thesis
    using encode_fits(1) [of "UrbComplete (complete_host_or_emulated lib u devs)"] complete_host_answers [OF assms, of u devs]
    by simp
qed

text \<open>A stick whose reads fill the whole buffer.\<close>

definition zero_handle :: handle where
  "zero_handle = \<lparr>read_control = (\<lambda>rt r v i n. Some (replicate n 0)), write_control = (\<lambda>rt r v i bs. True),
     read_bulk = (\<lambda>e n. Some (replicate n 0)), write_bulk = (\<lambda>e bs. True),
     read_interrupt = (\<lambda>e n. None), write_interrupt = (\<lambda>e bs. False)\<rparr>"

definition sample_stick :: rusb_device where
  "sample_stick = \<lparr>device_descriptor = Some (0x0781, 0x5583, 8), rusb_speed_of = RusbSuper, product_string = None,
     bus_number = 4, port_numbers = Some [1], config_interfaces = None, open_claimed = Some (\<lambda>i. zero_handle)\<rparr>"

lemma sample_stick_ok: "libusb_ok (Some [sample_stick])"
  by (auto simp: libusb_ok_def sample_stick_def handle_ok_def zero_handle_def)

definition sample_read :: urb_submit where
  "sample_read = \<lparr>submit_seq = 11, submit_device_id = 5, endpoint = 0x81, transfer = Bulk, requested_length = 512, submit_data = []\<rparr>"

lemma sample_read_completes:
  "try_host (Some [sample_stick]) sample_read [host_device 5 ''4-1''] = Some (completed 11 0 (replicate 512 0))"
proof -
  have "topology_bus_id 4 [1] = ''4-1''" by (simp add: topology_bus_id_def show_nat.simps char_of_def bit_0)
  then show ?thesis
    by (simp add: try_host_def host_target_def sample_read_def host_device_def lab_device_def is_candidate_def sample_stick_def
        host_transfer_def host_bulk_def zero_handle_def transfer_result_def clamp_nat_def)
qed

lemma host_completion_fits_example:
  "\<exists>bs. encode (UrbComplete (complete_host_or_emulated (Some [sample_stick]) sample_read [host_device 5 ''4-1''])) = Inr bs"
  using host_completion_fits [OF sample_stick_ok] by blast

text \<open>
  C38. The hardware is only touched for exported devices: a transfer on a real device takes place only if the inventory
  holds an exported host device with the URB's id, and then on the device that sits at the same port and reports the
  same vendor and product.
\<close>

theorem host_transfer_exported_only:
  assumes "try_host lib u devs = Some c"
  shows "\<exists>d \<in> set devs. info_id (info d) = submit_device_id u \<and> exported (info d) \<and> backend d = Host \<and>
    (\<exists>ds cand claimed i ports class. lib = Some ds \<and> cand \<in> set ds \<and> open_claimed cand = Some claimed \<and>
      device_descriptor cand = Some (vid (info d), pid (info d), class) \<and> port_numbers cand = Some ports \<and>
      topology_bus_id (bus_number cand) ports = bus_id (info d) \<and> host_transfer (claimed i) u = Some c)"
proof -
  from assms obtain d ds cand claimed i where f: "host_target u devs = Some d" "lib = Some ds"
    "find (is_candidate d) ds = Some cand" "open_claimed cand = Some claimed" "host_transfer (claimed i) u = Some c"
    by (rule try_host_Some)
  have "d \<in> set devs" "info_id (info d) = submit_device_id u" "exported (info d)" "backend d = Host"
    using find_in_set [OF f(1) [unfolded host_target_def]] by simp_all
  moreover have "cand \<in> set ds" "is_candidate d cand" using find_in_set [OF f(3)] by simp_all
  moreover obtain cls ports where "device_descriptor cand = Some (vid (info d), pid (info d), cls)"
    "port_numbers cand = Some ports" "topology_bus_id (bus_number cand) ports = bus_id (info d)"
    using \<open>is_candidate d cand\<close> by (auto simp: is_candidate_def split: option.splits)
  ultimately show ?thesis using f by blast
qed

theorem host_transfer_exported_only_witness:
  "\<exists>d \<in> set [host_device 5 ''4-1'']. exported (info d) \<and> backend d = Host"
  using host_transfer_exported_only [OF sample_read_completes] by blast

text \<open>
  The bus id of a device names its place: two devices have the same bus id only if they are on the same bus
  and behind the same chain of ports.
\<close>

lemma topology_bus_id_inject: "topology_bus_id b ps = topology_bus_id b' ps' \<longleftrightarrow> b = b' \<and> ps = ps'"
  by (rule topology_bus_id_eq)

end
