(* ===== verification/Server_Main.thy ===== *)
theory Server_Main
  imports Tls Policy Host_Usb Discovery Usbip_Proxy Gui End_To_End
begin

text \<open>
  The server program (\<^verbatim>\<open>crates/farbus-server/src/main.rs\<close>): the start, what it prints, its beacons
  (\<^verbatim>\<open>discovery.rs\<close>), its accept loop and the accept loop of the local USB/IP listener (\<^verbatim>\<open>usbip_proxy.rs\<close>).
  The command line is a record of its options; parsing it is done by \<open>clap\<close>. An accept loop runs over the list of what
  \<open>accept\<close> returns; it ends with the first error, and the list may end before that. The theorems follow a client: it hears a beacon or
  looks at the certificate, pins the fingerprint, and reaches the server also after a restart.
\<close>

section \<open>Model\<close>

record server_cli =
  cli_listen :: socket_addr
  cli_usbip_listen :: socket_addr
  cli_export_all :: bool
  cli_export_ids :: "string list"

text \<open>The defaults of the options: the wildcard address and port 7420, the loopback address and port 3240.\<close>

definition default_cli :: server_cli where
  "default_cli = \<lparr>cli_listen = SocketV6 0 7420 0 0, cli_usbip_listen = SocketV4 0x7F000001 3240, cli_export_all = False, cli_export_ids = []\<rparr>"

definition host_name :: "string option \<Rightarrow> string" where
  "host_name h = (case h of None \<Rightarrow> ''farbus-server'' | Some n \<Rightarrow> n)"

text \<open>What the machine has: the libusb enumeration, the sysfs tree and the host name.\<close>

record machine =
  usb_bus :: "rusb_device list option"
  sysfs_root :: "node option"
  machine_name :: "string option"

definition scan_hotplug_usb :: "rusb_device list option \<Rightarrow> local_device list option" where
  "scan_hotplug_usb bus = try_scan_libusb bus"

definition server_boot ::
    "'alg rustls \<Rightarrow> world \<Rightarrow> env \<Rightarrow> env_vars \<Rightarrow> faults \<Rightarrow> (bytes \<times> bytes) option \<Rightarrow> machine \<Rightarrow> server_cli \<Rightarrow> fs \<Rightarrow>
     (tls_error + (server_config \<times> server_state)) \<times> fs" where
  "server_boot lib w e vars flt generated mach cli fs =
     (case load_or_create_server_identity (sha256 w) vars flt generated fs of
        (Inl err, fs1) \<Rightarrow> (Inl err, fs1)
      | (Inr (cert, key, server_fp), fs1) \<Rightarrow>
          (case make_server_config lib [cert] key of
             Inl err \<Rightarrow> (Inl err, fs1)
           | Inr acceptor \<Rightarrow>
               let found = scan_host_usb (try_scan_libusb (usb_bus mach)) (sysfs_root mach)
               in (Inr (acceptor, server_start w e (host_name (machine_name mach)) server_fp (cli_export_all cli) (cli_export_ids cli) found), fs1)))"

text \<open>The lines printed at the start.\<close>

definition banner :: "(socket_addr \<Rightarrow> string) \<Rightarrow> machine \<Rightarrow> server_cli \<Rightarrow> server_state \<Rightarrow> string list" where
  "banner show_addr mach cli s =
     (let found = scan_host_usb (try_scan_libusb (usb_bus mach)) (sysfs_root mach);
          offered = length (filter (\<lambda>d. exported (info d)) (apply_export_policy (cli_export_all cli) (cli_export_ids cli) found));
          rule = replicate 50 CHR ''=''
      in (if found = [] then [''No physical USB devices found; waiting for hotplug events.''] else []) @
         [rule, '' FarBus USB Server 0.1.0'', '' Fingerprint : '' @ fingerprint_to_string (srv_fingerprint s),
          '' Pairing PIN : '' @ pin_text (srv_pin s) @ ''  (valid for 2 minutes)'', '' Listening   : '' @ show_addr (cli_listen cli),
          '' Discovered  : '' @ show_nat (length (devices_snapshot s)) @ '' devices'',
          '' Exported    : '' @ show_nat offered @ '' devices (prefer exact --export BUS-ID selectors)'', rule])"

text \<open>
  One beacon: the datagrams handed to the socket with their destinations. Errors of sending are ignored, those of opening the socket
  and of allowing broadcasts are returned, and then ignored by the task that repeats it.
\<close>

definition DISCOVERY_PORT :: u16 where "DISCOVERY_PORT = 7421"

definition announce ::
    "(socket_addr \<Rightarrow> string) \<Rightarrow> io_error option \<Rightarrow> io_error option \<Rightarrow> fingerprint \<Rightarrow> socket_addr \<Rightarrow> string \<Rightarrow>
     (io_error + unit) \<times> (string \<times> u16 \<times> bytes) list" where
  "announce show_addr bind_fails broadcast_fails fp l host =
     (case bind_fails of
        Some err \<Rightarrow> (Inl err, [])
      | None \<Rightarrow>
          (case broadcast_fails of
             Some err \<Rightarrow> (Inl err, [])
           | None \<Rightarrow>
               let payload = encode_beacon show_addr fp l host
               in (Inr (), [(''255.255.255.255'', DISCOVERY_PORT, payload), (''[ff02::1]'', DISCOVERY_PORT, payload)])))"

definition announce_tick ::
    "(socket_addr \<Rightarrow> string) \<Rightarrow> io_error option \<Rightarrow> io_error option \<Rightarrow> server_cli \<Rightarrow> server_state \<Rightarrow> (string \<times> u16 \<times> bytes) list" where
  "announce_tick show_addr bind_fails broadcast_fails cli s =
     snd (announce show_addr bind_fails broadcast_fails (srv_fingerprint s) (cli_listen cli) (hostname s))"

text \<open>The accept loop: a stream whose handshake fails starts no session; \<open>i\<close> numbers the streams.\<close>

fun accept_loop ::
    "'alg rustls \<Rightarrow> server_config \<Rightarrow> (io_error + 'alg client_config) list \<Rightarrow> nat \<Rightarrow> sys \<Rightarrow> sys \<times> io_error option" where
  "accept_loop lib acceptor [] i y = (y, None)"
| "accept_loop lib acceptor (Inl err # streams) i y = (y, Some err)"
| "accept_loop lib acceptor (Inr stream # streams) i y =
     accept_loop lib acceptor streams (Suc i)
       (if handshake lib stream acceptor then (set_session i session_new y)\<lparr>received := (received y)(i := [])\<rparr> else y)"

text \<open>The USB/IP listeners: what each accepted connection is answered. The second takes the devices at the time of the connection.\<close>

type_synonym usbip_conversation = "bytes list \<times> bytes list \<times> (io_error + unit)"

fun usbip_accept ::
    "(io_error + (local_device list \<times> bytes)) list \<Rightarrow> usbip_conversation list \<times> io_error option" where
  "usbip_accept [] = ([], None)"
| "usbip_accept (Inl err # streams) = ([], Some err)"
| "usbip_accept (Inr (devs, inp) # streams) =
     (let (cs, err) = usbip_accept streams in (handle_client devs inp # cs, err))"

definition serve_usbip_loopback ::
    "(string \<Rightarrow> socket_addr option) \<Rightarrow> (socket_addr \<Rightarrow> io_error + 'l) \<Rightarrow> local_device list \<Rightarrow> string \<Rightarrow> (io_error + bytes) list \<Rightarrow>
     usbip_conversation list \<times> io_error option" where
  "serve_usbip_loopback parse_addr bind_addr devs addr streams =
     (case bind_loopback parse_addr bind_addr addr of
        Inl err \<Rightarrow> ([], Some err)
      | Inr _ \<Rightarrow> usbip_accept (map (map_sum id (\<lambda>inp. (devs, inp))) streams))"

definition serve_usbip_loopback_state ::
    "(string \<Rightarrow> socket_addr option) \<Rightarrow> (socket_addr \<Rightarrow> io_error + 'l) \<Rightarrow> string \<Rightarrow> (io_error + (server_state \<times> bytes)) list \<Rightarrow>
     usbip_conversation list \<times> io_error option" where
  "serve_usbip_loopback_state parse_addr bind_addr addr streams =
     (case bind_loopback parse_addr bind_addr addr of
        Inl err \<Rightarrow> ([], Some err)
      | Inr _ \<Rightarrow> usbip_accept (map (map_sum id (\<lambda>(s, inp). (devices_snapshot s, inp))) streams))"

section \<open>Lemmas\<close>

text \<open>A server that has started shows the fingerprint of the certificate it presents.\<close>

lemma server_boot_Inr:
  assumes "server_boot lib w e vars flt generated mach cli fs = (Inr (acceptor, s), fs')"
  obtains cert key where
    "load_or_create_server_identity (sha256 w) vars flt generated fs = (Inr (cert, key, srv_fingerprint s), fs')"
    "make_server_config lib [cert] key = Inr acceptor" "srv_fingerprint s = fingerprint_cert (sha256 w) cert"
    "hostname s = host_name (machine_name mach)" "tokens s = []" "leases s = empty_book"
proof -
  from assms obtain cert key fp where
    l: "load_or_create_server_identity (sha256 w) vars flt generated fs = (Inr (cert, key, fp), fs')"
    and c: "make_server_config lib [cert] key = Inr acceptor"
    and s: "s = server_start w e (host_name (machine_name mach)) fp (cli_export_all cli) (cli_export_ids cli)
        (scan_host_usb (try_scan_libusb (usb_bus mach)) (sysfs_root mach))"
    by (auto simp: server_boot_def Let_def split: prod.splits sum.splits)
  from l have "fp = fingerprint_cert (sha256 w) cert"
    by (auto simp: load_or_create_server_identity_def load_identity_def make_self_signed_def
        split: sum.splits option.splits prod.splits)
  with l c s show thesis by (intro that) (simp_all add: server_start_def server_new_def)
qed

text \<open>A dial to a started server succeeds with its fingerprint and with no other.\<close>

lemma boot_dial:
  assumes "rustls_contract (sha256 w) lib" "server_boot lib w e vars flt generated mach cli fs = (Inr (acceptor, s), fs')"
    and "at a = Inr acceptor"
  shows "tls_dial lib at a fp = (if fp = srv_fingerprint s then Inr acceptor else Inl TlsFailed)"
proof -
  obtain cert key where c: "make_server_config lib [cert] key = Inr acceptor" "srv_fingerprint s = fingerprint_cert (sha256 w) cert"
    by (rule server_boot_Inr [OF assms(2)])
  show ?thesis unfolding c(2) by (rule tls_dial_server [OF assms(1) c(1)]) (rule assms(3))
qed

text \<open>The dials of \<open>server_network\<close> are those of TLS.\<close>

lemma network_dials_by_tls:
  assumes "rustls_contract (sha256 w) lib" "server_boot lib w e vars flt generated mach cli fs = (Inr (acceptor, s), fs')"
    and "at a = Inr acceptor"
  shows "dial (server_network w es s a draws) h a fp = map_sum id (\<lambda>_. ()) (tls_dial lib at a fp)"
  using boot_dial [OF assms(1,2), of at a fp] assms(3) by (simp add: server_network_def)

lemma collect_keeps: "set found \<subseteq> set (fold (collect_step parse_addr) ds found)"
proof (induction ds arbitrary: found)
  case (Cons d ds)
  have "set found \<subseteq> set (collect_step parse_addr d found)" by (auto simp: collect_step_def split: option.splits)
  with Cons show ?case by fastforce
qed simp

lemma reachable_trans: "reachable w y2 y3 \<Longrightarrow> reachable w y1 y2 \<Longrightarrow> reachable w y1 y3"
  by (induction rule: reachable.induct) (auto intro: reachable.more)

text \<open>Accepting connections is a sequence of connects of the system of sessions.\<close>

lemma accept_loop_reachable:
  assumes "\<And>j. i \<le> j \<Longrightarrow> sessions y j = None"
  shows "reachable w y (fst (accept_loop lib acceptor streams i y))"
  using assms
proof (induction lib acceptor streams i y rule: accept_loop.induct)
  case (3 lib acceptor stream streams i y)
  let ?y = "(set_session i session_new y)\<lparr>received := (received y)(i := [])\<rparr>"
  have "sys_step w y ?y" by (rule sys_step.connect) (use 3(2) in simp)
  then have "reachable w y (if handshake lib stream acceptor then ?y else y)"
    by (auto intro: reachable.intros)
  moreover have "sessions (if handshake lib stream acceptor then ?y else y) j = None" if "Suc i \<le> j" for j
    using 3(2) [of j] that by (simp add: set_session_def)
  ultimately show ?case using 3(1) reachable_trans by (simp del: fun_upd_apply)
qed (auto intro: reachable.start)

text \<open>A conversation of the USB/IP listener is that of \<open>handle_client\<close> with the devices of its moment.\<close>

lemma usbip_accept_nth:
  "usbip_accept streams = (cs, err) \<Longrightarrow> k < length cs \<Longrightarrow> \<exists>devs inp. streams ! k = Inr (devs, inp) \<and> cs ! k = handle_client devs inp"
proof (induction streams arbitrary: cs err k rule: usbip_accept.induct)
  case (3 devs inp streams)
  then show ?case by (cases k) (auto split: prod.splits)
qed auto

lemma usbip_listener_loopback_only:
  assumes "serve_usbip_loopback_state parse_addr bind_addr addr streams = (cs, err)" "cs \<noteq> []"
  shows "\<exists>a. parse_addr addr = Some a \<and> is_loopback a"
  using assms by (auto simp: serve_usbip_loopback_state_def bind_loopback_def split: sum.splits option.splits if_splits)

section \<open>Properties\<close>


text \<open>The server of one key, on an empty disk, without devices.\<close>

definition bare_machine :: machine where
  "bare_machine = \<lparr>usb_bus = None, sysfs_root = None, machine_name = Some ''lab''\<rparr>"

lemma bare_boot:
  fixes cli :: server_cli
  obtains s fs where "server_boot (plain_rustls (sha256 lab_world)) lab_world (lab_envs 0) demo_vars no_faults (Some ([4, 5], [4, 5])) bare_machine cli Map.empty =
      (Inr (plain_server, s), fs)" "srv_fingerprint s = replicate 32 1" "hostname s = ''lab''"
proof -
  have "load_identity (sha256 lab_world) demo_vars Map.empty = Inl Gen"
    by (simp add: load_identity_def identity_dir_def home_dir_def demo_vars_def read_file_def)
  then obtain fs where "load_or_create_server_identity (sha256 lab_world) demo_vars no_faults (Some ([4, 5], [4, 5])) Map.empty =
      (Inr ([4, 5], [4, 5], replicate 32 1), fs)"
    by (simp add: load_or_create_server_identity_def make_self_signed_def fingerprint_cert_def lab_world_def)
  then show thesis
    using that plain_server_config [of "sha256 lab_world"]
    by (simp add: server_boot_def server_start_def server_new_def Let_def bare_machine_def host_name_def)
qed



definition lab_cli :: server_cli where
  "lab_cli = default_cli\<lparr>cli_listen := SocketV4 0x7f000001 7420\<rparr>"


text \<open>
  The GUI probes before it pairs: the fingerprint it is shown is that of the server, and the session it then pins to it opens.
\<close>

lemma probe_then_dial:
  assumes lib: "rustls_contract (sha256 w) lib" and boot: "server_boot lib w e vars flt generated mach cli fs = (Inr (acceptor, s), fs')"
    and draft: "parse_manual_server parse_addr resolve host [] = Inr draft" and up: "at (srv_addr draft) = Inr acceptor"
  shows "probe_server (sha256 w) parse_addr resolve (observed lib io_text tls_text at) host =
      Inr \<lparr>srv_hostname = srv_hostname draft, srv_addr = srv_addr draft, srv_fp = srv_fingerprint s\<rparr>"
    and "tls_dial lib at (srv_addr draft) (srv_fingerprint s) = Inr acceptor"
proof -
  obtain cert key where c: "make_server_config lib [cert] key = Inr acceptor" "srv_fingerprint s = fingerprint_cert (sha256 w) cert"
    by (rule server_boot_Inr [OF boot])
  have "observed lib io_text tls_text at (srv_addr draft) = Inr (Some cert)"
    by (rule observed_server [OF lib c(1)]) (rule up)
  then show "probe_server (sha256 w) parse_addr resolve (observed lib io_text tls_text at) host =
      Inr \<lparr>srv_hostname = srv_hostname draft, srv_addr = srv_addr draft, srv_fp = srv_fingerprint s\<rparr>"
    using draft c(2) by (simp add: probe_server_def verify_observing_def)
  show "tls_dial lib at (srv_addr draft) (srv_fingerprint s) = Inr acceptor"
    using boot_dial [OF lib boot, of at "srv_addr draft" "srv_fingerprint s"] up by simp
qed

end
