(* ===== verification/App.thy ===== *)
theory App
  imports Gui
begin

text \<open>
  The controller of the Windows client (\<^verbatim>\<open>crates/farbus-gui/src/app.rs\<close>): what its buttons do, the threads and
  tasks they start, the channel on which these report, and the draining of that channel into the state of theory
  \<open>Gui\<close>. A thread that still runs is a \<open>job\<close>; it reports one event at a time, so two threads may
  interleave between two reports of one of them. What an action returns is taken from \<open>outside\<close>, which may
  differ at every step; \<open>outside_of\<close> builds it from the actions of theory \<open>Gui\<close>. What a
  frame of the window shows is in theory \<open>Window\<close>.
\<close>

section \<open>Model\<close>

record outside =
  do_load :: "gui_session \<Rightarrow> device_id option \<Rightarrow> string + gui_device list"
  do_probe :: "string \<Rightarrow> string + discovered_server"
  do_scan :: "string + discovered_server list"
  do_pair :: "socket_addr \<Rightarrow> fingerprint \<Rightarrow> string \<Rightarrow> string + gui_session"
  do_attach :: "gui_session \<Rightarrow> device_id \<Rightarrow> socket_addr \<Rightarrow> string + string"
  do_detach :: "gui_session \<Rightarrow> device_id \<Rightarrow> string + unit"

text \<open>The stop channel of an attach task is a number; \<open>stopped\<close> holds those on which a stop was sent.\<close>

datatype job =
    LoadJob gui_session "device_id option"
  | ProbeJob string
  | SelectJob fingerprint
  | ScanJob
  | PairJob socket_addr fingerprint string
  | AttachJob nat gui_session device_id socket_addr
  | ForwardJob nat device_id
  | DetachJob gui_session device_id

record app =
  gui :: gui_state
  channel :: "gui_event list"
  jobs :: "job list"
  attach_stop :: "nat option"
  stopped :: "nat set"
  next_stop :: nat
  last_visible :: bool

definition send_event :: "gui_event \<Rightarrow> app \<Rightarrow> app" where
  "send_event ev a = a\<lparr>channel := channel a @ [ev]\<rparr>"

definition spawn :: "job \<Rightarrow> app \<Rightarrow> app" where
  "spawn j a = a\<lparr>jobs := jobs a @ [j]\<rparr>"

definition app_new :: "(string \<Rightarrow> socket_addr option) \<Rightarrow> resolver \<Rightarrow> gui_session option \<Rightarrow> app" where
  "app_new parse_addr resolve restored =
     (let st = (case restored of
                  None \<Rightarrow> gui_new
                | Some sess \<Rightarrow> gui_apply parse_addr resolve (PairSucceeded (gs_addr sess) (gs_fingerprint sess)) gui_new)
      in \<lparr>gui = st, channel = [],
          jobs = (case gui_session_of st of None \<Rightarrow> [] | Some sess \<Rightarrow> [LoadJob sess None]),
          attach_stop = None, stopped = {}, next_stop = 0, last_visible = window_visible st\<rparr>)"

datatype menu_item = ShowItem | HideItem | QuitItem
datatype viewport_cmd = CloseWindow | Visible bool | Focus

fun menu_event :: "(string \<Rightarrow> socket_addr option) \<Rightarrow> resolver \<Rightarrow> menu_item \<Rightarrow> gui_state \<Rightarrow> gui_state" where
  "menu_event parse_addr resolve ShowItem st = gui_apply parse_addr resolve TrayShown st"
| "menu_event parse_addr resolve HideItem st = gui_apply parse_addr resolve TrayHidden st"
| "menu_event parse_addr resolve QuitItem st = st"

text \<open>\<open>menu\<close> are the menu events and \<open>clicks\<close> counts the events of the tray icon.\<close>

definition drain_events ::
    "(string \<Rightarrow> socket_addr option) \<Rightarrow> resolver \<Rightarrow> menu_item list \<Rightarrow> nat \<Rightarrow> app \<Rightarrow> viewport_cmd list \<times> app" where
  "drain_events parse_addr resolve menu clicks a =
     (let st1 = fold (gui_apply parse_addr resolve) (channel a) (gui a);
          st2 = fold (menu_event parse_addr resolve) menu st1;
          st3 = (gui_apply parse_addr resolve TrayShown ^^ clicks) st2;
          closes = map (\<lambda>_. CloseWindow) (filter (\<lambda>m. m = QuitItem) menu);
          shows = (if last_visible a \<noteq> window_visible st3 then [Visible (window_visible st3)] else []);
          (focus, st4) = take_focus_request st3
      in (closes @ shows @ (if focus then [Focus] else []),
          a\<lparr>gui := st4, channel := [], last_visible := window_visible st3\<rparr>))"

definition add_manual :: "app \<Rightarrow> app" where
  "add_manual a =
     (if manual_fingerprint (gui a) \<noteq> [] then send_event ManualServerAdded a
      else spawn (ProbeJob (manual_host (gui a))) a)"

definition app_scan :: "app \<Rightarrow> app" where
  "app_scan a = spawn ScanJob (send_event ScanStarted a)"

definition app_pair :: "app \<Rightarrow> app" where
  "app_pair a =
     (let a1 = send_event PairStarted a
      in if length (gui_pin (gui a)) \<noteq> 6 then a1
         else case find (\<lambda>server. Some (srv_fp server) = selected (gui a)) (servers (gui a)) of
                None \<Rightarrow> send_event (GuiFailed ''select a server first'') a1
              | Some server \<Rightarrow> spawn (PairJob (srv_addr server) (srv_fp server) (gui_pin (gui a))) a1)"

definition stop_attach :: "app \<Rightarrow> app" where
  "stop_attach a =
     (case attach_stop a of
        None \<Rightarrow> a
      | Some n \<Rightarrow> a\<lparr>attach_stop := None, stopped := insert n (stopped a)\<rparr>)"

definition app_attach :: "device_id \<Rightarrow> app \<Rightarrow> app" where
  "app_attach did a =
     (case gui_session_of (gui a) of
        None \<Rightarrow> a
      | Some sess \<Rightarrow>
          let a1 = stop_attach a; n = next_stop a1
          in spawn (AttachJob n sess did (usbip_listen (gui a1))) (a1\<lparr>attach_stop := Some n, next_stop := Suc n\<rparr>))"

definition app_detach :: "device_id \<Rightarrow> app \<Rightarrow> app" where
  "app_detach did a =
     (let a1 = stop_attach a
      in case gui_session_of (gui a1) of
           None \<Rightarrow> a1
         | Some sess \<Rightarrow> spawn (DetachJob sess did) a1)"

text \<open>What a job does next; a forwarder ends when its listener ends or it is stopped, and reports nothing.\<close>

fun job_step :: "outside \<Rightarrow> job \<Rightarrow> app \<Rightarrow> app" where
  "job_step w (LoadJob sess att) a =
     (case do_load w sess att of Inr devs \<Rightarrow> send_event (DevicesLoaded devs) a | Inl err \<Rightarrow> send_event (GuiFailed err) a)"
| "job_step w (ProbeJob host) a =
     (case do_probe w host of
        Inr server \<Rightarrow> spawn (SelectJob (srv_fp server)) (send_event (ServersFound [server]) a)
      | Inl err \<Rightarrow> send_event (GuiFailed err) a)"
| "job_step w (SelectJob fp) a = send_event (ServerSelected fp) a"
| "job_step w ScanJob a =
     (case do_scan w of Inr found \<Rightarrow> send_event (ServersFound found) a | Inl err \<Rightarrow> send_event (GuiFailed err) a)"
| "job_step w (PairJob addr fp pin) a =
     (case do_pair w addr fp pin of
        Inr sess \<Rightarrow> spawn (LoadJob sess None) (send_event (PairSucceeded (gs_addr sess) (gs_fingerprint sess)) a)
      | Inl err \<Rightarrow> send_event (GuiPairRejected err) a)"
| "job_step w (AttachJob n sess did listen) a =
     (case do_attach w sess did listen of
        Inr bus \<Rightarrow> spawn (ForwardJob n did) (send_event (AttachSucceeded did bus) a)
      | Inl err \<Rightarrow> send_event (GuiFailed err) a)"
| "job_step w (ForwardJob n did) a = a"
| "job_step w (DetachJob sess did) a =
     (case do_detach w sess did of
        Inr _ \<Rightarrow> spawn (LoadJob sess None) (send_event (DetachSucceeded did) a)
      | Inl err \<Rightarrow> send_event (GuiFailed err) a)"

definition run_job :: "outside \<Rightarrow> nat \<Rightarrow> app \<Rightarrow> app" where
  "run_job w k a = job_step w (jobs a ! k) (a\<lparr>jobs := take k (jobs a) @ drop (Suc k) (jobs a)\<rparr>)"

text \<open>The widgets that apply their event at once.\<close>

fun is_edit :: "gui_event \<Rightarrow> bool" where
  "is_edit (ServerSelected _) = True"
| "is_edit (PinChanged _) = True"
| "is_edit (ManualHostChanged _) = True"
| "is_edit (ManualFingerprintChanged _) = True"
| "is_edit _ = False"

inductive app_step :: "(string \<Rightarrow> socket_addr option) \<Rightarrow> resolver \<Rightarrow> app \<Rightarrow> app \<Rightarrow> bool" for parse_addr resolve where
  edit: "is_edit ev \<Longrightarrow> app_step parse_addr resolve a (a\<lparr>gui := gui_apply parse_addr resolve ev (gui a)\<rparr>)"
| add: "app_step parse_addr resolve a (add_manual a)"
| scan: "app_step parse_addr resolve a (app_scan a)"
| pair: "app_step parse_addr resolve a (app_pair a)"
| attach: "app_step parse_addr resolve a (app_attach did a)"
| detach: "app_step parse_addr resolve a (app_detach did a)"
| drain: "app_step parse_addr resolve a (snd (drain_events parse_addr resolve menu clicks a))"
| job: "k < length (jobs a) \<Longrightarrow> app_step parse_addr resolve a (run_job w k a)"

definition map_err :: "('e \<Rightarrow> 'f) \<Rightarrow> 'e + 'a \<Rightarrow> 'f + 'a" where
  "map_err f r = (case r of Inl e \<Rightarrow> Inl (f e) | Inr v \<Rightarrow> Inr v)"

definition outside_of ::
    "(action_error \<Rightarrow> string) \<Rightarrow> (bytes \<Rightarrow> bytes) \<Rightarrow> (socket_addr \<Rightarrow> string) \<Rightarrow> (string \<Rightarrow> socket_addr option) \<Rightarrow> resolver \<Rightarrow>
     (socket_addr \<Rightarrow> string + bytes option) \<Rightarrow> io_error + bytes list \<Rightarrow> env_vars \<Rightarrow> faults \<Rightarrow> network \<Rightarrow> bool \<Rightarrow> bool \<Rightarrow> fs \<Rightarrow> outside" where
  "outside_of show_err sha256 show_addr parse_addr resolve handshake datagrams vars flt net late panicked fs =
     \<lparr>do_load = (\<lambda>sess att. map_err show_err (fst (load_devices sha256 parse_addr vars net sess att fs))),
      do_probe = (\<lambda>host. map_err show_err (probe_server sha256 parse_addr resolve handshake host)),
      do_scan = map_err show_err (scan_servers parse_addr datagrams),
      do_pair = (\<lambda>a fp pin. map_err show_err (fst (pair_server sha256 show_addr vars flt net late panicked a fp pin fs))),
      do_attach = (\<lambda>sess did listen. map_err (\<lambda>e. show_err e)
        (map_sum id fst (fst (attach_device sha256 parse_addr vars net sess did listen fs)))),
      do_detach = (\<lambda>sess did. map_err show_err (fst (detach_device sha256 parse_addr vars net sess did fs)))\<rparr>"

section \<open>Invariant\<close>

fun job_stop :: "job \<Rightarrow> nat option" where
  "job_stop (AttachJob n _ _ _) = Some n"
| "job_stop (ForwardJob n _) = Some n"
| "job_stop _ = None"

definition job_stops :: "job list \<Rightarrow> nat list" where
  "job_stops js = List.map_filter job_stop js"

text \<open>A PIN that is sent has six digits, and a listener that is opened is on the loopback interface.\<close>

fun job_ok :: "job \<Rightarrow> bool" where
  "job_ok (PairJob _ _ pin) = (length pin = 6 \<and> list_all is_ascii_digit pin)"
| "job_ok (AttachJob _ _ _ listen) = is_loopback listen"
| "job_ok _ = True"

text \<open>A task that attaches or forwards and has not been told to stop.\<close>

definition live :: "app \<Rightarrow> job \<Rightarrow> bool" where
  "live a j = (case job_stop j of None \<Rightarrow> False | Some n \<Rightarrow> n \<notin> stopped a)"

definition app_inv :: "app \<Rightarrow> bool" where
  "app_inv a \<longleftrightarrow> gui_inv (gui a) \<and> (\<forall>j \<in> set (jobs a). job_ok j) \<and> distinct (job_stops (jobs a)) \<and>
     (\<forall>n \<in> set (job_stops (jobs a)). n < next_stop a \<and> (n \<in> stopped a \<or> attach_stop a = Some n)) \<and>
     (\<forall>n. attach_stop a = Some n \<longrightarrow> n < next_stop a)"

lemma job_stops_simps [simp]:
  "job_stops [] = []" "job_stops (xs @ ys) = job_stops xs @ job_stops ys"
  "job_stop j = None \<Longrightarrow> job_stops (j # xs) = job_stops xs" "job_stop j = Some n \<Longrightarrow> job_stops (j # xs) = n # job_stops xs"
  by (simp_all add: job_stops_def List.map_filter_def)

lemma app_inv_send [simp]: "app_inv (send_event ev a) = app_inv a"
  by (simp add: app_inv_def send_event_def)

lemma send_event_fields [simp]:
  "gui (send_event ev a) = gui a" "jobs (send_event ev a) = jobs a" "attach_stop (send_event ev a) = attach_stop a"
  "next_stop (send_event ev a) = next_stop a" "stopped (send_event ev a) = stopped a"
  by (simp_all add: send_event_def)

lemma app_inv_spawn: "app_inv a \<Longrightarrow> job_stop j = None \<Longrightarrow> job_ok j \<Longrightarrow> app_inv (spawn j a)"
  by (auto simp: app_inv_def spawn_def)

lemma app_inv_gui: "app_inv a \<Longrightarrow> gui_inv st \<Longrightarrow> app_inv (a\<lparr>gui := st\<rparr>)"
  by (simp add: app_inv_def)

lemma app_inv_stop: "app_inv a \<Longrightarrow> app_inv (stop_attach a) \<and> attach_stop (stop_attach a) = None"
  by (auto simp: app_inv_def stop_attach_def split: option.splits)

lemma app_inv_attach:
  assumes "app_inv a"
  shows "app_inv (app_attach did a)"
proof (cases "gui_session_of (gui a)")
  case (Some sess)
  let ?b = "stop_attach a"
  have b: "app_inv ?b" "attach_stop ?b = None" using app_inv_stop [OF assms] by simp_all
  have "job_ok (AttachJob (next_stop ?b) sess did (usbip_listen (gui ?b)))"
    using b(1) by (simp add: app_inv_def gui_inv_def)
  with b show ?thesis by (auto simp: app_attach_def Some Let_def app_inv_def spawn_def)
qed (simp add: app_attach_def assms)

lemma app_inv_pair:
  assumes "app_inv a"
  shows "app_inv (app_pair a)"
proof -
  have "job_ok (PairJob x y (gui_pin (gui a)))" if "length (gui_pin (gui a)) = 6" for x y
    using assms that by (simp add: app_inv_def gui_inv_def)
  then show ?thesis using assms by (auto simp: app_pair_def Let_def intro!: app_inv_spawn split: option.splits)
qed

lemma app_inv_drain:
  assumes "app_inv a"
  shows "app_inv (snd (drain_events parse_addr resolve menu clicks a))"
proof -
  have m: "gui_inv st \<Longrightarrow> gui_inv (menu_event parse_addr resolve i st)" for i st by (cases i) (simp_all add: gui_inv_apply)
  have f: "gui_inv st \<Longrightarrow> gui_inv (fold (menu_event parse_addr resolve) menu st)" for st
    by (induction menu arbitrary: st) (simp_all add: m)
  have c: "gui_inv st \<Longrightarrow> gui_inv ((gui_apply parse_addr resolve TrayShown ^^ clicks) st)" for st
    by (induction clicks) (simp_all add: gui_inv_apply)
  have g: "gui_inv (gui a)" using assms by (simp add: app_inv_def)
  have "gui_inv (snd (take_focus_request ((gui_apply parse_addr resolve TrayShown ^^ clicks)
      (fold (menu_event parse_addr resolve) menu (fold (gui_apply parse_addr resolve) (channel a) (gui a))))))"
    using c [OF f [OF gui_inv_run [OF g]]] by (simp add: take_focus_request_def gui_inv_def)
  then show ?thesis using assms by (simp add: drain_events_def Let_def split_beta app_inv_def)
qed

lemma app_inv_job:
  assumes "app_inv a" "k < length (jobs a)"
  shows "app_inv (run_job w k a)"
proof -
  define xs ys j where "xs = take k (jobs a)" and "ys = drop (Suc k) (jobs a)" and "j = jobs a ! k"
  have js: "jobs a = xs @ j # ys" unfolding xs_def ys_def j_def by (rule id_take_nth_drop [OF assms(2)])
  let ?b = "a\<lparr>jobs := xs @ ys\<rparr>"
  have b: "app_inv ?b"
    using assms(1) by (cases "job_stop j") (auto simp: app_inv_def js)
  have fwd: "app_inv (spawn (ForwardJob n d) (send_event ev ?b))" if j: "j = AttachJob n sess d listen" for n sess d listen ev
    using assms(1) by (auto simp: app_inv_def spawn_def js j)
  have "run_job w k a = job_step w j ?b" by (simp add: run_job_def xs_def ys_def j_def)
  also have "app_inv \<dots>"
    by (cases j) (use b fwd in \<open>auto intro!: app_inv_spawn split: sum.splits\<close>)
  finally show ?thesis .
qed

lemma app_inv_step: "app_step parse_addr resolve a a' \<Longrightarrow> app_inv a \<Longrightarrow> app_inv a'"
proof (induction rule: app_step.induct)
  case (edit ev a)
  then show ?case by (intro app_inv_gui) (auto simp: app_inv_def gui_inv_apply)
next
  case (add a)
  then show ?case by (auto simp: add_manual_def intro!: app_inv_spawn)
next
  case (scan a)
  then show ?case by (auto simp: app_scan_def intro!: app_inv_spawn)
next
  case (detach a did)
  then show ?case using app_inv_stop [of a] by (auto simp: app_detach_def Let_def intro!: app_inv_spawn split: option.splits)
qed (simp_all add: app_inv_pair app_inv_attach app_inv_drain app_inv_job)

lemma app_inv_new: "app_inv (app_new parse_addr resolve restored)"
proof -
  have "gui_inv (gui (app_new parse_addr resolve restored))"
    by (simp add: app_new_def Let_def gui_inv_new gui_inv_apply split: option.splits)
  then show ?thesis by (simp add: app_inv_def) (auto simp: app_new_def Let_def split: option.splits)
qed

abbreviation app_run :: "(string \<Rightarrow> socket_addr option) \<Rightarrow> resolver \<Rightarrow> app \<Rightarrow> app \<Rightarrow> bool" where
  "app_run parse_addr resolve \<equiv> (app_step parse_addr resolve)\<^sup>*\<^sup>*"

lemma app_run_inv: "app_run parse_addr resolve a a' \<Longrightarrow> app_inv a \<Longrightarrow> app_inv a'"
  by (induction rule: rtranclp_induct) (auto intro: app_inv_step)

text \<open>Distinct stop channels, and only the current one has not been used.\<close>

lemma live_at_most_one:
  assumes "distinct (job_stops js)" "\<forall>n \<in> set (job_stops js). n \<in> S \<or> c = Some n"
  shows "length (filter (\<lambda>j. case job_stop j of None \<Rightarrow> False | Some n \<Rightarrow> n \<notin> S) js) \<le> 1"
proof -
  let ?P = "\<lambda>j. case job_stop j of None \<Rightarrow> False | Some n \<Rightarrow> n \<notin> S"
  have "length (filter ?P js) = length (filter (\<lambda>n. n \<notin> S) (job_stops js))"
  proof (induction js)
    case (Cons j js)
    then show ?case by (cases "job_stop j") simp_all
  qed simp
  also have "\<dots> = card (set (filter (\<lambda>n. n \<notin> S) (job_stops js)))"
    using distinct_card [OF distinct_filter [OF assms(1)]] by (rule sym)
  also have "\<dots> \<le> card (set_option c)"
    by (rule card_mono) (use assms(2) in \<open>auto\<close>)
  also have "\<dots> \<le> 1" by (cases c) simp_all
  finally show ?thesis .
qed

section \<open>Properties\<close>

text \<open>
  C39. Whatever the user presses and in whatever order the threads of the window report, at most one attach or
  forwarding task has not been told to stop, every PIN sent to a server has six digits, and every USB/IP
  listener that is asked for is on the loopback interface.
\<close>

theorem app_sound:
  assumes "app_run parse_addr resolve (app_new parse_addr resolve restored) a"
  shows "length (filter (live a) (jobs a)) \<le> 1 \<and> list_all job_ok (jobs a)"
proof -
  have I: "app_inv a" using app_run_inv [OF assms app_inv_new] .
  then have "length (filter (live a) (jobs a)) \<le> 1"
    using live_at_most_one [of "jobs a" "stopped a" "attach_stop a"] by (auto simp: app_inv_def live_def [abs_def])
  moreover have "list_all job_ok (jobs a)" using I by (simp add: app_inv_def list_all_iff)
  ultimately show ?thesis by simp
qed

text \<open>Two attach requests in a row: the first is told to stop.\<close>

definition demo_app :: app where
  "demo_app = app_new (\<lambda>_. None) (\<lambda>_. Inr []) (Some \<lparr>gs_addr = SocketV4 0x0a000001 7420, gs_fingerprint = [5]\<rparr>)"

theorem app_sound_witness:
  "length (filter (live (app_attach 2 (app_attach 1 demo_app))) (jobs (app_attach 2 (app_attach 1 demo_app)))) \<le> 1 \<and>
   length (jobs (app_attach 2 (app_attach 1 demo_app))) = 3"
proof -
  have "app_run (\<lambda>_. None) (\<lambda>_. Inr []) demo_app (app_attach 2 (app_attach 1 demo_app))"
    by (meson app_step.attach rtranclp.rtrancl_into_rtrancl rtranclp.rtrancl_refl)
  from app_sound [OF this [unfolded demo_app_def]] show ?thesis
    unfolding demo_app_def [symmetric]
    by (simp add: demo_app_def app_new_def app_attach_def stop_attach_def spawn_def gui_apply_def gui_new_def Let_def)
qed

text \<open>
  The end of a forwarder is not reported: when the listener cannot be opened or fails later, every thread has
  ended and every event has been applied, and the window still says that it forwards.
\<close>

lemma forwarding_outlives_forwarder:
  fixes w :: outside and a :: app
  assumes "gui_session_of (gui a) = Some sess" "jobs a = []" "channel a = []" "do_attach w sess did (usbip_listen (gui a)) = Inr bus"
  shows "\<exists>a'. app_run parse_addr resolve a a' \<and> jobs a' = [] \<and> channel a' = [] \<and> phase (gui a') = Forwarding"
proof -
  define b where "b = app_attach did a"
  define c where "c = run_job w 0 b"
  define d where "d = run_job w 0 c"
  define e where "e = snd (drain_events parse_addr resolve [] 0 d)"
  have g: "gui (stop_attach a) = gui a" "jobs (stop_attach a) = []" "channel (stop_attach a) = []"
    using assms(2,3) by (simp_all add: stop_attach_def split: option.splits)
  obtain n where b: "jobs b = [AttachJob n sess did (usbip_listen (gui a))]" "gui b = gui a" "channel b = []"
    using assms(1) g by (simp add: b_def app_attach_def Let_def spawn_def)
  have c: "jobs c = [ForwardJob n did]" "gui c = gui a" "channel c = [AttachSucceeded did bus]"
    using b assms(4) by (simp_all add: c_def run_job_def spawn_def send_event_def)
  have d: "jobs d = []" "gui d = gui a" "channel d = [AttachSucceeded did bus]"
    using c by (simp_all add: d_def run_job_def)
  have e: "jobs e = []" "channel e = []" "phase (gui e) = Forwarding"
    using d by (simp_all add: e_def drain_events_def take_focus_request_def gui_apply_def Let_def)
  have "app_run parse_addr resolve a b" unfolding b_def by (rule r_into_rtranclp) (rule app_step.attach)
  also have "app_run parse_addr resolve b c" unfolding c_def by (rule r_into_rtranclp) (rule app_step.job, simp add: b)
  also have "app_run parse_addr resolve c d" unfolding d_def by (rule r_into_rtranclp) (rule app_step.job, simp add: c)
  also have "app_run parse_addr resolve d e" unfolding e_def by (rule r_into_rtranclp) (rule app_step.drain)
  finally show ?thesis using e by blast
qed

end
