(* ===== verification/Cli_Main.thy ===== *)
theory Cli_Main
  imports Cli Discovery Sysfs Transparency
begin

text \<open>
  The program \<open>farbus\<close> (\<^verbatim>\<open>crates/farbus-client/src/main.rs\<close>, \<^verbatim>\<open>lib.rs\<close>): its commands with what they print. The
  commands themselves are in theory \<open>Cli\<close>; here they are selected by the command line, a value which \<open>clap\<close> parses,
  and their output is a string. Writing to the standard output does not fail, and how long a connection took is given as text.
  The Debug output of the GUI's state (\<^verbatim>\<open>crates/farbus-gui/src/lib.rs\<close>) is here too, because both are covered
  by the theorem on secrets.
\<close>

section \<open>Model\<close>

datatype command =
    Discover
  | Pair fingerprint
  | Devices "fingerprint option"
  | Attach u32 "fingerprint option" socket_addr
  | Detach u32 "fingerprint option"
  | Diagnose fingerprint
  | Status bool

record client_cli =
  cli_connect :: "socket_addr option"
  cli_command :: command

definition println :: "string \<Rightarrow> string" where
  "println l = l @ [newline]"

definition print_lines :: "string list \<Rightarrow> string" where
  "print_lines ls = concat (map println ls)"

text \<open>\<open>{:<8}\<close>: the width counts characters, which in UTF-8 are the bytes that do not continue one.\<close>

definition utf8_chars :: "string \<Rightarrow> nat" where
  "utf8_chars s = length (filter (\<lambda>b. drop_bit 6 b \<noteq> (2 :: u8)) (as_bytes s))"

definition pad_right :: "nat \<Rightarrow> string \<Rightarrow> string" where
  "pad_right n s = s @ replicate (n - utf8_chars s) CHR '' ''"

definition found_text :: "(socket_addr \<Rightarrow> string) \<Rightarrow> (fingerprint \<times> socket_addr \<times> string) list \<Rightarrow> string" where
  "found_text show_addr found =
     (if found = [] then println ''No servers discovered via UDP broadcast.''
      else print_lines (map (\<lambda>(fp, a, host). ''Found server '' @ CHR 0x27 # host @ CHR 0x27 # '' at '' @ show_addr a @
             '' (fingerprint: '' @ fingerprint_to_string fp @ '')'') found))"

definition device_line :: "device_info \<Rightarrow> string" where
  "device_line d = ''  ['' @ show_nat (unat (info_id d)) @ ''] '' @ pad_right 8 (bus_id d) @ '' '' @ hex_u16 (vid d) @ '':'' @
     hex_u16 (pid d) @ ''  '' @ product d @ (if exported d then '' (exported)'' else [])"

definition devices_text :: "device_info list \<Rightarrow> string" where
  "devices_text l = (if l = [] then println ''No exported devices.'' else print_lines (map device_line l))"

definition attached_text :: "(socket_addr \<Rightarrow> string) \<Rightarrow> (socket_addr \<Rightarrow> string) \<Rightarrow> attach_response \<Rightarrow> socket_addr \<Rightarrow> string" where
  "attached_text show_addr show_ip att l =
     print_lines [''Attached device '' @ show_nat (unat (attached_device_id att)) @ '' ('' @ attached_bus_id att @ '') through TLS 1.3.'',
       ''Local USB/IP proxy: '' @ show_addr l,
       ''Windows: usbip attach --remote='' @ show_ip l @ '' --busid='' @ attached_bus_id att,
       ''Press Ctrl+C to stop forwarding.'']"

definition quoted :: "string \<Rightarrow> string" where
  "quoted s = CHR 0x22 # s @ [CHR 0x22]"

definition status_text :: "(socket_addr \<Rightarrow> string) \<Rightarrow> bool \<Rightarrow> stored_session option \<Rightarrow> string" where
  "status_text show_addr json sess =
     (case sess of
        Some saved \<Rightarrow>
          if json
          then println (''{'' @ quoted ''addr'' @ '':'' @ quoted (show_addr (session_addr saved)) @ '','' @
                 quoted ''fingerprint'' @ '':'' @ quoted (fingerprint_to_string (session_fingerprint saved)) @ '','' @
                 quoted ''tls'' @ '':'' @ quoted ''1.3'' @ '','' @ quoted ''usbip'' @ '':'' @ quoted ''127.0.0.1:3240'' @ '','' @
                 quoted ''token'' @ '':true}'')
          else print_lines [''Last server     : '' @ show_addr (session_addr saved),
                 ''Fingerprint     : '' @ fingerprint_to_string (session_fingerprint saved),
                 ''Auth token      : present (256-bit)'', ''TLS             : 1.3, fingerprint-pinned'',
                 ''USB/IP loopback : 127.0.0.1:3240 after attach'']
      | None \<Rightarrow>
          if json then println (''{'' @ quoted ''session'' @ '':null}'')
          else println ''No saved session. Run: farbus --connect HOST:7420 pair <fingerprint>'')"

text \<open>
  What one run of the program meets: the disk, the network, what the user types at the prompt, the datagrams heard in three
  seconds, whether the port of the forwarder can be bound.
\<close>

record run_env =
  env_variables :: env_vars
  disk_faults :: faults
  run_net :: network
  timed_out :: bool
  task_panicked :: bool
  typed_pin :: "io_error + string"
  heard_datagrams :: "io_error + bytes list"
  bind_port :: "string \<Rightarrow> io_error + unit"
  latency :: string

record texts =
  show_addr :: "socket_addr \<Rightarrow> string"
  show_ip :: "socket_addr \<Rightarrow> string"
  parse_addr :: "string \<Rightarrow> socket_addr option"

definition diagnose_text :: "(socket_addr \<Rightarrow> string) \<Rightarrow> string \<Rightarrow> stored_session \<Rightarrow> (client_error + unit) \<Rightarrow> (action_error + nat) \<Rightarrow> string" where
  "diagnose_text show_a took saved connected res =
     print_lines ([''Server address  : '' @ show_a (session_addr saved),
       ''Fingerprint     : '' @ fingerprint_to_string (session_fingerprint saved)] @
       (case connected of Inl _ \<Rightarrow> [] | Inr _ \<Rightarrow> [''TLS 1.3         : OK ('' @ took @ '')'']) @
       (case res of
          Inl _ \<Rightarrow> []
        | Inr n \<Rightarrow> [''Auth token      : OK'', ''Exported devices: '' @ show_nat n, ''USB/IP loopback : available after '' @ CHR 0x27 # ''farbus attach'' @ [CHR 0x27]]))"

text \<open>The whole program: what it prints, how it ends, and the files afterwards. After \<open>attach\<close> the forwarder runs.\<close>

fun cli_run ::
    "(bytes \<Rightarrow> bytes) \<Rightarrow> texts \<Rightarrow> run_env \<Rightarrow> socket_addr option \<Rightarrow> command \<Rightarrow> fs \<Rightarrow> string \<times> (action_error + unit) \<times> fs" where
  "cli_run sha t r con Discover fs =
     (let start = println ''Scanning LAN for FarBus servers (3s)...''
      in case heard_datagrams r of
           Inl e \<Rightarrow> (start, Inl (ErrIo e), fs)
         | Inr ds \<Rightarrow> (start @ found_text (show_addr t) (collect_beacons (parse_addr t) ds), Inr (), fs))"
| "cli_run sha t r con (Pair fp) fs =
     (case require_connect con of
        Inl e \<Rightarrow> ([], Inl e, fs)
      | Inr a \<Rightarrow>
          let prompt = ''Enter 6-digit PIN from server: ''
          in case typed_pin r of
               Inl e \<Rightarrow> (prompt, Inl (ErrIo e), fs)
             | Inr typed \<Rightarrow>
                 (case cli_pair sha (show_addr t) (env_variables r) (disk_faults r) (run_net r) (timed_out r) (task_panicked r) con fp typed fs of
                    (Inl e, fs1) \<Rightarrow> (prompt, Inl e, fs1)
                  | (Inr _, fs1) \<Rightarrow>
                      (prompt @ println (''Paired with '' @ fingerprint_to_string fp @ ''. Token saved locally.''), Inr (), fs1)))"
| "cli_run sha t r con (Devices fp) fs =
     (case cli_devices sha (parse_addr t) (env_variables r) (run_net r) con fp fs of
        (Inl e, _) \<Rightarrow> ([], Inl e, fs)
      | (Inr l, _) \<Rightarrow> (devices_text l, Inr (), fs))"
| "cli_run sha t r con (Attach did fp l) fs =
     (case cli_attach sha (parse_addr t) (env_variables r) (run_net r) con fp did fs of
        (Inl e, _) \<Rightarrow> ([], Inl e, fs)
      | (Inr (att, locals, c), _) \<Rightarrow>
          (attached_text (show_addr t) (show_ip t) att l,
           (case forward_listen (parse_addr t) (bind_port r) (show_addr t l) of Inl e \<Rightarrow> Inl (ErrIo e) | Inr _ \<Rightarrow> Inr ()), fs))"
| "cli_run sha t r con (Detach did fp) fs =
     (case cli_detach sha (parse_addr t) (env_variables r) (run_net r) con fp did fs of
        (Inl e, _) \<Rightarrow> ([], Inl e, fs)
      | (Inr _, _) \<Rightarrow> (println (''Detached device '' @ show_nat (unat did)), Inr (), fs))"
| "cli_run sha t r con (Diagnose fp) fs =
     (let res = cli_diagnose sha (parse_addr t) (env_variables r) (run_net r) (timed_out r) (task_panicked r) fp fs
      in ((case load_session (parse_addr t) (env_variables r) (Some fp) fs of
             None \<Rightarrow> []
           | Some saved \<Rightarrow>
               diagnose_text (show_addr t) (latency r) saved
                 (map_sum id (\<lambda>_. ()) (happy_eyeballs_connect sha (\<lambda>_. run_net r) (\<lambda>_. timed_out r) (\<lambda>_. task_panicked r) [0]
                    [session_addr saved] fp)) res),
          map_sum id (\<lambda>_. ()) res, fs))"
| "cli_run sha t r con (Status json) fs =
     (status_text (show_addr t) json (load_session (parse_addr t) (env_variables r) None fs), Inr (), fs)"

definition cli_main :: "(bytes \<Rightarrow> bytes) \<Rightarrow> texts \<Rightarrow> run_env \<Rightarrow> client_cli \<Rightarrow> fs \<Rightarrow> string \<times> (action_error + unit) \<times> fs" where
  "cli_main sha t r cli fs = cli_run sha t r (cli_connect cli) (cli_command cli) fs"

text \<open>
  The hand-written \<open>Debug\<close> of the GUI's state in its one-line form; \<open>dbg\<close> has the derived formatters of the field types.
\<close>

record debug_printers =
  dbg_phase :: "gui_phase \<Rightarrow> string"
  dbg_servers :: "discovered_server list \<Rightarrow> string"
  dbg_selected :: "fingerprint option \<Rightarrow> string"
  dbg_devices :: "gui_device list \<Rightarrow> string"
  dbg_session :: "gui_session option \<Rightarrow> string"
  dbg_str :: "string \<Rightarrow> string"
  dbg_addr :: "socket_addr \<Rightarrow> string"
  dbg_bool :: "bool \<Rightarrow> string"

fun debug_fields :: "(string \<times> string) list \<Rightarrow> string" where
  "debug_fields [] = []"
| "debug_fields [(n, v)] = n @ '': '' @ v"
| "debug_fields ((n, v) # fs) = n @ '': '' @ v @ '', '' @ debug_fields fs"

definition gui_debug :: "debug_printers \<Rightarrow> gui_state \<Rightarrow> string" where
  "gui_debug dbg st =
     ''GuiState { '' @ debug_fields
       [(''phase'', dbg_phase dbg (phase st)), (''servers'', dbg_servers dbg (servers st)),
        (''selected'', dbg_selected dbg (selected st)), (''devices'', dbg_devices dbg (gui_devices st)),
        (''session'', dbg_session dbg (gui_session_of st)), (''pin'', dbg_str dbg ''[redacted]''),
        (''manual_host'', dbg_str dbg (manual_host st)), (''manual_fingerprint'', dbg_str dbg (manual_fingerprint st)),
        (''usbip_listen'', dbg_addr dbg (usbip_listen st)), (''window_visible'', dbg_bool dbg (window_visible st)),
        (''focus_requested'', dbg_bool dbg (focus_requested st))] @ '' }''"

section \<open>Secrets\<close>

text \<open>
  Neither \<open>status\<close> nor the Debug output shows a secret: the output is the same for every token, client secret
  and PIN.
\<close>

lemma status_hides_secrets:
  assumes "home_dir (env_variables r) = Inr home" "addr_text_ok (show_addr t) (parse_addr t) (session_addr s1)"
    and "session_ok s1" "session_ok s2" "session_addr s2 = session_addr s1" "session_fingerprint s2 = session_fingerprint s1"
    and "save_session (show_addr t) (env_variables r) flt s1 fs = (Inr (), fs1)"
    and "save_session (show_addr t) (env_variables r) flt s2 fs = (Inr (), fs2)"
  shows "fst (cli_run sha t r con (Status json) fs1) = fst (cli_run sha t r con (Status json) fs2)"
  using save_load [OF assms(1,2,3,7)] save_load [OF assms(1) _ assms(4,8)] assms(2,5,6)
  by (simp add: status_text_def)

lemma debug_hides_pin: "gui_debug dbg (st\<lparr>gui_pin := p\<rparr>) = gui_debug dbg st"
  by (simp add: gui_debug_def)

section \<open>One command after another\<close>

text \<open>The server after the client is gone, and what \<open>pair\<close> does on the network.\<close>

definition left_by :: "world \<Rightarrow> (nat \<Rightarrow> env) \<Rightarrow> server_state \<Rightarrow> history \<Rightarrow> server_state" where
  "left_by w es s h = (case serve w es s h of (s1, l) \<Rightarrow> end_session l s1)"

definition drawn_client :: "(bytes \<Rightarrow> bytes) \<Rightarrow> network \<Rightarrow> socket_addr \<Rightarrow> fingerprint \<Rightarrow> farbus_client" where
  "drawn_client sha net a fp = \<lparr>client_identity = generate sha (drawn net []), auth_token = None, server_addr = a, expected = fp\<rparr>"

definition pair_history :: "(bytes \<Rightarrow> bytes) \<Rightarrow> network \<Rightarrow> socket_addr \<Rightarrow> fingerprint \<Rightarrow> string \<Rightarrow> history" where
  "pair_history sha net a fp pin =
     [Dialled, Asked (hello_cmd (drawn_client sha net a fp)), Asked (pair_cmd sha pin fp (drawn_client sha net a fp))]"

lemma happy_only:
  assumes "client_connect sha net a fp [] = (Inr c, h)"
  shows "happy_eyeballs_connect sha (\<lambda>_. net) (\<lambda>_. False) (\<lambda>_. False) [0] [a] fp = Inr c"
proof -
  have "connection_order [a] = [a]" by (cases a) (simp_all add: connection_order_def)
  then show ?thesis using assms by (simp add: happy_eyeballs_connect_def candidate_outcome_def)
qed

lemma left_by_online:
  assumes "online w es s h s1 p (Some p)"
  shows "tokens (left_by w es s h) = tokens s1" "devices (left_by w es s h) = devices s1"
    "urb_completer (left_by w es s h) = urb_completer s1" "leases (left_by w es s h) = release_all p (leases s1)"
    "srv_fingerprint (left_by w es s h) = srv_fingerprint s1" "hostname (left_by w es s h) = hostname s1"
  using assms by (auto simp: left_by_def online_def end_session_def)

lemma usable_left:
  assumes "usable s p" "devices s' = devices s" "urb_completer s' = urb_completer s" "leases s' = release_all p (leases s)"
  shows "usable s' p"
proof -
  have "device_list s' = device_list s" "devices_snapshot s' = devices_snapshot s"
    using assms(2) by (simp_all add: device_list_def devices_snapshot_def)
  moreover have "owner (leases s') i \<in> {None, Some p}" if "owner (leases s) i \<in> {None, Some p}" for i
    using that by (auto simp: assms(4) owner_def release_all_def map_retain_def)
  ultimately show ?thesis using assms(1-3) unfolding usable_def by simp
qed

text \<open>What \<open>pair\<close> leaves on the disk and on the server.\<close>

lemma cli_pair_server:
  fixes es draws w s a
  defines "net \<equiv> server_network w es s a draws"
  assumes sound: "sound_server w s" and sizes: "length (draws []) = 32" "length (token_draw (es 2)) = 32"
    and pin: "pin_good w (es 2) s (trim typed)"
    and store: "home_dir vars = Inr home" "fails flt = (\<lambda>_. None)" "addr_text_ok show_a parse_a a"
  obtains fs1 s1 where "cli_pair (sha256 w) show_a vars flt net False False (Some a) (srv_fingerprint s) typed fs = (Inr (), fs1)"
    "load_session parse_a vars None fs1 = Some \<lparr>session_addr = a, session_fingerprint = srv_fingerprint s,
       session_token = token_draw (es 2), session_secret = Some (draws [])\<rparr>"
    "online w es s (pair_history (sha256 w) net a (srv_fingerprint s) (trim typed)) s1
       (id_fingerprint (from_secret (sha256 w) (draws []))) (Some (id_fingerprint (from_secret (sha256 w) (draws []))))"
    "map_of (tokens s1) (token_draw (es 2)) = Some (id_fingerprint (from_secret (sha256 w) (draws [])), now (es 2) + secs (24 * 60 * 60))"
    "devices s1 = devices s" "leases s1 = leases s" "urb_completer s1 = urb_completer s"
proof -
  let ?id = "from_secret (sha256 w) (draws [])" and ?fp = "srv_fingerprint s"
  define c where "c = \<lparr>client_identity = ?id, auth_token = None, server_addr = a, expected = ?fp\<rparr>"
  let ?h = "[Dialled, Asked (hello_cmd c)]"
  have ident: "length (id_fingerprint ?id) = 32"
    using sound by (simp add: from_secret_def fingerprint_from_secret_def sound_server_def)
  have gen: "generate (sha256 w) (drawn net []) = ?id" and ans: "answers net = ask_server w es s"
    by (simp_all add: net_def server_network_def generate_def from_secret_def Let_def)
  note con = connect_online(1) [OF sound ident, of es a draws, folded c_def net_def]
    connect_online(2) [OF sound ident, of es a, folded c_def]
  have dc: "drawn_client (sha256 w) net a ?fp = c" by (simp add: drawn_client_def gen c_def)
  have n: "length ?h = 2" and p: "id_fingerprint (client_identity c) = id_fingerprint ?id" by (simp_all add: c_def)
  obtain s1 where s1: "client_pair (sha256 w) (ask_server w es s ?h) (trim typed) ?fp c = (Inr (), c\<lparr>auth_token := Some (token_draw (es 2))\<rparr>)"
    "online w es s (?h @ [Asked (pair_cmd (sha256 w) (trim typed) ?fp c)]) s1 (id_fingerprint ?id) (Some (id_fingerprint ?id))"
    "map_of (tokens s1) (token_draw (es 2)) = Some (id_fingerprint ?id, now (es 2) + secs (24 * 60 * 60))"
    "devices s1 = devices s" "leases s1 = leases s" "urb_completer s1 = urb_completer s"
    by (rule pair_online [of w es s ?h s c None "trim typed", unfolded n p]) (use con sound pin ident sizes in simp_all)
  let ?sess = "\<lparr>session_addr = a, session_fingerprint = ?fp, session_token = token_draw (es 2), session_secret = Some (draws [])\<rparr>"
  obtain fs1 where sv: "save_session show_a vars flt ?sess fs = (Inr (), fs1)" using save_session_ok [OF store(1,2)] by blast
  have "session_ok ?sess" using sizes sound by (simp add: session_ok_def sound_server_def)
  then have ld: "load_session parse_a vars None fs1 = Some ?sess" using save_load [OF store(1) _ _ sv] store(3) by simp
  have he: "happy_eyeballs_connect (sha256 w) (\<lambda>_. net) (\<lambda>_. False) (\<lambda>_. False) [0] [a] ?fp = Inr c"
    by (rule happy_only) (simp add: client_connect_def gen con(1))
  have sec: "id_secret (client_identity c) = draws []" by (simp add: c_def from_secret_def)
  have "cli_pair (sha256 w) show_a vars flt net False False (Some a) ?fp typed fs = (Inr (), fs1)"
    unfolding cli_pair_def require_connect_def using he s1(1) sv by (simp add: ans sec)
  then show thesis by (rule that [of fs1 s1, OF _ ld]) (use s1 in \<open>simp_all add: pair_history_def dc\<close>)
qed

section \<open>Property\<close>


text \<open>The laboratory server and two runs of the program.\<close>

definition lab_texts :: texts where
  "lab_texts = \<lparr>show_addr = demo_show, show_ip = (\<lambda>_. ''127.0.0.1''), parse_addr = demo_parse\<rparr>"

definition lab_run :: "network \<Rightarrow> run_env" where
  "lab_run net = \<lparr>env_variables = demo_vars, disk_faults = no_faults, run_net = net, timed_out = False, task_panicked = False,
     typed_pin = Inr ''100000'', heard_datagrams = Inr [], bind_port = (\<lambda>_. Inr ()), latency = ''1ms''\<rparr>"


end
