(* ===== verification/Window.thy ===== *)
theory Window
  imports App Cli_Main
begin

text \<open>
  One frame of the window (\<^verbatim>\<open>crates/farbus-gui/src/app.rs\<close>, \<open>update\<close>): the texts and rows it shows and what it does with what the
  user did since the last frame. The toolkit draws and reacts in one pass, so that a row shows the state at its place in
  the pass; the model does the same. Sizes, colours and spacing are left out. The lemmas show that a frame is a
  sequence of steps of theory \<open>App\<close>, the theorem, by the locale \<open>unwinding\<close>, that no
  secret is displayed.
\<close>

section \<open>Model\<close>

text \<open>What the user did: buttons, the new text of edited fields, and which rows were clicked.\<close>

record user_input =
  menu_clicks :: "menu_item list"
  tray_clicks :: nat
  scan_clicked :: bool
  host_edit :: "string option"
  fingerprint_edit :: "string option"
  add_clicked :: bool
  server_clicked :: "nat \<Rightarrow> bool"
  pin_edit :: "string option"
  pair_clicked :: bool
  device_clicked :: "nat \<Rightarrow> bool"

text \<open>What the window shows. A password field shows one dot per character.\<close>

record frame_view =
  status_label :: string
  spinner :: bool
  scan_note :: string
  host_field :: string
  fingerprint_field :: string
  server_rows :: "(bool \<times> string) list"
  servers_note :: "string option"
  pin_dots :: nat
  device_rows :: "(string \<times> string \<times> bool) list"
  devices_note :: "string option"
  attach_note :: string

definition tray_items :: "(menu_item \<times> string) list" where
  "tray_items = [(ShowItem, ''Show FarBus''), (HideItem, ''Hide''), (QuitItem, ''Quit'')]"

text \<open>The first and the last eight characters of a printed fingerprint.\<close>

definition short_fp :: "fingerprint \<Rightarrow> string" where
  "short_fp fp =
     (let txt = fingerprint_to_string fp
      in take 8 txt @ [CHR 0xE2, CHR 0x80, CHR 0xA6] @ drop (length txt - 8) txt)"

definition server_row :: "(socket_addr \<Rightarrow> string) \<Rightarrow> gui_state \<Rightarrow> discovered_server \<Rightarrow> bool \<times> string" where
  "server_row show_a st srv =
     (selected st = Some (srv_fp srv),
      srv_hostname srv @ ''  '' @ show_a (srv_addr srv) @ ''  '' @ short_fp (srv_fp srv))"

definition device_row :: "gui_device \<Rightarrow> string \<times> string \<times> bool" where
  "device_row d = (dev_product d, ''['' @ show_nat (unat (dev_id d)) @ ''] '' @ dev_bus_id d @ ''  '' @ hex_u16 (dev_vid d) @ '':'' @
     hex_u16 (dev_pid d), attached d)"

text \<open>The last clicked row of a list wins.\<close>

definition clicked_rows :: "(nat \<Rightarrow> bool) \<Rightarrow> ('a \<Rightarrow> bool) \<Rightarrow> 'a list \<Rightarrow> 'a option" where
  "clicked_rows clicked P xs =
     fold (\<lambda>(i, x) acc. if P x \<and> clicked i then Some x else acc) (enumerate 0 xs) None"

definition edit_gui :: "(string \<Rightarrow> socket_addr option) \<Rightarrow> resolver \<Rightarrow> ('v \<Rightarrow> gui_event) \<Rightarrow> 'v option \<Rightarrow> app \<Rightarrow> app" where
  "edit_gui parse_a resolve ev v a =
     (case v of None \<Rightarrow> a | Some x \<Rightarrow> a\<lparr>gui := gui_apply parse_a resolve (ev x) (gui a)\<rparr>)"

definition press :: "bool \<Rightarrow> (app \<Rightarrow> app) \<Rightarrow> app \<Rightarrow> app" where
  "press b f a = (if b then f a else a)"

definition act_on :: "'v option \<Rightarrow> ('v \<Rightarrow> app \<Rightarrow> app) \<Rightarrow> app \<Rightarrow> app" where
  "act_on v f a = (case v of None \<Rightarrow> a | Some x \<Rightarrow> f x a)"

text \<open>The arguments after the input are the state at the status line, the scan button, the fields, the servers, the PIN and the devices.\<close>

definition shown ::
    "(socket_addr \<Rightarrow> string) \<Rightarrow> user_input \<Rightarrow> gui_state \<Rightarrow> gui_state \<Rightarrow> gui_state \<Rightarrow> gui_state \<Rightarrow> gui_state \<Rightarrow> gui_state \<Rightarrow> frame_view" where
  "shown show_a u g1 g2 g3 g5 g6 g8 =
     \<lparr>status_label = public_status show_a g1, spinner = (phase g2 = Scanning),
      scan_note = ''LAN scan stays on the local broadcast domain. Over Tailscale, add ubuntu or 100.x.x.x:7420 '' @
        [CHR 0xE2, CHR 0x80, CHR 0x94] @ '' the GUI reads the fingerprint from TLS.'',
      host_field = (case host_edit u of None \<Rightarrow> manual_host g2 | Some x \<Rightarrow> x),
      fingerprint_field = (case fingerprint_edit u of None \<Rightarrow> manual_fingerprint g3 | Some x \<Rightarrow> x),
      server_rows = map (server_row show_a g5) (servers g5),
      servers_note = (if servers g5 = [] then Some ''No servers yet. Scan the LAN, or add a Tailscale host.'' else None),
      pin_dots = utf8_chars (case pin_edit u of None \<Rightarrow> gui_pin g6 | Some x \<Rightarrow> x),
      device_rows = map device_row (gui_devices g8),
      devices_note = (if gui_devices g8 = [] then Some ''Pair to list USB devices.'' else None),
      attach_note = ''After Attach, run usbip-win2 against 127.0.0.1 only.''\<rparr>"

definition update_frame ::
    "(socket_addr \<Rightarrow> string) \<Rightarrow> (string \<Rightarrow> socket_addr option) \<Rightarrow> resolver \<Rightarrow> user_input \<Rightarrow> app \<Rightarrow>
     frame_view \<times> viewport_cmd list \<times> app" where
  "update_frame show_a parse_a resolve u a =
     (let (cmds, a1) = drain_events parse_a resolve (menu_clicks u) (tray_clicks u) a;
          a2 = press (scan_clicked u) app_scan a1;
          a3 = edit_gui parse_a resolve ManualHostChanged (host_edit u) a2;
          a4 = edit_gui parse_a resolve ManualFingerprintChanged (fingerprint_edit u) a3;
          a5 = press (add_clicked u) add_manual a4;
          picked = map_option srv_fp (clicked_rows (server_clicked u) (\<lambda>_. True) (servers (gui a5)));
          a6 = edit_gui parse_a resolve ServerSelected picked a5;
          a7 = edit_gui parse_a resolve PinChanged (pin_edit u) a6;
          a8 = press (pair_clicked u) app_pair a7;
          att = map_option dev_id (clicked_rows (device_clicked u) (\<lambda>d. \<not> attached d) (gui_devices (gui a8)));
          det = map_option dev_id (clicked_rows (device_clicked u) attached (gui_devices (gui a8)));
          a9 = act_on att app_attach a8;
          a10 = act_on det app_detach a9
      in (shown show_a u (gui a1) (gui a2) (gui a3) (gui a5) (gui a6) (gui a8),
          cmds, a10))"

text \<open>The window over time: frames, and in between events that threads report. Both give what can be seen.\<close>

datatype window_input = Frame user_input | Report gui_event

definition window_step ::
    "(socket_addr \<Rightarrow> string) \<Rightarrow> (string \<Rightarrow> socket_addr option) \<Rightarrow> resolver \<Rightarrow> window_input \<Rightarrow> app \<Rightarrow> app" where
  "window_step show_a parse_a resolve i a =
     (case i of Frame u \<Rightarrow> snd (snd (update_frame show_a parse_a resolve u a)) | Report ev \<Rightarrow> send_event ev a)"

definition window_output ::
    "(socket_addr \<Rightarrow> string) \<Rightarrow> (string \<Rightarrow> socket_addr option) \<Rightarrow> resolver \<Rightarrow> window_input \<Rightarrow> app \<Rightarrow> (frame_view \<times> viewport_cmd list) option" where
  "window_output show_a parse_a resolve i a =
     (case i of
        Frame u \<Rightarrow> (case update_frame show_a parse_a resolve u a of (view, cmds, _) \<Rightarrow> Some (view, cmds))
      | Report ev \<Rightarrow> None)"

text \<open>
  The entry point: what it prints on the error stream and the exit code. The result of the toolkit's event loop is a
  parameter.
\<close>

definition gui_main :: "bool \<Rightarrow> string + unit \<Rightarrow> string \<times> nat" where
  "gui_main windows run_result =
     (if windows
      then (case run_result of
              Inl err \<Rightarrow> (println (''FarBus GUI failed: '' @ err), 1)
            | Inr _ \<Rightarrow> ([], 0))
      else (println ''FarBus GUI is a Windows client. Use `farbus` on this platform.'', 1))"

section \<open>Noninterference by unwinding\<close>

text \<open>
  A machine whose steps keep two states equivalent and whose outputs agree on equivalent states cannot be made to tell
  them apart by any sequence of inputs.
\<close>

fun outputs :: "('i \<Rightarrow> 's \<Rightarrow> 's) \<Rightarrow> ('i \<Rightarrow> 's \<Rightarrow> 'o) \<Rightarrow> 'i list \<Rightarrow> 's \<Rightarrow> 'o list" where
  "outputs step obs [] s = []"
| "outputs step obs (i # inputs) s = obs i s # outputs step obs inputs (step i s)"

locale unwinding =
  fixes sim :: "'s \<Rightarrow> 's \<Rightarrow> bool" and step :: "'i \<Rightarrow> 's \<Rightarrow> 's" and obs :: "'i \<Rightarrow> 's \<Rightarrow> 'o"
  assumes step_sim: "sim s t \<Longrightarrow> sim (step i s) (step i t)"
    and obs_sim: "sim s t \<Longrightarrow> obs i s = obs i t"
begin

lemma indistinguishable: "sim s t \<Longrightarrow> outputs step obs inputs s = outputs step obs inputs t"
  by (induction inputs arbitrary: s t) (auto intro: step_sim obs_sim)

end

section \<open>Lemmas\<close>

lemma edit_gui_run:
  assumes "\<And>x. is_edit (ev x)"
  shows "app_run parse_a resolve a (edit_gui parse_a resolve ev v a)"
  using assms by (auto simp: edit_gui_def intro!: r_into_rtranclp app_step.edit split: option.split)

lemma press_run:
  "(\<And>a. app_step parse_a resolve a (f a)) \<Longrightarrow> app_run parse_a resolve a (press b f a)"
  by (simp add: press_def r_into_rtranclp)

lemma act_on_run:
  "(\<And>x a. app_step parse_a resolve a (f x a)) \<Longrightarrow> app_run parse_a resolve a (act_on v f a)"
  by (auto simp: act_on_def intro: r_into_rtranclp split: option.split)

text \<open>A frame is a sequence of the steps of the controller.\<close>

lemma update_frame_run:
  assumes "update_frame show_a parse_a resolve u a = (view, cmds, a')"
  shows "app_run parse_a resolve a a'"
proof -
  note steps = press_run [of parse_a resolve] act_on_run [of parse_a resolve] edit_gui_run
  have drain: "app_run parse_a resolve a (snd (drain_events parse_a resolve m n a))" for m n
    by (rule r_into_rtranclp) (rule app_step.drain)
  note trans = rtranclp_trans [of "app_step parse_a resolve"]
  from assms have a': "a' = snd (snd (update_frame show_a parse_a resolve u a))" by simp
  show ?thesis
    unfolding a' update_frame_def Let_def case_prod_unfold snd_conv
    by (intro trans [OF _ act_on_run] trans [OF _ press_run] trans [OF _ edit_gui_run] drain)
       (auto intro: app_step.intros)
qed

text \<open>
  After any number of frames, with threads reporting in between, the controller's invariant holds.
\<close>

inductive window_run :: "(socket_addr \<Rightarrow> string) \<Rightarrow> (string \<Rightarrow> socket_addr option) \<Rightarrow> resolver \<Rightarrow> app \<Rightarrow> app \<Rightarrow> bool"
  for show_a parse_a resolve a0 where
  opened: "window_run show_a parse_a resolve a0 a0"
| frame: "window_run show_a parse_a resolve a0 a \<Longrightarrow> update_frame show_a parse_a resolve u a = (view, cmds, a') \<Longrightarrow>
    window_run show_a parse_a resolve a0 a'"
| report: "window_run show_a parse_a resolve a0 a \<Longrightarrow> k < length (jobs a) \<Longrightarrow> window_run show_a parse_a resolve a0 (run_job w k a)"

lemma window_run_app: "window_run show_a parse_a resolve a0 a \<Longrightarrow> app_run parse_a resolve a0 a"
proof (induction rule: window_run.induct)
  case (frame a u view cmds a')
  then show ?case using update_frame_run rtranclp_trans by metis
next
  case (report a k w)
  then show ?case by (meson app_step.job rtranclp.rtrancl_into_rtrancl)
qed simp

section \<open>The PIN\<close>

text \<open>Two states of the window that differ only in the digits of the PIN, and the same of the controller.\<close>

definition same_but_pin :: "gui_state \<Rightarrow> gui_state \<Rightarrow> bool" where
  "same_but_pin st st' \<longleftrightarrow> st' = st\<lparr>gui_pin := gui_pin st'\<rparr> \<and> length (gui_pin st') = length (gui_pin st) \<and>
     list_all is_ascii_digit (gui_pin st) \<and> list_all is_ascii_digit (gui_pin st')"

definition app_but_pin :: "app \<Rightarrow> app \<Rightarrow> bool" where
  "app_but_pin a a' \<longleftrightarrow> same_but_pin (gui a) (gui a') \<and> channel a' = channel a \<and> last_visible a' = last_visible a"

lemma same_but_pin_fields:
  assumes "same_but_pin st st'"
  shows "phase st' = phase st" "servers st' = servers st" "selected st' = selected st" "gui_devices st' = gui_devices st"
    "gui_session_of st' = gui_session_of st" "manual_host st' = manual_host st" "manual_fingerprint st' = manual_fingerprint st"
    "usbip_listen st' = usbip_listen st" "window_visible st' = window_visible st" "focus_requested st' = focus_requested st"
    "length (gui_pin st') = length (gui_pin st)"
proof -
  obtain p where "st' = st\<lparr>gui_pin := p\<rparr>" using assms unfolding same_but_pin_def by blast
  then show "phase st' = phase st" "servers st' = servers st" "selected st' = selected st" "gui_devices st' = gui_devices st"
    "gui_session_of st' = gui_session_of st" "manual_host st' = manual_host st" "manual_fingerprint st' = manual_fingerprint st"
    "usbip_listen st' = usbip_listen st" "window_visible st' = window_visible st" "focus_requested st' = focus_requested st"
    by simp_all
  show "length (gui_pin st') = length (gui_pin st)" using assms by (simp add: same_but_pin_def)
qed

lemma same_but_pin_apply:
  assumes "same_but_pin st st'"
  shows "same_but_pin (gui_apply parse_a resolve ev st) (gui_apply parse_a resolve ev st')"
proof -
  obtain p where st': "st' = st\<lparr>gui_pin := p\<rparr>" and len: "length p = length (gui_pin st)" and dg: "list_all is_ascii_digit (gui_pin st)" "list_all is_ascii_digit p"
    using assms unfolding same_but_pin_def by (metis gui_state.select_convs(6) gui_state.surjective gui_state.update_convs(6))
  have sp: "list_all is_ascii_digit (sanitize_pin raw)" for raw
    by (auto simp: sanitize_pin_def list_all_iff dest: in_set_takeD)
  show ?thesis
    unfolding st'
    by (cases ev) (use len dg sp in \<open>auto simp: gui_apply_def same_but_pin_def Let_def split: sum.split gui_phase.split\<close>)
qed

lemma utf8_chars_digits: "list_all is_ascii_digit s \<Longrightarrow> utf8_chars s = length s"
proof (induction s)
  case (Cons c s)
  then have n: "(of_char c :: nat) < 64" by (simp add: is_ascii_digit_def Let_def)
  have "drop_bit 6 (of_nat (of_char c) :: u8) = 0"
    using n div_word_less [of "of_nat (of_char c) :: u8" 64] by (simp add: drop_bit_eq_div word_less_nat_alt unat_of_nat)
  with Cons show ?case by (simp add: utf8_chars_def as_bytes_def)
qed (simp add: utf8_chars_def as_bytes_def)

lemma app_but_pin_steps:
  assumes "app_but_pin a a'"
  shows "app_but_pin (app_scan a) (app_scan a')" "app_but_pin (add_manual a) (add_manual a')" "app_but_pin (app_pair a) (app_pair a')"
    and "app_but_pin (edit_gui parse_a resolve ev v a) (edit_gui parse_a resolve ev v a')"
proof -
  have g: "same_but_pin (gui a) (gui a')" and c: "channel a' = channel a" "last_visible a' = last_visible a"
    using assms by (simp_all add: app_but_pin_def)
  note f = same_but_pin_fields [OF g]
  show "app_but_pin (app_scan a) (app_scan a')" "app_but_pin (add_manual a) (add_manual a')" "app_but_pin (app_pair a) (app_pair a')"
    using g c f by (simp_all add: app_but_pin_def app_scan_def add_manual_def app_pair_def spawn_def send_event_def Let_def split: option.split)
  show "app_but_pin (edit_gui parse_a resolve ev v a) (edit_gui parse_a resolve ev v a')"
    using g c same_but_pin_apply [OF g] by (simp add: app_but_pin_def edit_gui_def split: option.split)
qed

lemma app_but_pin_press:
  "app_but_pin a a' \<Longrightarrow> (app_but_pin a a' \<Longrightarrow> app_but_pin (f a) (f a')) \<Longrightarrow> app_but_pin (press b f a) (press b f a')"
  by (simp add: press_def)

lemma same_but_pin_drained:
  assumes "same_but_pin g g'"
  shows "same_but_pin ((gui_apply parse_a resolve TrayShown ^^ clicks) (fold (menu_event parse_a resolve) menu (fold (gui_apply parse_a resolve) evs g)))
    ((gui_apply parse_a resolve TrayShown ^^ clicks) (fold (menu_event parse_a resolve) menu (fold (gui_apply parse_a resolve) evs g')))"
proof -
  have fold_ev: "same_but_pin st st' \<Longrightarrow> same_but_pin (fold (gui_apply parse_a resolve) evs st) (fold (gui_apply parse_a resolve) evs st')" for st st'
    by (induction evs arbitrary: st st') (simp_all add: same_but_pin_apply)
  have menu_ev: "same_but_pin st st' \<Longrightarrow> same_but_pin (menu_event parse_a resolve m st) (menu_event parse_a resolve m st')" for st st' m
    by (cases m) (simp_all add: same_but_pin_apply)
  have fold_menu: "same_but_pin st st' \<Longrightarrow> same_but_pin (fold (menu_event parse_a resolve) menu st) (fold (menu_event parse_a resolve) menu st')" for st st'
    by (induction menu arbitrary: st st') (simp_all add: menu_ev)
  have "same_but_pin st st' \<Longrightarrow> same_but_pin ((gui_apply parse_a resolve TrayShown ^^ clicks) st) ((gui_apply parse_a resolve TrayShown ^^ clicks) st')" for st st'
    by (induction clicks) (simp_all add: same_but_pin_apply)
  then show ?thesis using fold_menu [OF fold_ev [OF assms]] by blast
qed

lemma app_but_pin_drain:
  assumes "app_but_pin a a'"
  shows "app_but_pin (snd (drain_events parse_a resolve menu clicks a)) (snd (drain_events parse_a resolve menu clicks a'))"
    and "fst (drain_events parse_a resolve menu clicks a) = fst (drain_events parse_a resolve menu clicks a')"
proof -
  have focus: "same_but_pin st st' \<Longrightarrow> same_but_pin (snd (take_focus_request st)) (snd (take_focus_request st'))" for st st'
    by (auto simp: same_but_pin_def take_focus_request_def) (metis gui_state.update_convs(6,11) gui_state.surjective)
  have g: "same_but_pin (gui a) (gui a')" and c: "channel a' = channel a" "last_visible a' = last_visible a"
    using assms by (simp_all add: app_but_pin_def)
  note st = same_but_pin_drained [OF g, where parse_a = parse_a and resolve = resolve and clicks = clicks and menu = menu and evs = "channel a"]
  note f = same_but_pin_fields(9,10) [OF st]
  show "app_but_pin (snd (drain_events parse_a resolve menu clicks a)) (snd (drain_events parse_a resolve menu clicks a'))"
    using focus [OF st] f c by (simp add: app_but_pin_def drain_events_def Let_def split_beta)
  show "fst (drain_events parse_a resolve menu clicks a) = fst (drain_events parse_a resolve menu clicks a')"
    using f c by (simp add: drain_events_def take_focus_request_def Let_def split_beta)
qed

lemma app_but_pin_pick:
  assumes "app_but_pin a a'"
  shows "app_but_pin (edit_gui parse_a resolve ev (map_option srv_fp (clicked_rows clicked P (servers (gui a)))) a)
    (edit_gui parse_a resolve ev (map_option srv_fp (clicked_rows clicked P (servers (gui a')))) a')"
proof -
  have "servers (gui a') = servers (gui a)" by (rule same_but_pin_fields) (use assms in \<open>simp add: app_but_pin_def\<close>)
  then show ?thesis using app_but_pin_steps(4) [OF assms] by simp
qed

lemma shown_but_pin:
  assumes "same_but_pin g1 g1'" "same_but_pin g2 g2'" "same_but_pin g3 g3'" "same_but_pin g5 g5'" "same_but_pin g6 g6'" "same_but_pin g8 g8'"
  shows "shown show_a u g1 g2 g3 g5 g6 g8 = shown show_a u g1' g2' g3' g5' g6' g8'"
proof -
  have "server_row show_a g5' = server_row show_a g5" using same_but_pin_fields(3) [OF assms(4)] by (simp add: server_row_def fun_eq_iff)
  moreover have "public_status show_a g1' = public_status show_a g1" using same_but_pin_fields(1,5,8) [OF assms(1)] by (simp add: public_status_def split: gui_phase.split)
  moreover have "utf8_chars (gui_pin g6') = utf8_chars (gui_pin g6)" using assms(5) by (simp add: same_but_pin_def utf8_chars_digits)
  ultimately show ?thesis
    using same_but_pin_fields(1,6) [OF assms(2)] same_but_pin_fields(7) [OF assms(3)] same_but_pin_fields(2) [OF assms(4)] same_but_pin_fields(4) [OF assms(6)]
    by (simp add: shown_def split: option.split)
qed

text \<open>A frame looks the same whatever the digits in the PIN field are.\<close>

lemma frame_hides_pin:
  assumes "app_but_pin a a'"
  shows "fst (update_frame show_a parse_a resolve u a) = fst (update_frame show_a parse_a resolve u a')"
proof -
  have same: "app_but_pin x x' \<Longrightarrow> same_but_pin (gui x) (gui x')" for x x' by (simp add: app_but_pin_def)
  show ?thesis
    unfolding update_frame_def Let_def case_prod_unfold fst_conv
    by (intro shown_but_pin same app_but_pin_press app_but_pin_pick app_but_pin_steps app_but_pin_drain assms)
qed

lemma app_but_pin_devices:
  assumes "app_but_pin a a'"
  shows "app_but_pin (app_attach did a) (app_attach did a')" "app_but_pin (app_detach did a) (app_detach did a')"
proof -
  have g: "gui (stop_attach x) = gui x" "channel (stop_attach x) = channel x" "last_visible (stop_attach x) = last_visible x" for x
    by (simp_all add: stop_attach_def split: option.split)
  have "gui_session_of (gui a') = gui_session_of (gui a)"
    by (rule same_but_pin_fields) (use assms in \<open>simp add: app_but_pin_def\<close>)
  then show "app_but_pin (app_attach did a) (app_attach did a')" "app_but_pin (app_detach did a) (app_detach did a')"
    using assms by (simp_all add: app_but_pin_def app_attach_def app_detach_def spawn_def Let_def g split: option.split)
qed

lemma app_but_pin_act_on:
  assumes "app_but_pin a a'" "\<And>x a a'. app_but_pin a a' \<Longrightarrow> app_but_pin (f x a) (f x a')"
  shows "app_but_pin (act_on v f a) (act_on v f a')"
  using assms by (simp add: act_on_def split: option.split)

lemma app_but_pin_rows:
  assumes "app_but_pin a a'"
  shows "app_but_pin (act_on (det (gui_devices (gui a))) app_detach (act_on (att (gui_devices (gui a))) app_attach a))
    (act_on (det (gui_devices (gui a'))) app_detach (act_on (att (gui_devices (gui a'))) app_attach a'))"
proof -
  have "gui_devices (gui a') = gui_devices (gui a)" by (rule same_but_pin_fields) (use assms in \<open>simp add: app_but_pin_def\<close>)
  then show ?thesis by (simp only:) (intro app_but_pin_act_on app_but_pin_devices assms)
qed

lemma frame_keeps_equivalence:
  assumes "app_but_pin a a'"
  shows "app_but_pin (snd (snd (update_frame show_a parse_a resolve u a))) (snd (snd (update_frame show_a parse_a resolve u a')))"
  unfolding update_frame_def Let_def case_prod_unfold snd_conv
  by (rule app_but_pin_rows [where att = "\<lambda>ds. map_option dev_id (clicked_rows (device_clicked u) (\<lambda>d. \<not> attached d) ds)"
        and det = "\<lambda>ds. map_option dev_id (clicked_rows (device_clicked u) attached ds)"])
     (intro app_but_pin_press app_but_pin_pick app_but_pin_steps app_but_pin_drain assms)

interpretation win: unwinding app_but_pin "window_step show_a parse_a resolve" "window_output show_a parse_a resolve"
proof
  fix a a' i
  assume r: "app_but_pin a a'"
  show "app_but_pin (window_step show_a parse_a resolve i a) (window_step show_a parse_a resolve i a')"
    using r frame_keeps_equivalence [OF r] by (cases i) (simp_all add: window_step_def app_but_pin_def send_event_def)
  have "fst (snd (update_frame show_a parse_a resolve u a)) = fst (snd (update_frame show_a parse_a resolve u a'))" for u
    using app_but_pin_drain(2) [OF r] by (simp add: update_frame_def Let_def case_prod_unfold)
  then show "window_output show_a parse_a resolve i a = window_output show_a parse_a resolve i a'"
    using frame_hides_pin [OF r] by (cases i) (simp_all add: window_output_def case_prod_unfold)
qed

section \<open>Property\<close>

text \<open>
  C34. No secret is displayed. The output of \<open>farbus status\<close>, as text and as JSON, is the same whatever token and client
  secret are saved for the server; the Debug output of the window's state, and everything the window shows in any sequence of frames,
  whatever the user does in them and whatever threads report in between, are the same whatever digits the PIN field held at first.
\<close>

theorem secrets_not_displayed:
  assumes "home_dir (env_variables r) = Inr home" "addr_text_ok (show_addr t) (parse_addr t) (session_addr s)"
    and "session_ok s" "session_ok (s\<lparr>session_token := tok, session_secret := sec\<rparr>)"
    and "save_session (show_addr t) (env_variables r) flt s fs = (Inr (), fs1)"
    and "save_session (show_addr t) (env_variables r) flt (s\<lparr>session_token := tok, session_secret := sec\<rparr>) fs = (Inr (), fs2)"
    and "app_but_pin a a'"
  shows "fst (cli_run sha t r con (Status json) fs1) = fst (cli_run sha t r con (Status json) fs2) \<and>
    gui_debug dbg (gui a) = gui_debug dbg (gui a') \<and>
    outputs (window_step (show_addr t) (parse_addr t) resolve) (window_output (show_addr t) (parse_addr t) resolve) inputs a =
      outputs (window_step (show_addr t) (parse_addr t) resolve) (window_output (show_addr t) (parse_addr t) resolve) inputs a'"
proof -
  have "fst (cli_run sha t r con (Status json) fs1) = fst (cli_run sha t r con (Status json) fs2)"
    by (rule status_hides_secrets [OF assms(1-4) _ _ assms(5,6)]) simp_all
  moreover have "gui_debug dbg (gui a) = gui_debug dbg (gui a')"
    using assms(7) debug_hides_pin unfolding app_but_pin_def same_but_pin_def by metis
  ultimately show ?thesis using win.indistinguishable [OF assms(7)] by blast
qed

text \<open>The window with two PINs of six digits typed into it.\<close>

definition typed_app :: "string \<Rightarrow> app" where
  "typed_app p = demo_app\<lparr>gui := (gui demo_app)\<lparr>gui_pin := p\<rparr>\<rparr>"

definition pairing_user :: user_input where
  "pairing_user = \<lparr>menu_clicks = [], tray_clicks = 0, scan_clicked = False, host_edit = None, fingerprint_edit = None, add_clicked = False,
     server_clicked = (\<lambda>_. False), pin_edit = None, pair_clicked = True, device_clicked = (\<lambda>_. False)\<rparr>"

theorem secrets_not_displayed_witness:
  "\<exists>fs1 fs2. save_session demo_show demo_vars no_faults demo_stored Map.empty = (Inr (), fs1) \<and>
    save_session demo_show demo_vars no_faults (demo_stored\<lparr>session_token := replicate 32 1, session_secret := None\<rparr>) Map.empty = (Inr (), fs2) \<and>
    fst (cli_run rev lab_texts (lab_run pairing_network) None (Status True) fs1) =
      fst (cli_run rev lab_texts (lab_run pairing_network) None (Status True) fs2) \<and>
    outputs (window_step demo_show demo_parse (\<lambda>_. Inr [])) (window_output demo_show demo_parse (\<lambda>_. Inr []))
        [Frame pairing_user, Report (GuiPairRejected ''pairing rejected''), Frame pairing_user] (typed_app ''123456'') =
      outputs (window_step demo_show demo_parse (\<lambda>_. Inr [])) (window_output demo_show demo_parse (\<lambda>_. Inr []))
        [Frame pairing_user, Report (GuiPairRejected ''pairing rejected''), Frame pairing_user] (typed_app ''654321'')"
proof -
  let ?s = "demo_stored\<lparr>session_token := replicate 32 1, session_secret := None\<rparr>"
  have e: "show_addr lab_texts = demo_show" "parse_addr lab_texts = demo_parse" "env_variables (lab_run pairing_network) = demo_vars"
    by (simp_all add: lab_texts_def lab_run_def)
  obtain fs1 where 1: "save_session demo_show demo_vars no_faults demo_stored Map.empty = (Inr (), fs1)"
    using save_session_ok [OF demo_store_ok(1) no_faults_fails] by blast
  obtain fs2 where 2: "save_session demo_show demo_vars no_faults ?s Map.empty = (Inr (), fs2)"
    using save_session_ok [OF demo_store_ok(1) no_faults_fails] by blast
  have ok: "session_ok ?s" by (simp add: session_ok_def demo_stored_def)
  have p: "app_but_pin (typed_app ''123456'') (typed_app ''654321'')"
    by (simp add: app_but_pin_def same_but_pin_def typed_app_def is_ascii_digit_def)
  from secrets_not_displayed [of "lab_run pairing_network" _ lab_texts demo_stored, unfolded e, OF demo_store_ok ok 1 2 p]
  show ?thesis using 1 2 by blast
qed

end
