(* ===== verification/Progress.thy ===== *)
theory Progress
  imports Session_Properties
begin

text \<open>
  Progress of the sessions of \<^verbatim>\<open>crates/farbus-core/src/session.rs\<close>. The steps a session can do without
  a further message of its client are singled out of the step relation of theory \<open>Session\<close>: its
  reader goes on (which, at the permit of a URB, needs a free one), a task goes on, a completion is
  delivered. A measure counts those that are left. Every such step lowers it, no step of another
  session, of the hot-plug monitor or of the PIN timer raises it, and as long as it is not zero some such step
  is enabled; so a session is never stuck and settles whatever else the server does.
\<close>

section \<open>What a session has left to do\<close>

fun pc_rank :: "reader_pc \<Rightarrow> nat" where
  "pc_rank Idle = 0"
| "pc_rank (Checking _ _ _) = 9"
| "pc_rank (Fetching _) = 8"
| "pc_rank (Waiting _ _) = 7"
| "pc_rank _ = 1"

definition load :: "session \<Rightarrow> nat" where
  "load l = pc_rank (pc l) + (\<Sum>t \<leftarrow> tasks l. Suc (stage_rank (stage t)))"

fun blocked :: "reader_pc \<Rightarrow> nat \<Rightarrow> bool" where
  "blocked (Waiting _ _) used = (used \<ge> MAX_IN_FLIGHT_URBS)"
| "blocked _ _ = False"

inductive session_work :: "world \<Rightarrow> nat \<Rightarrow> sys \<Rightarrow> sys \<Rightarrow> bool" for w i where
  reader: "sessions y i = Some l \<Longrightarrow> pc l \<noteq> Idle \<Longrightarrow> \<not> blocked (pc l) (permits_used l) \<Longrightarrow>
    clock y \<le> now e \<Longrightarrow> fresh_token e (server y) \<Longrightarrow> advance e (server y) l = (s', l') \<Longrightarrow>
    session_work w i y ((set_session i l' y)\<lparr>server := s', clock := now e\<rparr>)"
| worker: "sessions y i = Some l \<Longrightarrow> k < length (tasks l) \<Longrightarrow> stage_rank (stage (tasks l ! k)) \<noteq> 0 \<Longrightarrow>
    clock y \<le> now e \<Longrightarrow>
    session_work w i y ((set_session i (l\<lparr>tasks := (tasks l)[k := task_step w e (server y) (tasks l ! k)]\<rparr>) y)
      \<lparr>clock := now e\<rparr>)"
| writer: "sessions y i = Some l \<Longrightarrow> k < length (tasks l) \<Longrightarrow> stage (tasks l ! k) = TSending c \<Longrightarrow>
    session_work w i y (set_session i (send (UrbComplete c)
      (l\<lparr>tasks := take k (tasks l) @ drop (Suc k) (tasks l)\<rparr>)) y)"

inductive_cases session_workE: "session_work w i y y'"

text \<open>
  A run of the whole server in which session \<open>i\<close> stays connected and takes no message: \<open>n\<close> counts
  the steps of the session's own work in it.
\<close>

inductive settling :: "world \<Rightarrow> nat \<Rightarrow> sys \<Rightarrow> nat \<Rightarrow> sys \<Rightarrow> bool" for w i y where
  stay: "settling w i y 0 y"
| work: "settling w i y n y' \<Longrightarrow> session_work w i y' y'' \<Longrightarrow> settling w i y (Suc n) y''"
| other: "settling w i y n y' \<Longrightarrow> sys_step w y' y'' \<Longrightarrow> sessions y'' i \<noteq> None \<Longrightarrow> received y'' i = received y' i \<Longrightarrow>
    settling w i y n y''"

section \<open>The measure\<close>

lemma load_0: "load l = 0 \<longleftrightarrow> pc l = Idle \<and> tasks l = []"
  by (cases "pc l") (auto simp: load_def)

lemma load_bound: "load l \<le> 9 + 6 * length (tasks l)"
proof -
  have "stage_rank st \<le> 5" for st by (cases st) auto
  then have "(\<Sum>t \<leftarrow> ts. Suc (stage_rank (stage t))) \<le> 6 * length ts" for ts
    by (induction ts) (auto simp: add_mono)
  moreover have "pc_rank (pc l) \<le> 9" by (cases "pc l") auto
  ultimately show ?thesis unfolding load_def by (intro add_mono)
qed

lemma sum_list_update_swap:
  fixes f :: "'a \<Rightarrow> nat"
  assumes "k < length xs"
  shows "(\<Sum>x \<leftarrow> xs[k := a]. f x) + f (xs ! k) = (\<Sum>x \<leftarrow> xs. f x) + f a"
  using assms by (induction xs arbitrary: k) (auto split: nat.split simp: nth_Cons)

lemma sum_list_delete:
  fixes f :: "'a \<Rightarrow> nat"
  assumes "k < length xs"
  shows "(\<Sum>x \<leftarrow> take k xs @ drop (Suc k) xs. f x) + f (xs ! k) = (\<Sum>x \<leftarrow> xs. f x)"
  using arg_cong [OF id_take_nth_drop [OF assms], of "\<lambda>xs. \<Sum>x \<leftarrow> xs. f x"] by simp

lemma load_task:
  assumes "k < length (tasks l)"
  shows "load (l\<lparr>tasks := (tasks l)[k := task_step w e s (tasks l ! k)]\<rparr>) \<le> load l"
    "stage_rank (stage (tasks l ! k)) \<noteq> 0 \<Longrightarrow>
      load (l\<lparr>tasks := (tasks l)[k := task_step w e s (tasks l ! k)]\<rparr>) < load l"
  using sum_list_update_swap [OF assms, of "\<lambda>t. Suc (stage_rank (stage t))" "task_step w e s (tasks l ! k)"]
    task_step_rank [of w e s "tasks l ! k"]
  by (simp_all add: load_def)

lemma load_deliver:
  assumes "k < length (tasks l)"
  shows "load (send m (l\<lparr>tasks := take k (tasks l) @ drop (Suc k) (tasks l)\<rparr>)) < load l"
  using sum_list_delete [OF assms, of "\<lambda>t. Suc (stage_rank (stage t))"] by (simp add: load_def)

lemma load_advance:
  assumes "advance e s l = (s', l')" "pc l \<noteq> Idle"
  shows "load l' \<le> load l" "\<not> blocked (pc l) (permits_used l) \<Longrightarrow> load l' < load l"
  using assms
  by (auto simp: advance_def load_def Let_def split: reader_pc.splits if_splits option.splits prod.splits)

section \<open>Progress\<close>

lemma work_is_step: "session_work w i y y' \<Longrightarrow> sys_step w y y'"
  by (auto elim!: session_workE intro: sys_step.advance sys_step.task sys_step.deliver)

lemma work_lowers_load:
  assumes "session_work w i y y'" "sessions y i = Some l"
  obtains l' where "sessions y' i = Some l'" "load l' < load l" "received y' = received y"
  using assms(1)
proof (cases rule: session_work.cases)
  case (reader l1 e s' l')
  with assms(2) load_advance(2) [OF reader(7)] show ?thesis by (intro that [of l']) (auto simp: set_session_def)
next
  case (worker l1 k e)
  with assms(2) show ?thesis by (intro that) (auto simp: set_session_def intro: load_task(2))
next
  case (writer l1 k c)
  with assms(2) show ?thesis by (intro that) (auto simp: set_session_def intro: load_deliver)
qed

lemma step_keeps_load:
  assumes "sys_step w y y'" "sessions y i = Some l" "sessions y' i = Some l'" "received y' i = received y i"
  shows "load l' \<le> load l"
  using assms(1)
proof (cases rule: sys_step.cases)
  case (receive j k e msg s' m)
  with assms show ?thesis by (auto simp: set_session_def split: if_splits)
next
  case (advance j k e s' m)
  with assms load_advance(1) [OF advance(6)] show ?thesis by (auto simp: set_session_def split: if_splits)
next
  case (task j k n e)
  with assms load_task(1) [of n k w e "server y"] show ?thesis by (auto simp: set_session_def split: if_splits)
next
  case (deliver j k n c)
  with assms load_deliver [of n k] show ?thesis by (auto simp: set_session_def less_imp_le split: if_splits)
qed (use assms in \<open>auto simp: set_session_def load_def split: if_splits\<close>)

lemma fresh_token_exists: "\<exists>e. clock y \<le> now e \<and> fresh_token e (server y)"
proof -
  have "finite (dom (map_of (tokens (server y))))" by (rule finite_dom_map_of)
  then obtain tok :: bytes where "tok \<notin> dom (map_of (tokens (server y)))"
    using ex_new_if_finite [OF infinite_UNIV_listI] by blast
  then have "fresh_token \<lparr>now = clock y, pin_draw = 0, token_draw = tok\<rparr> (server y)"
    by (auto simp: fresh_token_def)
  then show ?thesis by (intro exI [of _ "\<lparr>now = clock y, pin_draw = 0, token_draw = tok\<rparr>"]) simp
qed

lemma work_enabled:
  assumes "sessions y i = Some l" "load l \<noteq> 0"
  shows "\<exists>y'. session_work w i y y'"
proof (cases "tasks l")
  case Nil
  then have "pc l \<noteq> Idle" using assms(2) by (simp add: load_0)
  moreover have "\<not> blocked (pc l) (permits_used l)" using Nil by (cases "pc l") (auto simp: permits_used_def)
  moreover obtain e where "clock y \<le> now e" "fresh_token e (server y)" using fresh_token_exists by blast
  moreover obtain s' l' where "advance e (server y) l = (s', l')" by (cases "advance e (server y) l")
  ultimately show ?thesis using session_work.reader [OF assms(1)] by blast
next
  case (Cons t ts)
  obtain e :: env where "clock y \<le> now e" using fresh_token_exists by blast
  then show ?thesis
    using session_work.worker [OF assms(1), of 0 e w] session_work.writer [OF assms(1), of 0 _ w] Cons
    by (cases "stage_rank (stage t) = 0") (auto simp: stage_rank_0)
qed

lemma settling_load:
  assumes "settling w i y n y'" "sessions y i = Some l"
  obtains l' where "sessions y' i = Some l'" "n + load l' \<le> load l" "received y' i = received y i"
proof -
  have "\<exists>l'. sessions y' i = Some l' \<and> n + load l' \<le> load l \<and> received y' i = received y i"
    using assms
  proof induction
    case (work n y' y'')
    then obtain l1 where l1: "sessions y' i = Some l1" "n + load l1 \<le> load l" "received y' i = received y i" by auto
    from work.hyps(2) l1(1) obtain l2 where "sessions y'' i = Some l2" "load l2 < load l1" "received y'' = received y'"
      by (rule work_lowers_load)
    with l1 show ?case by auto
  next
    case (other n y' y'')
    then obtain l1 l2 where l1: "sessions y' i = Some l1" "n + load l1 \<le> load l" "received y' i = received y i"
      and l2: "sessions y'' i = Some l2" by auto
    from step_keeps_load [OF other.hyps(2) l1(1) l2 other.hyps(4)] l1 l2 other.hyps(4) show ?case by auto
  qed simp
  then show thesis using that by blast
qed

lemma settling_reachable: "settling w i y n y' \<Longrightarrow> reachable w y0 y \<Longrightarrow> reachable w y0 y'"
  by (induction rule: settling.induct) (auto intro: reachable.more work_is_step)

lemma settles:
  assumes "sessions y i = Some l"
  shows "\<exists>n y' l'. settling w i y n y' \<and> sessions y' i = Some l' \<and> load l' = 0"
proof -
  have "\<exists>n y' l'. settling w i y n y' \<and> sessions y' i = Some l' \<and> load l' = 0"
    if "settling w i y m z" "sessions z i = Some lz" "load lz = k" for m z lz k
    using that
  proof (induction k arbitrary: m z lz rule: less_induct)
    case (less k)
    show ?case
    proof (cases "k = 0")
      case False
      with less.prems obtain z' where z': "session_work w i z z'" using work_enabled by blast
      with less.prems(2) obtain l' where "sessions z' i = Some l'" "load l' < load lz"
        using work_lowers_load by blast
      with less.IH [OF _ settling.work [OF less.prems(1) z']] less.prems(3) show ?thesis by blast
    qed (use less.prems in blast)
  qed
  from this [OF settling.stay assms refl] show ?thesis .
qed

section \<open>Properties\<close>

text \<open>
  C5. A session is never stuck, and every message it has taken is answered. Take any interleaving of any number of
  sessions, hot-plug refreshes and PIN renewals, and from there any run of the server in which
  session \<open>i\<close> stays connected and takes no further message. The session does at most as many steps
  in it as its load (9 and 6 per URB in flight), wherever it stands it can either go on
  or has answered every message it took, each URB once with its sequence number, and it can always be
  brought to that point.
\<close>

theorem session_settles:
  assumes "started w s" "honest_completers w s" "reachable w (sys_init s t) y" "sessions y i = Some l"
    "settling w i y n y'"
  shows "n \<le> 9 + 6 * length (tasks l) \<and>
    (\<exists>l'. sessions y' i = Some l' \<and>
      ((\<exists>z. session_work w i y' z) \<or>
       length (out l') = length (received y i) \<and> mset (answered (out l')) = mset (submitted (received y i)))) \<and>
    (\<exists>m z l'. settling w i y' m z \<and> sessions z i = Some l' \<and>
       length (out l') = length (received y i) \<and> mset (answered (out l')) = mset (submitted (received y i)))"
proof -
  have settled: "length (out l') = length (received y i) \<and> mset (answered (out l')) = mset (submitted (received y i))"
    if "reachable w (sys_init s t) z" "sessions z i = Some l'" "load l' = 0" "received z i = received y i" for z l'
  proof -
    have "answered_once (received z i) l'"
      using reachable_all_answered [OF assms(1,2) that(1)] that(2) by (simp add: all_answered_def)
    with that(3,4) show ?thesis by (simp add: answered_once_def load_0)
  qed
  obtain l' where l': "sessions y' i = Some l'" "n + load l' \<le> load l" "received y' i = received y i"
    using settling_load [OF assms(5,4)] .
  note r = settling_reachable [OF assms(5,3)]
  obtain m z lz where z: "settling w i y' m z" "sessions z i = Some lz" "load lz = 0"
    using settles [OF l'(1)] by blast
  have "received z i = received y' i" using settling_load [OF z(1) l'(1)] by metis
  with settled [OF settling_reachable [OF z(1) r] z(2,3)] l'(3) z
  have "\<exists>m z l'. settling w i y' m z \<and> sessions z i = Some l' \<and>
    length (out l') = length (received y i) \<and> mset (answered (out l')) = mset (submitted (received y i))" by metis
  moreover have "(\<exists>z. session_work w i y' z) \<or>
    length (out l') = length (received y i) \<and> mset (answered (out l')) = mset (submitted (received y i))"
    using work_enabled [OF l'(1)] settled [OF r l'(1) _ l'(3)] by blast
  ultimately show ?thesis using l' load_bound [of l] by auto
qed

theorem session_settles_witness:
  "\<exists>m z l'. settling demo_world 0 demo_end m z \<and> sessions z 0 = Some l' \<and>
     mset (answered (out l')) = {#7#}"
proof -
  have s: "sessions demo_end 0 = Some demo_session" by (simp add: demo_end_def)
  have h: "honest_completers demo_world demo_server" by (simp add: honest_completers_def demo_defs)
  from session_settles [OF demo_started h demo_reachable s settling.stay]
  show ?thesis by (auto simp: demo_end_def demo_hello_def demo_urb_def)
qed

end
