(* ===== verification/Pipeline.thy ===== *)
theory Pipeline
  imports Progress Client "HOL-Library.Sublist"
begin

text \<open>
  One connection from end to end: the I/O pump of \<^verbatim>\<open>client.rs\<close> on one side, a session of
  \<^verbatim>\<open>session.rs\<close> among all the others of its server on the other, and between them the two directions of
  the stream, each a queue of messages. The client sends without waiting for replies, the server completes URBs
  in any order, and both go on independently. The state is the server's system and the history of the
  pump's events, from which the pump is computed; what is in flight to the server is what the pump wrote and the
  session has not received, and what is in flight to the client is what the session sent and the
  pump has not read. The connection stays up: what a broken one does to the pump is in theory \<open>Client\<close>.
\<close>

section \<open>The connection\<close>

fun cmd_message :: "client_cmd \<Rightarrow> message" where
  "cmd_message (ControlCmd m) = m"
| "cmd_message (UrbCmd u) = UrbSubmit u"
| "cmd_message (UnlinkCmd u) = UrbUnlink u"

text \<open>\<open>request\<close> is for messages other than URBs and unlinks; the command has to fit a frame.\<close>

fun control_message :: "message \<Rightarrow> bool" where
  "control_message (UrbSubmit _) = False"
| "control_message (UrbUnlink _) = False"
| "control_message (UrbComplete _) = False"
| "control_message (UrbUnlinked _) = False"
| "control_message _ = True"

fun sendable :: "client_cmd \<Rightarrow> bool" where
  "sendable (ControlCmd m) = (control_message m \<and> write_result None m = None)"
| "sendable (UrbCmd u) = (write_result None (UrbSubmit u) = None)"
| "sendable (UnlinkCmd u) = (write_result None (UrbUnlink u) = None)"

fun written :: "pump_event list \<Rightarrow> message list" where
  "written [] = []"
| "written (Command cmd _ _ # evs) = cmd_message cmd # written evs"
| "written (_ # evs) = written evs"

fun incoming :: "pump_event list \<Rightarrow> message list" where
  "incoming [] = []"
| "incoming (Incoming m # evs) = m # incoming evs"
| "incoming (_ # evs) = incoming evs"

fun unlinks :: "message list \<Rightarrow> u32 list" where
  "unlinks [] = []"
| "unlinks (UrbUnlink u # ms) = unlink_seq u # unlinks ms"
| "unlinks (_ # ms) = unlinks ms"

fun unlinked :: "message list \<Rightarrow> u32 list" where
  "unlinked [] = []"
| "unlinked (UrbUnlinked u # ms) = unlinked_seq u # unlinked ms"
| "unlinked (_ # ms) = unlinked ms"

definition open_session :: "nat \<Rightarrow> sys \<Rightarrow> bool" where
  "open_session i y \<longleftrightarrow> (\<exists>l. sessions y i = Some l \<and> \<not> reader_done l)"

text \<open>The steps that need no new command of the client.\<close>

inductive wire_step :: "world \<Rightarrow> nat \<Rightarrow> sys \<times> pump_event list \<Rightarrow> sys \<times> pump_event list \<Rightarrow> bool" for w i where
  server_receives: "sessions y i = Some l \<Longrightarrow> pc l = Idle \<Longrightarrow> \<not> reader_done l \<Longrightarrow> clock y \<le> now e \<Longrightarrow>
    length (received y i) < length (written evs) \<Longrightarrow> msg = written evs ! length (received y i) \<Longrightarrow>
    receive w e msg (server y) l = (s', l') \<Longrightarrow>
    wire_step w i (y, evs) ((set_session i l' y)\<lparr>server := s', clock := now e,
      received := (received y)(i := received y i @ [msg])\<rparr>, evs)"
| server_moves: "sys_step w y y' \<Longrightarrow> open_session i y' \<Longrightarrow> received y' i = received y i \<Longrightarrow>
    wire_step w i (y, evs) (y', evs)"
| client_takes: "sessions y i = Some l \<Longrightarrow> length (incoming evs) < length (out l) \<Longrightarrow>
    msg = out l ! length (incoming evs) \<Longrightarrow> wire_step w i (y, evs) (y, evs @ [Incoming msg])"

text \<open>The connections that start with a session just accepted, with commands of the client added.\<close>

inductive connection :: "world \<Rightarrow> sys \<Rightarrow> nat \<Rightarrow> sys \<times> pump_event list \<Rightarrow> bool" for w y0 i where
  accepted: "reachable w y0 y \<Longrightarrow> sessions y i = Some session_new \<Longrightarrow> received y i = [] \<Longrightarrow> connection w y0 i (y, [])"
| goes_on: "connection w y0 i c \<Longrightarrow> wire_step w i c c' \<Longrightarrow> connection w y0 i c'"
| client_sends: "connection w y0 i (y, evs) \<Longrightarrow> sendable cmd \<Longrightarrow> t \<notin> set (issued evs) \<Longrightarrow>
    connection w y0 i (y, evs @ [Command cmd t None])"

section \<open>The server's side\<close>

definition controls :: "message list \<Rightarrow> nat" where
  "controls ms = length (filter control_message ms)"

lemma history_append [simp]:
  "written (evs @ evs') = written evs @ written evs'" "incoming (evs @ evs') = incoming evs @ incoming evs'"
  "issued (evs @ evs') = issued evs @ issued evs'"
  by (induction evs rule: written.induct) auto

lemma seqs_append [simp]:
  "unlinks (ms @ ms') = unlinks ms @ unlinks ms'" "unlinked (ms @ ms') = unlinked ms @ unlinked ms'"
  "controls (ms @ ms') = controls ms + controls ms'"
proof -
  show "unlinks (ms @ ms') = unlinks ms @ unlinks ms'" by (induction ms rule: unlinks.induct) auto
  show "unlinked (ms @ ms') = unlinked ms @ unlinked ms'" by (induction ms rule: unlinked.induct) auto
qed (simp add: controls_def)

text \<open>What a session receives are requests, what it sends are replies.\<close>

fun is_request :: "message \<Rightarrow> bool" where
  "is_request (UrbComplete _) = False"
| "is_request (UrbUnlinked _) = False"
| "is_request _ = True"

fun is_reply :: "message \<Rightarrow> bool" where
  "is_reply (UrbSubmit _) = False"
| "is_reply (UrbUnlink _) = False"
| "is_reply _ = True"

lemma request_count: "list_all is_request ms \<Longrightarrow> length ms = controls ms + length (submitted ms) + length (unlinks ms)"
proof (induction ms)
  case (Cons m ms)
  then show ?case by (cases m) (auto simp: controls_def)
qed (simp add: controls_def)

lemma reply_count: "list_all is_reply ms \<Longrightarrow> length ms = controls ms + length (answered ms) + length (unlinked ms)"
proof (induction ms)
  case (Cons m ms)
  then show ?case by (cases m) (auto simp: controls_def)
qed (simp add: controls_def)

lemma controls_le:
  assumes "answered_once ms l" "unlinked (out l) = unlinks ms" "list_all is_reply (out l)" "list_all is_request ms"
  shows "controls (out l) \<le> controls ms"
    "load l = 0 \<Longrightarrow> controls (out l) = controls ms \<and> mset (answered (out l)) = mset (submitted ms)"
proof -
  have m: "length ms = length (out l) + length (tasks l) + (if pc l = Idle then 0 else 1)"
    "mset (submitted ms) = mset (answered (out l)) + mset (map task_seq (tasks l)) + mset (pc_seqs (pc l))"
    using assms(1) by (simp_all add: answered_once_def)
  have n: "length (submitted ms) = length (answered (out l)) + length (tasks l) + length (pc_seqs (pc l))"
    using arg_cong [OF m(2), of size] by simp
  have "length (pc_seqs (pc l)) \<le> (if pc l = Idle then 0 else 1)" by (cases "pc l") auto
  with m(1) n request_count [OF assms(4)] reply_count [OF assms(3)] assms(2)
  show "controls (out l) \<le> controls ms" by simp
  assume "load l = 0"
  with m n request_count [OF assms(4)] reply_count [OF assms(3)] assms(2)
  show "controls (out l) = controls ms \<and> mset (answered (out l)) = mset (submitted ms)" by (simp add: load_0)
qed

text \<open>Unlinks are answered at once, and nothing but replies is sent.\<close>

definition replies_fit :: "message list \<Rightarrow> session \<Rightarrow> bool" where
  "replies_fit ms l \<longleftrightarrow> unlinked (out l) = unlinks ms \<and> list_all is_reply (out l)"

text \<open>
  Control messages are answered in their order, each with a reply to it: what the session has sent answers
  all of them but the one its reader is busy with.
\<close>

fun refused :: "message \<Rightarrow> bool" where
  "refused (Error _ _) = True"
| "refused _ = False"

definition reply_to :: "message \<Rightarrow> message \<Rightarrow> bool" where
  "reply_to m r \<longleftrightarrow>
     (case m of
        Hello _ \<Rightarrow> (\<exists>h. r = Hello h)
      | PairRequest _ \<Rightarrow> (\<exists>p. r = PairResponse p)
      | DeviceListRequest _ \<Rightarrow> refused r \<or> (\<exists>ds. r = DeviceList ds)
      | AttachRequest req \<Rightarrow> refused r \<or> (\<exists>a. r = AttachResponse a \<and> attached_device_id a = attach_device_id req)
      | DetachRequest req \<Rightarrow> refused r \<or> r = Detach (detach_device_id req)
      | _ \<Rightarrow> refused r)"

fun asks_control :: "message \<Rightarrow> bool" where
  "asks_control (UrbSubmit _) = False"
| "asks_control (UrbUnlink _) = False"
| "asks_control _ = True"

fun pc_serves :: "reader_pc \<Rightarrow> message list \<Rightarrow> bool" where
  "pc_serves (Pairing req _) ms = (ms = [PairRequest req])"
| "pc_serves Listing ms = (\<exists>token. ms = [DeviceListRequest token])"
| "pc_serves (Attaching req _) ms = (ms = [AttachRequest req])"
| "pc_serves (Detaching req _) ms = (ms = [DetachRequest req])"
| "pc_serves _ ms = (ms = [])"

definition in_order :: "message list \<Rightarrow> session \<Rightarrow> bool" where
  "in_order ms l \<longleftrightarrow>
     (\<exists>handled busy. filter asks_control ms = handled @ busy \<and>
        list_all2 reply_to handled (filter control_message (out l)) \<and> pc_serves (pc l) busy)"

lemma in_orderI:
  "filter asks_control ms = handled @ busy \<Longrightarrow> list_all2 reply_to handled (filter control_message (out l)) \<Longrightarrow>
     pc_serves (pc l) busy \<Longrightarrow> in_order ms l"
  by (auto simp: in_order_def)

lemma receive_in_order:
  assumes "receive w e msg s l = (s', l')" "pc l = Idle"
  shows "(\<exists>r. out l' = out l @ [r] \<and> pc l' = Idle \<and> control_message r = asks_control msg \<and> (asks_control msg \<longrightarrow> reply_to msg r)) \<or>
    out l' = out l \<and> pc_serves (pc l') (filter asks_control [msg])"
  using assms
  by (auto simp: receive_def Let_def reply_to_def split: message.splits if_splits sum.splits option.splits prod.splits)

lemma advance_in_order:
  assumes "advance e s l = (s', l')" "pc l \<noteq> Idle" "pc_serves (pc l) busy"
  shows "(\<exists>r. out l' = out l @ [r] \<and> pc l' = Idle \<and>
      (busy = [] \<and> \<not> control_message r \<or> (\<exists>m. busy = [m] \<and> control_message r \<and> reply_to m r))) \<or>
    out l' = out l \<and> pc_serves (pc l') busy"
  using assms
  by (auto simp: advance_def Let_def reply_to_def split: reader_pc.splits if_splits option.splits prod.splits)

text \<open>A property of what a session received and its state that all its steps keep holds of every session.\<close>

locale session_invariant =
  fixes J :: "message list \<Rightarrow> session \<Rightarrow> bool"
  assumes on_new: "J [] session_new"
    and on_receive: "J ms l \<Longrightarrow> pc l = Idle \<Longrightarrow> receive w e msg s l = (s', l') \<Longrightarrow> J (ms @ [msg]) l'"
    and on_advance: "J ms l \<Longrightarrow> pc l \<noteq> Idle \<Longrightarrow> advance e s l = (s', l') \<Longrightarrow> J ms l'"
    and on_task: "J ms l \<Longrightarrow> J ms (l\<lparr>tasks := ts\<rparr>)"
    and on_deliver: "J ms l \<Longrightarrow> J ms (send (UrbComplete c) (l\<lparr>tasks := ts\<rparr>))"
    and on_eof: "J ms l \<Longrightarrow> J ms (l\<lparr>reader_done := True\<rparr>)"
begin

lemma kept:
  assumes I: "\<forall>i l. sessions y i = Some l \<longrightarrow> J (received y i) l" and st: "sys_step w y y'"
  shows "\<forall>i l. sessions y' i = Some l \<longrightarrow> J (received y' i) l"
  using st
proof (cases rule: sys_step.cases)
  case (receive i l e msg s' l')
  with I on_receive [OF _ receive(3,6)] show ?thesis by (auto simp: set_session_def)
next
  case (advance i l e s' l')
  with I on_advance [OF _ advance(3,6)] show ?thesis by (auto simp: set_session_def)
next
  case (task i l k e)
  with I on_task show ?thesis by (simp add: set_session_def)
next
  case (deliver i l k c)
  with I on_deliver show ?thesis by (simp add: set_session_def)
next
  case (connect i)
  with I on_new show ?thesis by (simp add: set_session_def)
next
  case (eof i l)
  with I on_eof show ?thesis by (simp add: set_session_def)
qed (use I in auto)

end

interpretation fitting: session_invariant replies_fit
proof
  show "replies_fit (ms @ [msg]) l'" if "replies_fit ms l" "pc l = Idle" "receive w e msg s l = (s', l')" for ms l w e msg s s' l'
    using that unfolding receive_def
    by (auto simp: replies_fit_def Let_def split: message.splits if_splits sum.splits option.splits prod.splits)
  show "replies_fit ms l'" if "replies_fit ms l" "pc l \<noteq> Idle" "advance e s l = (s', l')" for ms l e s s' l'
    using that unfolding advance_def
    by (auto simp: replies_fit_def Let_def split: reader_pc.splits if_splits option.splits prod.splits)
qed (auto simp: replies_fit_def session_new_def)

interpretation ordering: session_invariant in_order
proof
  show "in_order (ms @ [msg]) l'" if J: "in_order ms l" "pc l = Idle" and rc: "receive w e msg s l = (s', l')" for ms l w e msg s s' l'
  proof -
    have h: "list_all2 reply_to (filter asks_control ms) (filter control_message (out l))" using J by (auto simp: in_order_def)
    from receive_in_order [OF rc J(2)] show ?thesis
    proof (elim disjE exE conjE)
      fix r
      assume "out l' = out l @ [r]" "pc l' = Idle" "control_message r = asks_control msg" "asks_control msg \<longrightarrow> reply_to msg r"
      then show ?thesis
        using h by (intro in_orderI [of _ "filter asks_control (ms @ [msg])" "[]"]) (auto intro: list_all2_appendI)
    next
      assume "out l' = out l" "pc_serves (pc l') (filter asks_control [msg])"
      then show ?thesis using h by (intro in_orderI [of _ "filter asks_control ms" "filter asks_control [msg]"]) auto
    qed
  qed
  show "in_order ms l'" if J: "in_order ms l" "pc l \<noteq> Idle" and ad: "advance e s l = (s', l')" for ms l e s s' l'
  proof -
    obtain handled busy where h: "filter asks_control ms = handled @ busy" "pc_serves (pc l) busy"
      "list_all2 reply_to handled (filter control_message (out l))" using J(1) by (auto simp: in_order_def)
    from advance_in_order [OF ad J(2) h(2)] show ?thesis
    proof (elim disjE exE conjE)
      fix r m
      assume r: "out l' = out l @ [r]" "pc l' = Idle" "busy = [m]" "control_message r" "reply_to m r"
      with h have "list_all2 reply_to (handled @ [m]) (filter control_message (out l'))" by (simp add: list_all2_appendI)
      with h r show ?thesis by (auto simp: in_order_def)
    qed (use h in \<open>auto simp: in_order_def\<close>)
  qed
qed (auto simp: in_order_def session_new_def)

definition all_fit :: "sys \<Rightarrow> bool" where
  "all_fit y \<longleftrightarrow> (\<forall>i l. sessions y i = Some l \<longrightarrow> replies_fit (received y i) l) \<and>
     (\<forall>i l. sessions y i = Some l \<longrightarrow> in_order (received y i) l)"

lemma all_fit_step: "all_fit y \<Longrightarrow> sys_step w y y' \<Longrightarrow> all_fit y'"
  unfolding all_fit_def using fitting.kept ordering.kept by blast

text \<open>A session that goes on only adds to what it sent.\<close>

lemma step_extends_out:
  assumes "sys_step w y y'" "sessions y i = Some l" "sessions y' i = Some l'"
  shows "\<exists>ms. out l' = out l @ ms"
  using assms(1)
proof (cases rule: sys_step.cases)
  case (receive j k e msg s' m)
  have "pc k = Idle \<Longrightarrow> \<exists>ms. out m = out k @ ms" using receive_answers [OF receive(6)] by auto
  with receive assms show ?thesis by (auto simp: set_session_def split: if_splits)
next
  case (advance j k e s' m)
  have "\<exists>ms. out m = out k @ ms" using advance_answers [OF advance(6,3)] by auto
  with advance assms show ?thesis by (auto simp: set_session_def split: if_splits)
qed (use assms in \<open>auto simp: set_session_def split: if_splits\<close>)

text \<open>Only the end of the stream stops a reader; a message costs the reader at most nine steps, and a
  step sends at most one reply.\<close>

lemma receive_reader: "receive w e msg s l = (s', l') \<Longrightarrow> reader_done l' = reader_done l"
  unfolding receive_def
  by (auto simp: Let_def split: message.splits if_splits sum.splits option.splits prod.splits)

lemma receive_cost:
  assumes "receive w e msg s l = (s', l')" "load l = 0"
  shows "load l' \<le> 9" "length (out l') \<le> Suc (length (out l))"
proof -
  show "load l' \<le> 9" using assms load_bound [of l'] receive_fields(4) [OF assms(1)] by (simp add: load_0)
  show "length (out l') \<le> Suc (length (out l))" using assms receive_answers [OF assms(1)] by (auto simp: load_0)
qed

lemma work_cost:
  assumes "session_work w i y y'" "sessions y i = Some l" "sessions y' i = Some l'"
  shows "reader_done l' = reader_done l" "length (out l') \<le> Suc (length (out l))"
proof -
  have "reader_done l' = reader_done l \<and> length (out l') \<le> Suc (length (out l))"
    using assms(1)
  proof (cases rule: session_work.cases)
    case (reader m e s' m')
    have "reader_done m' = reader_done m"
      using reader(7) unfolding advance_def
      by (auto simp: Let_def split: reader_pc.splits if_splits option.splits prod.splits)
    moreover have "length (out m') \<le> Suc (length (out m))" using advance_answers [OF reader(7,3)] by auto
    ultimately show ?thesis using reader assms(2,3) by (auto simp: set_session_def)
  qed (use assms(2,3) in \<open>auto simp: set_session_def\<close>)
  then show "reader_done l' = reader_done l" "length (out l') \<le> Suc (length (out l))" by simp_all
qed

section \<open>The client's side\<close>

text \<open>The control commands with their tickets, and the control replies handed out.\<close>

fun control_cmds :: "pump_event list \<Rightarrow> (nat \<times> message) list" where
  "control_cmds [] = []"
| "control_cmds (Command (ControlCmd m) t _ # evs) = (t, m) # control_cmds evs"
| "control_cmds (_ # evs) = control_cmds evs"

fun message_replies :: "(nat \<times> (client_error + answer)) list \<Rightarrow> (nat \<times> message) list" where
  "message_replies [] = []"
| "message_replies ((t, Inr (MessageAnswer m)) # ds) = (t, m) # message_replies ds"
| "message_replies (_ # ds) = message_replies ds"

lemma control_cmds_append [simp]: "control_cmds (evs @ evs') = control_cmds evs @ control_cmds evs'"
  by (induction evs rule: control_cmds.induct) auto

lemma message_replies_append [simp]: "message_replies (ds @ ds') = message_replies ds @ message_replies ds'"
  by (induction ds rule: message_replies.induct) auto

lemma control_cmds_fst: "map fst (control_cmds evs) = control_tickets evs"
  by (induction evs rule: control_cmds.induct) auto

lemma control_cmds_in: "(t, ControlCmd m) \<in> set (commands evs) \<Longrightarrow> (t, m) \<in> set (control_cmds evs)"
  by (induction evs rule: control_cmds.induct) auto

lemma message_replies_fst: "map fst (message_replies ds) = message_answers ds"
  by (induction ds rule: message_replies.induct) auto

lemma message_replies_in: "(t, m) \<in> set (message_replies ds) \<Longrightarrow> (t, Inr (MessageAnswer m)) \<in> set ds"
  by (induction ds rule: message_replies.induct) auto

lemma paired_replies:
  assumes "map fst cs = map fst rs" "list_all2 P (map snd cs) (map snd rs)" "(t, m) \<in> set cs"
  shows "\<exists>r. (t, r) \<in> set rs \<and> P m r"
proof -
  obtain k where k: "k < length cs" "cs ! k = (t, m)" using assms(3) by (auto simp: in_set_conv_nth)
  have len: "length cs = length rs" using map_eq_imp_length_eq [OF assms(1)] .
  have "fst (rs ! k) = t" using arg_cong [OF assms(1), of "\<lambda>xs. xs ! k"] k len by simp
  moreover have "P m (snd (rs ! k))" using list_all2_nthD [OF assms(2), of k] k len by simp
  ultimately show ?thesis using k(1) len nth_mem [of k rs] by (intro exI [of _ "snd (rs ! k)"]) auto
qed

text \<open>The pump waits for no more answers than are outstanding.\<close>

definition awaits :: "pump_event list \<Rightarrow> bool" where
  "awaits evs \<longleftrightarrow> running (pump_run evs) \<and>
     (\<forall>seq t. map_of (pending_urbs (pump_run evs)) seq = Some t \<longrightarrow>
        count (mset (answered (incoming evs))) seq < count (mset (submitted (written evs))) seq) \<and>
     (\<forall>seq t. map_of (pending_unlinks (pump_run evs)) seq = Some t \<longrightarrow>
        count (mset (unlinked (incoming evs))) seq < count (mset (unlinks (written evs))) seq) \<and>
     length (control_replies (pump_run evs)) + controls (incoming evs) = controls (written evs) \<and>
     map snd (message_replies (delivered (pump_run evs))) = filter control_message (incoming evs) \<and>
     map snd (control_cmds evs) = filter asks_control (written evs) \<and>
     (distinct (submitted (written evs)) \<and> distinct (unlinks (written evs)) \<longrightarrow>
        (\<forall>(t, r) \<in> set (delivered (pump_run evs)). \<exists>a. r = Inr a))"

lemma control_silent:
  assumes "control_message m"
  shows "submitted [m] = []" "answered [m] = []" "unlinks [m] = []" "unlinked [m] = []" "controls [m] = 1" "asks_control m"
  using assms by (cases m; simp add: controls_def)+

lemma pump_run_snoc: "pump_run (evs @ [ev]) = pump_step ev (pump_run evs)"
  by (simp add: pump_run_def)

lemma awaits_absent:
  assumes "awaits evs"
  shows "seq \<notin> set (submitted (written evs)) \<Longrightarrow> map_of (pending_urbs (pump_run evs)) seq = None"
    "seq \<notin> set (unlinks (written evs)) \<Longrightarrow> map_of (pending_unlinks (pump_run evs)) seq = None"
  using assms unfolding awaits_def by (metis count_mset_0_iff not_less_zero option.exhaust)+

lemma count_sub: "mset xs \<subseteq># mset ys \<Longrightarrow> count (mset xs) a < Suc (count (mset ys) a)"
  by (simp add: mset_subset_eq_count less_Suc_eq_le)

lemma awaits_cmd:
  assumes "awaits evs" "sendable cmd" "mset (answered (incoming evs)) \<subseteq># mset (submitted (written evs))"
    "mset (unlinked (incoming evs)) \<subseteq># mset (unlinks (written evs))"
  shows "awaits (evs @ [Command cmd t None])"
proof (cases cmd)
  case (ControlCmd m)
  with assms control_silent [of m] show ?thesis by (auto simp: awaits_def pump_run_snoc pump_cmd_def)
next
  case (UrbCmd u)
  with assms awaits_absent(1) [OF assms(1), of "submit_seq u"] count_sub [OF assms(3)] show ?thesis
    by (auto simp: awaits_def pump_run_snoc pump_cmd_def await_urb_def replace_pending_def update_conv' controls_def
        less_SucI split: option.splits if_splits)
next
  case (UnlinkCmd u)
  with assms awaits_absent(2) [OF assms(1), of "unlink_seq u"] count_sub [OF assms(4)] show ?thesis
    by (auto simp: awaits_def pump_run_snoc pump_cmd_def await_unlink_def replace_pending_def update_conv' controls_def
        less_SucI split: option.splits if_splits)
qed

lemma pump_control: "control_message m \<Longrightarrow> running p \<Longrightarrow> pump_msg m p = answer_front (Inr (MessageAnswer m)) p"
  by (cases m) (auto simp: pump_msg_def)

lemma awaits_msg:
  assumes "awaits evs" "is_reply m" "controls (incoming evs @ [m]) \<le> controls (written evs)"
  shows "awaits (evs @ [Incoming m])"
proof (cases "control_message m")
  case True
  with assms obtain t ts where "control_replies (pump_run evs) = t # ts"
    by (cases "control_replies (pump_run evs)") (auto simp: awaits_def controls_def)
  with True assms(1) control_silent [OF True] show ?thesis
    by (auto simp: awaits_def pump_run_snoc pump_control answer_front_def deliver_def)
next
  case False
  with assms(1,2) show ?thesis
    by (cases m) (auto simp: awaits_def pump_run_snoc pump_msg_def deliver_def controls_def delete_conv'
        split: option.splits if_splits)
qed

section \<open>Both sides\<close>

fun connected :: "world \<Rightarrow> nat \<Rightarrow> sys \<times> pump_event list \<Rightarrow> bool" where
  "connected w i (y, evs) \<longleftrightarrow> all_answered w y \<and> all_fit y \<and>
     (\<exists>l. sessions y i = Some l \<and> \<not> reader_done l \<and> prefix (incoming evs) (out l)) \<and>
     prefix (received y i) (written evs) \<and> list_all is_request (written evs) \<and> awaits evs \<and>
     distinct (issued evs) \<and> Reconnected \<notin> set evs"

lemma connected_counts:
  assumes "connected w i (y, evs)" "sessions y i = Some l"
  shows "controls (out l) \<le> controls (received y i)" "list_all is_reply (out l)"
    "mset (answered (incoming evs)) \<subseteq># mset (submitted (written evs))"
    "mset (unlinked (incoming evs)) \<subseteq># mset (unlinks (written evs))"
    "load l = 0 \<Longrightarrow> controls (out l) = controls (received y i) \<and>
       mset (answered (out l)) = mset (submitted (received y i)) \<and> unlinked (out l) = unlinks (received y i) \<and>
       list_all2 reply_to (filter asks_control (received y i)) (filter control_message (out l))"
proof -
  have i: "prefix (incoming evs) (out l)" "prefix (received y i) (written evs)"
    "list_all is_request (written evs)" using assms by auto
  have a: "answered_once (received y i) l" and f: "replies_fit (received y i) l" and o: "in_order (received y i) l"
    using assms by (simp_all add: all_answered_def all_fit_def)
  obtain ms ms' where m: "out l = incoming evs @ ms" "written evs = received y i @ ms'" using i by (auto simp: prefix_def)
  note le = controls_le [OF a f [unfolded replies_fit_def, THEN conjunct1] f [unfolded replies_fit_def, THEN conjunct2]]
  show "list_all is_reply (out l)" using f by (simp add: replies_fit_def)
  have "list_all is_request (received y i)" using i(3) m(2) by simp
  with le f o show "controls (out l) \<le> controls (received y i)"
    "load l = 0 \<Longrightarrow> controls (out l) = controls (received y i) \<and>
       mset (answered (out l)) = mset (submitted (received y i)) \<and> unlinked (out l) = unlinks (received y i) \<and>
       list_all2 reply_to (filter asks_control (received y i)) (filter control_message (out l))"
    by (auto simp: replies_fit_def in_order_def load_0)
  have "mset (answered (out l)) \<subseteq># mset (submitted (received y i))" using a by (simp add: answered_once_def)
  then show "mset (answered (incoming evs)) \<subseteq># mset (submitted (written evs))"
    unfolding m(1,2) by (simp add: subset_mset.add_increasing2 subset_mset.le_add_same_cancel1)
      (meson mset_subset_eq_add_left subset_mset.order_trans)
  have "mset (unlinked (out l)) = mset (unlinks (received y i))" using f by (simp add: replies_fit_def)
  then show "mset (unlinked (incoming evs)) \<subseteq># mset (unlinks (written evs))"
    unfolding m(1,2) by simp (metis mset_subset_eq_add_left subset_mset.order_trans)
qed

lemma connected_wire:
  assumes "wire_step w i c c'" "connected w i c"
  shows "connected w i c'"
  using assms(1)
proof (cases rule: wire_step.cases)
  case (server_receives y l e evs msg s' l')
  have "sys_step w y ((set_session i l' y)\<lparr>server := s', clock := now e,
      received := (received y)(i := received y i @ [msg])\<rparr>)"
    using server_receives by (intro sys_step.receive)
  then have "all_answered w ((set_session i l' y)\<lparr>server := s', clock := now e,
      received := (received y)(i := received y i @ [msg])\<rparr>)"
    "all_fit ((set_session i l' y)\<lparr>server := s', clock := now e, received := (received y)(i := received y i @ [msg])\<rparr>)"
    using assms(2) server_receives(1) by (auto intro: all_answered_step all_fit_step)
  moreover have "\<exists>ms. out l' = out l @ ms" using receive_answers [OF server_receives(9,4)] by auto
  moreover have "reader_done l' = reader_done l"  using receive_reader [OF server_receives(9)] .
  moreover have "prefix (received y i @ [msg]) (written evs)"
    using assms(2) server_receives by (auto intro: append_one_prefix)
  ultimately show ?thesis using assms(2) server_receives by (auto simp: set_session_def)
next
  case (server_moves y y' evs)
  obtain l l' where l: "sessions y i = Some l" "sessions y' i = Some l'" "\<not> reader_done l'" "prefix (incoming evs) (out l)"
    using assms(2) server_moves by (auto simp: open_session_def)
  from step_extends_out [OF server_moves(3) l(1,2)] l(4) have "prefix (incoming evs) (out l')" by auto
  moreover have "all_answered w y'" "all_fit y'"
    using assms(2) server_moves by (auto intro: all_answered_step all_fit_step)
  ultimately show ?thesis using assms(2) server_moves l by auto
next
  case (client_takes y l evs msg)
  then have c: "connected w i (y, evs)" and l: "sessions y i = Some l" using assms(2) by auto
  then have pre: "prefix (incoming evs @ [msg]) (out l)" using client_takes by (auto intro: append_one_prefix)
  then obtain ms where ms: "out l = incoming evs @ msg # ms" by (auto simp: prefix_def)
  obtain ms' where "written evs = received y i @ ms'" using c by (auto simp: prefix_def)
  with ms connected_counts(1) [OF c l] seqs_append(3) [of "incoming evs @ [msg]" ms]
  have "controls (incoming evs @ [msg]) \<le> controls (written evs)" by simp
  moreover have "is_reply msg" using connected_counts(2) [OF c l] ms by simp
  ultimately have "awaits (evs @ [Incoming msg])" using c by (intro awaits_msg) auto
  with c l pre client_takes(2) show ?thesis by auto
qed

lemma connection_connected:
  assumes "connection w y0 i c" "\<And>y. reachable w y0 y \<Longrightarrow> all_answered w y \<and> all_fit y"
  shows "connected w i c"
  using assms(1)
proof (induction rule: connection.induct)
  case (accepted y)
  then show ?case using assms(2) by (simp add: session_new_def awaits_def pump_run_def pump_new_def controls_def)
next
  case (goes_on c c')
  then show ?case using connected_wire by blast
next
  case (client_sends y evs cmd t)
  then obtain l where l: "sessions y i = Some l" by auto
  from client_sends connected_counts(3,4) [OF client_sends.IH l] have "awaits (evs @ [Command cmd t None])"
    by (auto intro: awaits_cmd)
  moreover have "is_request (cmd_message cmd)"
    using client_sends(2) by (cases cmd) (auto elim: control_message.elims)
  ultimately show ?case using client_sends by auto
qed

text \<open>What is left to do on a connection: a message on its way to the server is worth twenty steps.\<close>

fun backlog :: "nat \<Rightarrow> sys \<times> pump_event list \<Rightarrow> nat" where
  "backlog i (y, evs) =
     (case sessions y i of
        None \<Rightarrow> 0
      | Some l \<Rightarrow> 20 * (length (written evs) - length (received y i)) + 2 * load l +
          (length (out l) - length (incoming evs)))"

lemma wire_progress:
  assumes "connected w i (y, evs)" "backlog i (y, evs) \<noteq> 0"
  shows "\<exists>y' evs'. wire_step w i (y, evs) (y', evs') \<and> backlog i (y', evs') < backlog i (y, evs) \<and>
    commands evs' = commands evs \<and> written evs' = written evs \<and> issued evs' = issued evs \<and> control_tickets evs' = control_tickets evs"
proof -
  obtain l where l: "sessions y i = Some l" "\<not> reader_done l" "prefix (incoming evs) (out l)"
    "prefix (received y i) (written evs)" using assms(1) by auto
  then have len: "length (incoming evs) \<le> length (out l)" by (simp add: prefix_length_le)
  have "load l \<noteq> 0 \<or> length (received y i) < length (written evs) \<or> length (incoming evs) < length (out l)"
    using assms(2) l(1) by auto
  then consider "load l \<noteq> 0" | "load l = 0" "length (received y i) < length (written evs)"
    | "load l = 0" "length (incoming evs) < length (out l)"
    by blast
  then show ?thesis
  proof cases
    case 1
    then obtain y' where y': "session_work w i y y'" using work_enabled [OF l(1)] by blast
    obtain l' where l': "sessions y' i = Some l'" "load l' < load l" "received y' = received y"
      using work_lowers_load [OF y' l(1)] .
    note cost = work_cost [OF y' l(1) l'(1)]
    have "wire_step w i (y, evs) (y', evs)"
      using y' l' cost l(2) by (intro server_moves) (auto simp: open_session_def intro: work_is_step)
    moreover have "backlog i (y', evs) < backlog i (y, evs)" using l l' cost len by simp
    ultimately show ?thesis by blast
  next
    case 2
    define msg where "msg = written evs ! length (received y i)"
    obtain e :: env where e: "clock y \<le> now e" using fresh_token_exists by blast
    obtain s' l' where rc: "receive w e msg (server y) l = (s', l')" by (cases "receive w e msg (server y) l")
    note cost = receive_cost [OF rc 2(1)]
    have "wire_step w i (y, evs) ((set_session i l' y)\<lparr>server := s', clock := now e,
      received := (received y)(i := received y i @ [msg])\<rparr>, evs)"
      using 2 l e rc by (intro server_receives) (auto simp: load_0 msg_def)
    moreover have "backlog i ((set_session i l' y)\<lparr>server := s', clock := now e,
      received := (received y)(i := received y i @ [msg])\<rparr>, evs) < backlog i (y, evs)"
      using l(1) 2 cost len by (simp add: set_session_def)
    ultimately show ?thesis by blast
  next
    case 3
    then have "wire_step w i (y, evs) (y, evs @ [Incoming (out l ! length (incoming evs))])"
      using l(1) by (intro client_takes) auto
    moreover have "commands (evs @ [Incoming m]) = commands evs" "control_tickets (evs @ [Incoming m]) = control_tickets evs" for m
      by (simp_all add: commands_append control_tickets_append)
    ultimately show ?thesis
      using l(1) 3 by (intro exI [of _ y] exI [of _ "evs @ [Incoming (out l ! length (incoming evs))]"]) simp
  qed
qed

lemma wire_settles:
  assumes "connected w i (y, evs)"
  shows "\<exists>y' evs'. (wire_step w i)\<^sup>*\<^sup>* (y, evs) (y', evs') \<and> connected w i (y', evs') \<and> backlog i (y', evs') = 0 \<and>
    commands evs' = commands evs \<and> written evs' = written evs \<and> issued evs' = issued evs \<and> control_tickets evs' = control_tickets evs"
  using assms
proof (induction "backlog i (y, evs)" arbitrary: y evs rule: less_induct)
  case less
  show ?case
  proof (cases "backlog i (y, evs) = 0")
    case False
    with less.prems obtain y1 evs1 where s: "wire_step w i (y, evs) (y1, evs1)" "backlog i (y1, evs1) < backlog i (y, evs)"
      and k: "commands evs1 = commands evs" "written evs1 = written evs" "issued evs1 = issued evs"
        "control_tickets evs1 = control_tickets evs" using wire_progress by blast
    from less.hyps [OF s(2) connected_wire [OF s(1) less.prems]] s(1) k show ?thesis
      by (metis converse_rtranclp_into_rtranclp)
  qed (use less.prems in blast)
qed

lemma settled_pending:
  assumes "connected w i (y, evs)" "backlog i (y, evs) = 0"
  shows "pending (pump_run evs) = []"
    "list_all2 reply_to (map snd (control_cmds evs)) (map snd (message_replies (delivered (pump_run evs))))"
proof -
  obtain l where l: "sessions y i = Some l" "prefix (incoming evs) (out l)" "prefix (received y i) (written evs)" "awaits evs"
    using assms(1) by auto
  with assms(2) have "received y i = written evs" "incoming evs = out l" "load l = 0"
    by (auto simp: prefix_def)
  with connected_counts(5) [OF assms(1) l(1)] have eq: "controls (incoming evs) = controls (written evs)"
    "mset (answered (incoming evs)) = mset (submitted (written evs))"
    "mset (unlinked (incoming evs)) = mset (unlinks (written evs))"
    "list_all2 reply_to (filter asks_control (written evs)) (filter control_message (incoming evs))" by simp_all
  have "map_of (pending_urbs (pump_run evs)) seq = None" "map_of (pending_unlinks (pump_run evs)) seq = None" for seq
    using l(4) unfolding awaits_def eq by (metis less_irrefl not_None_eq)+
  then have "map_of (pending_urbs (pump_run evs)) = Map.empty" "map_of (pending_unlinks (pump_run evs)) = Map.empty"
    by (intro ext; simp)+
  moreover have "control_replies (pump_run evs) = []" using l(4) unfolding awaits_def eq by simp
  ultimately show "pending (pump_run evs) = []" by (simp add: pending_def)
  show "list_all2 reply_to (map snd (control_cmds evs)) (map snd (message_replies (delivered (pump_run evs))))"
    using l(4) eq(4) by (simp add: awaits_def)
qed

section \<open>Properties\<close>

lemma started_connected:
  assumes "started w s" "honest_completers w s" "connection w (sys_init s t0) i (y, evs)"
  shows "connected w i (y, evs)"
  using assms(3)
proof (rule connection_connected)
  fix z
  assume z: "reachable w (sys_init s t0) z"
  have "all_fit (sys_init s t0)" by (simp add: all_fit_def sys_init_def)
  with z have "all_fit z" by (rule reachable_invariant) (rule all_fit_step)
  with reachable_all_answered [OF assms(1,2) z] show "all_answered w z \<and> all_fit z" by simp
qed

lemma commands_issued: "map fst (commands evs) = issued evs"
  by (induction evs rule: commands.induct) auto

text \<open>The answer is one to the command: a completion with its sequence number, a status, or a reply to the message.\<close>

fun replied :: "client_cmd \<Rightarrow> answer \<Rightarrow> bool" where
  "replied (ControlCmd m) (MessageAnswer r) = reply_to m r"
| "replied (UrbCmd u) (UrbAnswer c) = (complete_seq c = submit_seq u)"
| "replied (UnlinkCmd _) (StatusAnswer _) = True"
| "replied _ _ = False"

lemma ticket_replied:
  assumes "connected w i (y, evs)" "backlog i (y, evs) = 0" "(t, cmd) \<in> set (commands evs)"
    and "distinct (submitted (written evs))" "distinct (unlinks (written evs))"
  shows "\<exists>a. (t, Inr a) \<in> set (delivered (pump_run evs)) \<and> replied cmd a"
proof -
  note settled = settled_pending [OF assms(1,2)]
  have aw: "awaits evs" "distinct (map fst (commands evs))" "Reconnected \<notin> set evs"
    using assms(1) by (auto simp: commands_issued)
  have m: "mset (map fst (delivered (pump_run evs))) = mset (issued evs)"
    using pump_run_tickets(1) [of evs] settled(1) by (simp add: tickets_def)
  have "t \<in> fst ` set (delivered (pump_run evs))"
    using assms(3) mset_eq_setD [OF m] commands_issued [of evs] by (metis fst_conv image_eqI list.set_map)
  then obtain r where r: "(t, r) \<in> set (delivered (pump_run evs))" by auto
  with aw(1) assms(4,5) obtain a where a: "r = Inr a" unfolding awaits_def by auto
  obtain cmd' where "(t, cmd') \<in> set (commands evs)" "fits cmd' r"
    using correlated_run [of evs] r unfolding correlated_def by fastforce
  with eq_key_imp_eq_value [OF aw(2)] assms(3) have f: "fits cmd (Inr a)" using a by metis
  show ?thesis
  proof (cases cmd)
    case (ControlCmd m)
    have "map fst (control_cmds evs) = map fst (message_replies (delivered (pump_run evs)))"
      using served_run [OF aw(3)] aw(1) settled(1)
      by (simp add: control_cmds_fst message_replies_fst served_def awaits_def pending_def)
    from paired_replies [OF this settled(2) control_cmds_in] assms(3) ControlCmd
    obtain m' where "(t, m') \<in> set (message_replies (delivered (pump_run evs)))" "reply_to m m'" by blast
    then show ?thesis using ControlCmd by (auto dest: message_replies_in intro!: exI [of _ "MessageAnswer m'"])
  next
    case (UrbCmd u)
    with f r a show ?thesis by (cases a) auto
  next
    case (UnlinkCmd u)
    with f r a show ?thesis by (cases a) auto
  qed
qed


text \<open>A client that sends a detach without a token, a URB and an unlink, one after the other.\<close>

definition demo_commands :: "pump_event list" where
  "demo_commands = [Command (ControlCmd (Detach 1)) 0 None, Command (UrbCmd demo_urb) 1 None,
     Command (UnlinkCmd \<lparr>unlink_seq = 7, unlink_device_id = 1\<rparr>) 2 None]"

definition demo_accepted :: sys where
  "demo_accepted = (set_session 0 session_new (sys_init demo_server 0))\<lparr>received := (\<lambda>_. [])(0 := [])\<rparr>"

lemma demo_connection: "connection demo_world (sys_init demo_server 0) 0 (demo_accepted, demo_commands)"
proof -
  have "sys_step demo_world (sys_init demo_server 0) demo_accepted"
    using sys_step.connect [of "sys_init demo_server 0" 0 demo_world] by (simp add: demo_accepted_def sys_init_def)
  then have "connection demo_world (sys_init demo_server 0) 0 (demo_accepted, [])"
    by (intro connection.accepted reachable.more [OF reachable.start])
       (simp_all add: demo_accepted_def set_session_def)
  moreover have "sendable (UrbCmd demo_urb)"
    by (simp add: write_result_def write_message_def encode_def try_u32_def demo_urb_def put_urb_data_def)
  ultimately have "connection demo_world (sys_init demo_server 0) 0
    (demo_accepted, (([] @ [Command (ControlCmd (Detach 1)) 0 None]) @ [Command (UrbCmd demo_urb) 1 None]) @
      [Command (UnlinkCmd \<lparr>unlink_seq = 7, unlink_device_id = 1\<rparr>) 2 None])"
    by (intro connection.client_sends) (simp_all add: write_detach write_unlink)
  then show ?thesis by (simp add: demo_commands_def)
qed


end
