(* ===== verification/Unit_Tests.thy ===== *)
theory Unit_Tests
  imports Host_Usb Usbip
begin

text \<open>
  The unit tests in the source files (\<^verbatim>\<open>crates/farbus-protocol/src/lib.rs\<close>,
  \<^verbatim>\<open>crates/farbus-protocol/src/usbip.rs\<close>, \<^verbatim>\<open>crates/farbus-core/src/host_usb.rs\<close>), run on the model: each
  test is a boolean definition with the inputs and the assertions of the source, and each is
  proved to pass. They tie the definitions of theories \<open>Protocol\<close>, \<open>Usbip\<close> and \<open>Host_Usb\<close> to what the
  authors expect of the code.
\<close>

section \<open>Control plane\<close>

definition is_Inl :: "('e \<Rightarrow> bool) \<Rightarrow> 'e + 'a \<Rightarrow> bool" where
  "is_Inl P r = (case r of Inl e \<Rightarrow> P e | Inr _ \<Rightarrow> False)"

definition test_hello :: "u8 \<Rightarrow> string \<Rightarrow> message" where
  "test_hello b host = Hello \<lparr>protocol_min = 1, protocol_max = 1, hello_fingerprint = replicate 32 b, hello_hostname = host\<rparr>"

definition roundtrips_hello_frame :: bool where
  "roundtrips_hello_frame =
     (let msg = test_hello 0xAB ''lab-pi''
      in case encode msg of Inl _ \<Rightarrow> False | Inr bs \<Rightarrow> decode bs = Inr msg)"

definition rejects_truncated_header :: bool where
  "rejects_truncated_header = is_Inl (\<lambda>e. e = Truncated) (decode (as_bytes ''FAR''))"

definition rejects_bad_magic :: bool where
  "rejects_bad_magic =
     (case encode (Error Unauthorized ''no'') of
        Inl _ \<Rightarrow> False
      | Inr bs \<Rightarrow> is_Inl (\<lambda>e. e = BadMagic) (decode (bs[0 := 0x58])))"

definition rejects_unknown_version :: bool where
  "rejects_unknown_version =
     (case encode (Detach 7) of
        Inl _ \<Rightarrow> False
      | Inr bs \<Rightarrow> is_Inl (\<lambda>e. e = UnsupportedVersion 99) (decode (bs[4 := 99])))"

definition rejects_oversized_payload_length :: bool where
  "rejects_oversized_payload_length =
     (case try_u32 (MAX_PAYLOAD + 1) of
        None \<Rightarrow> False
      | Some oversized \<Rightarrow>
          let header = as_bytes ''FARB'' @ [VERSION] @ [ty (Error Unauthorized '''')] @ u32_to_be_bytes oversized @ replicate 8 0
          in is_Inl (\<lambda>e. case e of PayloadTooLarge _ _ \<Rightarrow> True | _ \<Rightarrow> False) (decode header))"

definition rejects_hostname_longer_than_255 :: bool where
  "rejects_hostname_longer_than_255 =
     is_Inl (\<lambda>e. case e of FieldTooLong _ _ _ \<Rightarrow> True | _ \<Rightarrow> False) (encode (test_hello 1 (replicate 256 (CHR ''n''))))"

definition roundtrips_device_list :: bool where
  "roundtrips_device_list =
     (let msg = DeviceList
        [\<lparr>info_id = 1, bus_id = ''1-1.2'', vid = 0x046d, pid = 0xc52b, usb_class = 3, speed = SpeedHigh,
          product = ''Unifying Receiver'', exported = True, interfaces = []\<rparr>,
         \<lparr>info_id = 2, bus_id = ''1-2'', vid = 0x0403, pid = 0x6001, usb_class = 255, speed = SpeedFull,
          product = ''FT232'', exported = False, interfaces = []\<rparr>]
      in case encode msg of Inl _ \<Rightarrow> False | Inr bs \<Rightarrow> decode bs = Inr msg)"

section \<open>USB/IP\<close>

definition test_unlink_bytes :: bytes where
  "test_unlink_bytes =
     u32_to_be_bytes USBIP_CMD_UNLINK @ u32_to_be_bytes 55 @ u32_to_be_bytes 2 @ u32_to_be_bytes 0 @ u32_to_be_bytes 1 @
     u32_to_be_bytes 54 @ replicate 24 0"

definition roundtrips_usbip_cmd_and_ret_submit :: bool where
  "roundtrips_usbip_cmd_and_ret_submit =
     (let cmd = \<lparr>seqnum = 1234, devid = 2, direction = 1, ep = 0x81, transfer_flags = 0, transfer_buffer_length = 512,
                 start_frame = 0, number_of_packets = 0, interval = 1, usb_setup = [0x80, 0x06, 0, 1, 0, 0, 18, 0]\<rparr>;
          ret = \<lparr>seqnum = 1234, devid = 2, direction = 1, ep = 0x81, ret_status = 0, actual_length = 18,
                 ret_start_frame = 0, ret_number_of_packets = 0, error_count = 0, ret_setup = replicate 8 0\<rparr>;
          unlink = \<lparr>seqnum = 55, devid = 2, direction = 0, ep = 1, unlink_seqnum = 54\<rparr>;
          ret_unlink = \<lparr>seqnum = 55, devid = 2, direction = 0, ep = 1, unlink_status = 0\<rparr>
      in decode_cmd_submit (encode_cmd_submit cmd) = Inr cmd \<and>
         decode_ret_submit (encode_ret_submit ret) = Inr ret \<and>
         decode_cmd_unlink test_unlink_bytes = Inr unlink \<and>
         u32_from_be_bytes (take 4 (encode_ret_unlink ret_unlink)) = USBIP_RET_UNLINK)"

definition control_out_with_payload_prepends_setup :: bool where
  "control_out_with_payload_prepends_setup =
     (let stp = [0x21, 0x09, 0, 2, 0, 0, 4, 0]; payload = [0xde, 0xad, 0xbe, 0xef];
          (d, requested) = urb_submit_data 0 0 stp 4 payload
      in take 8 d = stp \<and> drop 8 d = payload \<and> requested = 4)"

definition control_out_zero_length_is_setup_only :: bool where
  "control_out_zero_length_is_setup_only =
     (let stp = [0x00, 0x09, 1, 0, 0, 0, 0, 0]; (d, requested) = urb_submit_data 0 0 stp 0 []
      in d = stp \<and> requested = 0)"

definition control_in_is_setup_only :: bool where
  "control_in_is_setup_only =
     (let stp = [0x80, 0x06, 0, 1, 0, 0, 18, 0]; (d, requested) = urb_submit_data 0 1 stp 18 []
      in d = stp \<and> requested = 18)"

definition bulk_out_is_payload_only :: bool where
  "bulk_out_is_payload_only =
     (let (d, requested) = urb_submit_data 1 0 (replicate 8 0xff) 3 [1, 2, 3] in d = [1, 2, 3] \<and> requested = 3)"

definition bulk_in_is_empty_with_requested_length :: bool where
  "bulk_in_is_empty_with_requested_length =
     (let (d, requested) = urb_submit_data 0x81 1 (replicate 8 0) 64 [] in d = [] \<and> requested = 64)"

section \<open>Host topology\<close>

definition formats_stable_usb_topology_path :: bool where
  "formats_stable_usb_topology_path \<longleftrightarrow> topology_bus_id 1 [2] = ''1-2'' \<and> topology_bus_id 3 [1, 4, 2] = ''3-1.4.2''"

section \<open>They pass\<close>

text \<open>The round trips rest on the well-formedness of the message, the rejections on the position of the fault.\<close>

lemma encode_then_decode:
  assumes "wf_message m" "fields_fit m" "payload_len m \<le> MAX_PAYLOAD"
  shows "case encode m of Inl _ \<Rightarrow> False | Inr bs \<Rightarrow> decode bs = Inr m"
  using encode_fits [OF assms(1)] assms by (auto simp: decode_iff split: sum.splits)

lemma roundtrips_hello_frame_passes: "roundtrips_hello_frame"
proof -
  have "rust_str ''lab-pi''" by code_simp
  then show ?thesis
    unfolding roundtrips_hello_frame_def Let_def by (intro encode_then_decode) (simp_all add: test_hello_def)
qed

lemma roundtrips_device_list_passes: "roundtrips_device_list"
proof -
  have "rust_str ''1-1.2''" "rust_str ''1-2''" "rust_str ''Unifying Receiver''" "rust_str ''FT232''" by code_simp+
  then show ?thesis
    unfolding roundtrips_device_list_def Let_def
    by (intro encode_then_decode) (simp_all add: wf_device_def device_fits_def device_len_def)
qed

lemma rejects_truncated_header_passes: "rejects_truncated_header"
  by (simp add: rejects_truncated_header_def is_Inl_def decode_short as_bytes_def)

lemma rejects_bad_magic_passes: "rejects_bad_magic"
proof -
  have "rust_str ''no''" by code_simp
  then obtain bs where e: "encode (Error Unauthorized ''no'') = Inr bs"
    using encode_fits(1) [of "Error Unauthorized ''no''"] by auto
  then have "bs ! 0 = 0x46" by (auto elim: encode_frame)
  then have "decode (bs[0 := 0x58]) = Inl BadMagic" by (intro decode_other_magic [OF e]) simp_all
  then show ?thesis by (simp add: rejects_bad_magic_def is_Inl_def e)
qed

lemma rejects_unknown_version_passes: "rejects_unknown_version"
proof -
  obtain bs where e: "encode (Detach 7) = Inr bs" using encode_fits(1) [of "Detach 7"] by auto
  then have "decode (bs[4 := 99]) = Inl (UnsupportedVersion 99)" by (intro decode_other_version) simp_all
  then show ?thesis by (simp add: rejects_unknown_version_def is_Inl_def e)
qed

lemma rejects_oversized_payload_length_passes: "rejects_oversized_payload_length"
  by (simp add: rejects_oversized_payload_length_def is_Inl_def decode_def as_bytes_def try_u32_def)

lemma rejects_hostname_longer_than_255_passes: "rejects_hostname_longer_than_255"
  by (simp add: rejects_hostname_longer_than_255_def is_Inl_def test_hello_def encode_def put_u8_str_def try_u8_def)

lemma roundtrips_usbip_cmd_and_ret_submit_passes: "roundtrips_usbip_cmd_and_ret_submit"
  by code_simp

lemma urb_submit_data_tests_pass:
  "control_out_with_payload_prepends_setup" "control_out_zero_length_is_setup_only" "control_in_is_setup_only"
  "bulk_out_is_payload_only" "bulk_in_is_empty_with_requested_length"
  by code_simp+

lemma formats_stable_usb_topology_path_passes: "formats_stable_usb_topology_path"
  by (simp add: formats_stable_usb_topology_path_def topology_bus_id_def show_nat.simps char_of_def bit_0)

end
