(* ===== verification/Spec2Isabelle.thy ===== *)
theory Spec2Isabelle
  imports Lock_Manager Bench Server_Main Window Pipeline Unit_Tests
begin

text \<open>
  FarBus exports USB devices of one machine to another over TLS. This development models the program under
  \<^verbatim>\<open>src/crates\<close> and proves what makes its parts correct.

  \<^bold>\<open>The program.\<close> A server (\<^verbatim>\<open>farbus-server\<close>) scans the USB devices of its host, decides which of them it
  exports, and serves any number of TLS sessions. A client pairs once by a PIN that the server prints, obtains a
  bearer token, and with the token lists, attaches and detaches devices and submits URBs. An attached device is
  leased to the fingerprint of the client. The client program (\<^verbatim>\<open>farbus-client\<close>, or the Windows window
  \<^verbatim>\<open>farbus-gui\<close>) offers an attached device to the USB/IP driver of its own machine through a loopback listener
  and forwards what the driver asks. Client and server speak the frames of \<^verbatim>\<open>farbus-protocol\<close>.

  \<^bold>\<open>The theories\<close>, each with the source it models:

  \<^item> \<open>Prelude\<close>: bytes, words in network order, UTF-8, results and cursors, the collections \<open>cursor_iff\<close> and
    \<open>cursor_run\<close>; \<open>Text\<close>: the string functions of the standard library that several parsers use;
    \<open>Ordered_Map\<close>: \<open>BTreeMap\<close> as a sorted list behind a locale.
  \<^item> \<open>Protocol\<close> (\<^verbatim>\<open>farbus-protocol/src/lib.rs\<close>): messages, \<open>encode\<close>, \<open>decode\<close>. Decoding accepts exactly the
    encodings of well-formed messages; which messages have one; how damaged frames are rejected.
  \<^item> \<open>Frame\<close> (\<^verbatim>\<open>frame.rs\<close>): the framed reader over a transport that splits the bytes anywhere equals a reference parse.
  \<^item> \<open>Fingerprint\<close>, \<open>Identity\<close>, \<open>Lease\<close>, \<open>Urb\<close> (\<^verbatim>\<open>fingerprint.rs\<close>, \<^verbatim>\<open>identity.rs\<close>, \<^verbatim>\<open>lease.rs\<close>, \<^verbatim>\<open>urb.rs\<close>):
    fingerprints, PINs and tokens, the lease book behind the locale \<open>lease_service\<close>, the USB emulator.
  \<^item> \<open>Inventory\<close> (\<^verbatim>\<open>usb.rs\<close>): the device inventory and its hot-plug refresh, with the invariant \<open>inventory_wf\<close>.
  \<^item> \<open>Session\<close>, \<open>Session_Properties\<close> (\<^verbatim>\<open>session.rs\<close>): the shared server state, the message handler cut into the
    atomic steps between its lock releases, the URB tasks, and the step relation \<open>sys_step\<close> of all sessions.
    Invariants of every interleaving, and the behaviour of each handler on all branches.
  \<^item> \<open>Progress\<close>: a session is never stuck; a measure bounds what it still has to do, whatever the others do.
    \<open>Pipeline\<close>: the client's pump and a session composed over the two directions of a connection, with pipelined
    requests, completions in any order, and all other sessions running.
  \<^item> \<open>Lock_Manager\<close>: an abstract specification of leases and the theorem that the server refines it.
  \<^item> \<open>Policy\<close> (\<^verbatim>\<open>farbus-server\<close>): the export policy, the start and the hot-plug task of the server binary.
  \<^item> \<open>Sysfs\<close>, \<open>Host_Usb\<close> (\<^verbatim>\<open>usb.rs\<close>, \<^verbatim>\<open>host_usb.rs\<close>): scanning the host through sysfs and libusb, and transfers
    to physical devices.
  \<^item> \<open>Client\<close>, \<open>Client_Calls\<close> (\<^verbatim>\<open>client.rs\<close>): the client's I/O pump as a machine over tickets, its operations, and
    these operations over a network with the history of what was done.
  \<^item> \<open>Address\<close>, \<open>Connection\<close> (\<^verbatim>\<open>path.rs\<close>, \<^verbatim>\<open>state.rs\<close>, \<^verbatim>\<open>reconnect.rs\<close>, \<^verbatim>\<open>happy.rs\<close>): addresses and the loopback
    checks, the connection state machine, bounded reconnection, the race of addresses.
  \<^item> \<open>Store\<close> (\<^verbatim>\<open>store.rs\<close>, \<^verbatim>\<open>persist.rs\<close>, \<^verbatim>\<open>tls.rs\<close>): saved sessions and server identities in a file system whose
    calls may fail, and the decisions of the certificate verifiers; \<open>Discovery\<close> (\<^verbatim>\<open>discovery.rs\<close>): beacons.
  \<^item> \<open>Tls\<close> (\<^verbatim>\<open>tls.rs\<close>, \<^verbatim>\<open>client.rs\<close>): the TLS configurations of both ends and opening a pinned session over the library
    rustls, which is a parameter with the contract \<open>rustls_contract\<close>.
  \<^item> \<open>Usbip\<close>, \<open>Usbip_Proxy\<close>, \<open>Usbip_Forward\<close> (\<^verbatim>\<open>usbip.rs\<close>, \<^verbatim>\<open>usbip_proxy.rs\<close>, \<^verbatim>\<open>usbip_forward.rs\<close>): the USB/IP wire
    format, the listener of the server and the forwarder of the client with its recovery.
  \<^item> \<open>Gui\<close>, \<open>App\<close>, \<open>Cli\<close> (\<^verbatim>\<open>farbus-gui\<close>, \<^verbatim>\<open>farbus-client\<close>): state, actions and controller of the window, and the
    commands of the command line.
  \<^item> \<open>End_To_End\<close>: client and server composed through pump, frames and sessions. \<open>Transparency\<close>: the forwarder on
    top of both answers as the server's own USB/IP listener does.
  \<^item> The programs as wholes: \<open>Server_Main\<close> (\<^verbatim>\<open>farbus-server/src/main.rs\<close>): start, banner, beacons, accept loops;
    \<open>Cli_Main\<close> (\<^verbatim>\<open>farbus-client/src\<close>): every command with its output; \<open>Window\<close> (\<^verbatim>\<open>farbus-gui/src/app.rs\<close>): one frame of the
    window and the entry point; \<open>Bench\<close> (\<^verbatim>\<open>farbus-bench\<close>): the scenarios of the benchmark and its report.
  \<^item> \<open>Unit_Tests\<close>: the unit tests inside the source files, run on the model.

  \<^bold>\<open>How code becomes definitions.\<close> Structs are records, enums datatypes, integers words of their width, a
  \<open>Result\<close> a sum with the error on the left, \<open>HashMap\<close>s maps or association lists. Locks become the atomic steps of
  \<open>sys_step\<close>; tasks and channels become explicit lists. SHA-256, random draws, time, the host USB stack,
  TLS handshakes, sockets, name resolution and the text form of socket addresses are parameters; what is assumed of
  them is a named hypothesis (\<open>sound_server\<close>, \<open>libusb_ok\<close>, \<open>honest_completers\<close>, \<open>addr_text_ok\<close>, \<open>fresh_token\<close>, \<open>rustls_contract\<close>).

  \<^bold>\<open>Bounds.\<close> No definition uses fuel. Loops that consume input terminate by the length of what is left; the
  retry loops recurse on the number of attempts left (ten connections, eight reattachments, two submissions); a URB
  task takes at most five steps to the sending of its completion, and a session settles within nine steps and six per
  URB in flight. The inventory theorems require that its 32-bit ids are not exhausted (\<open>room\<close>).

  \<^bold>\<open>What the theorems show.\<close> Every lease is held by a paired peer on a device that is plugged in, is granted only
  within the export policy, and passes from peer to peer only through a free state, in every interleaving. Every
  message gets exactly one answer, on the server as in the client's pump and in the USB/IP loops; no session is ever stuck,
  and requests that are pipelined to a busy server are all answered with what was asked for. What is written is
  read back: frames, beacons, device lists, sessions, identities. Recovery and retries end within stated bounds.
  First use succeeds from connecting to the first URB, and so do pairing and listing devices in two runs of the
  program and every round of the benchmark. A forwarded device cannot be told from one of the server's own USB/IP listener.
  A pinned session opens only with the pinned server, also after a restart and after discovery. Secrets are not displayed.
  Lemmas beside the properties record where the code does
  not do what it means to: a second session of a client drops the lease of the first; a lease outlives the policy when a
  device changes its interfaces; \<open>diagnose\<close> presents a token under a fingerprint it does not fit; a
  forwarder that has ended is still shown as forwarding; and others in \<open>Client\<close>, \<open>Discovery\<close>, \<open>Store\<close>, \<open>Usbip_Proxy\<close>.

  \<^bold>\<open>Not modelled.\<close> Parsing of command lines, which \<open>clap\<close> does; sizes, colours and set-up of the window, which are calls into
  the toolkit; the times the benchmark measures (what is printed of them is a parameter); socket options; the inside of rustls, of the certificate generator and of
  libusb; file modes beyond those of a file's creation; the capacity of channels, which only delays a sender; the structs
  \<open>UsbipDeviceHeader\<close> and \<open>UsbipInterface\<close>, which nothing uses; the root of \<^verbatim>\<open>farbus-core\<close>, which only names and re-exports its modules. \<open>End_To_End\<close> composes one client
  with the server down to the bytes while other sessions stand still; \<open>Pipeline\<close> composes them at the level of messages under every
  interleaving; \<open>Session\<close> has the interleavings of the server alone.
\<close>

section \<open>The server binary as a whole\<close>

lemma hotplug_tick_step: "sys_step w y (y\<lparr>server := hotplug_tick export_all exact scan (server y)\<rparr>) \<or>
    hotplug_tick export_all exact scan (server y) = server y"
proof (cases scan)
  case (Some scanned)
  obtain delta s' where r: "refresh_host_devices (apply_export_flags export_all exact scanned) (server y) = (delta, s')"
    by (metis surj_pair)
  from sys_step.refresh [OF r] show ?thesis by (simp add: hotplug_tick_def Some r)
qed (simp add: hotplug_tick_def)

text \<open>An invariant of the sessions is an invariant of the server binary.\<close>

lemma server_runs_invariant:
  assumes "server_runs w export_all exact y0 y" "I y0" "\<And>y y'. I y \<Longrightarrow> sys_step w y y' \<Longrightarrow> I y'"
  shows "I y"
  using assms(1)
proof induction
  case (tick y scan)
  have "y\<lparr>server := server y\<rparr> = y" by simp
  then show ?case using tick.IH assms(3) hotplug_tick_step [of w y export_all exact scan] by metis
qed (use assms(2,3) in auto)

lemma started_server_start: "started w (server_start w e host fp export_all exact found)"
proof -
  have "server_start w e host fp export_all exact found =
      (server_new w e host fp (apply_export_policy export_all exact found))\<lparr>urb_completer := None\<rparr>"
    by (simp add: server_start_def server_new_def)
  then show ?thesis unfolding started_def by blast
qed

lemma inventory_get_snapshot:
  "bt_sorted (present v) \<Longrightarrow> inventory_get v d = Some x \<Longrightarrow> x \<in> set (snapshot v)"
  by (auto simp: snapshot_def bt.set_vals inventory_get_def ran_def)

text \<open>
  C1. The whole server keeps its policy: whatever is plugged in, whatever clients send and however their
  sessions interleave with each other and with the hot-plug scans, at the moment a peer obtains a lease it
  has paired, nobody else holds the device, and the device is plugged in and allowed by the policy: its bus id
  was given on the command line or, with \<open>--export-all\<close>, it is not sensitive.
\<close>

theorem grants_follow_policy:
  assumes runs: "server_runs w export_all exact (sys_init (server_start w e host fp export_all exact found) t) y"
    and step: "sys_step w y y'"
    and new: "owner (leases (server y')) d = Some p" "owner (leases (server y)) d \<noteq> Some p"
  shows "owner (leases (server y)) d = None \<and> paired (server y) p \<and>
    (\<exists>x. inventory_get (devices (server y)) d = Some x \<and> may_export export_all exact x)"
proof -
  note init = started_inv(1,2) [OF started_server_start, of w e host fp export_all exact found t]
  have P: "leases_present (server y)"
    using runs init(1) by (rule server_runs_invariant [where I = "\<lambda>y. leases_present (server y)"]) (rule leases_present_step)
  have Q: "leases_paired y" using runs init(2) by (rule server_runs_invariant) (rule leases_paired_step)
  have F: "all_devices (flagged export_all exact) (devices (server y))"
    using runs by (rule server_runs_flagged)
  have "holding (lock_view (server y)) d = None \<and> d \<in> offered (lock_view (server y)) \<and> p \<in> members (lock_view (server y))"
    by (rule lock_step_grants [OF lock_view_step [OF step P Q]]) (use new in \<open>simp_all add: lock_view_def\<close>)
  then obtain x where x: "inventory_get (devices (server y)) d = Some x" "exported (info x)"
    and "owner (leases (server y)) d = None" "paired (server y) p"
    by (auto simp: lock_view_def)
  moreover have "x \<in> set (snapshot (devices (server y)))"
    using P x(1) by (simp add: leases_present_def inventory_get_snapshot)
  ultimately show ?thesis using F by (auto simp: all_devices_def flagged_def)
qed

text \<open>A server told to export the four laboratory devices by their bus ids, and the attach request of a paired client.\<close>

definition lab_ids :: "string list" where
  "lab_ids = [''1-1.2'', ''1-2'', ''2-1'', ''1-4'']"

lemma lab_start: "server_start demo_world (demo_env []) ''lab'' [5] False lab_ids simulated_lab_devices = demo_server"
proof -
  have "apply_export_policy False lab_ids simulated_lab_devices = simulated_lab_devices"
    by (simp add: apply_export_policy_def apply_export_flags_def set_exported_def lab_ids_def simulated_lab_devices_def
        lab_device_def)
  then show ?thesis by (simp add: server_start_def demo_server_def)
qed

definition lab_sys :: "server_state \<Rightarrow> session \<Rightarrow> (nat \<Rightarrow> message list) \<Rightarrow> sys" where
  "lab_sys s l r = \<lparr>server = s, sessions = [0 \<mapsto> l], received = r, clock = 0\<rparr>"

lemma lab_sys_receive:
  assumes "receive demo_world (demo_env t) msg s l = (s', l')" "pc l = Idle" "\<not> reader_done l"
  shows "\<exists>r'. sys_step demo_world (lab_sys s l r) (lab_sys s' l' r')"
  using sys_step.receive [of "lab_sys s l r" 0 l "demo_env t" demo_world msg s' l'] assms
  by (auto simp: lab_sys_def set_session_def demo_env_def)

lemma lab_sys_advance:
  assumes "advance (demo_env t) s l = (s', l')" "pc l \<noteq> Idle" "fresh_token (demo_env t) s"
  shows "sys_step demo_world (lab_sys s l r) (lab_sys s' l' r)"
  using sys_step.advance [of "lab_sys s l r" 0 l "demo_env t" s' l'] assms
  by (auto simp: lab_sys_def set_session_def demo_env_def)

lemma lab_attaching:
  "\<exists>r. server_runs demo_world False lab_ids (sys_init demo_server 0)
     (lab_sys demo_paired (demo_l2\<lparr>pc := Attaching demo_attach [7]\<rparr>) r)"
proof -
  let ?runs = "server_runs demo_world False lab_ids (sys_init demo_server 0)"
  have dev: "devices demo_s2 = devices demo_server" "devices demo_paired = devices demo_server"
    by (simp_all add: demo_s2_def demo_paired_def)
  have go: "?runs (lab_sys s' l' r')" if "?runs (lab_sys s l r)" "sys_step demo_world (lab_sys s l r) (lab_sys s' l' r')"
    "devices s' = devices s" for s s' l l' r r'
    using server_runs.other [OF that(1,2)] that(3) by (simp add: lab_sys_def)
  have "sys_step demo_world (sys_init demo_server 0) (lab_sys demo_server session_new (\<lambda>_. []))"
    using sys_step.connect [of "sys_init demo_server 0" 0] by (simp add: sys_init_def set_session_def lab_sys_def fun_upd_def)
  then have 0: "?runs (lab_sys demo_server session_new (\<lambda>_. []))"
    using server_runs.other [OF server_runs.start] by (simp add: lab_sys_def sys_init_def)
  obtain r1 where 1: "?runs (lab_sys demo_server demo_l1 r1)"
    using go [OF 0] lab_sys_receive [OF demo_steps(1) demo_idle(1,5)] by blast
  obtain r2 where 2: "?runs (lab_sys demo_s2 (demo_l1\<lparr>pc := Pairing demo_pair True\<rparr>) r2)"
    using go [OF 1] lab_sys_receive [OF demo_steps(2) demo_idle(2,6)] dev by blast
  have 3: "?runs (lab_sys demo_paired demo_l2 r2)"
    by (rule go [OF 2 lab_sys_advance [OF demo_steps(3) _ demo_steps(6)]]) (simp_all add: dev)
  show ?thesis using go [OF 3] lab_sys_receive [OF demo_steps(4) demo_idle(3,7)] by blast
qed

theorem grants_follow_policy_witness:
  "\<exists>x. inventory_get (devices demo_paired) 1 = Some x \<and> may_export False lab_ids x \<and>
     owner (leases demo_leased) 1 = Some [7]"
proof -
  obtain r where runs: "server_runs demo_world False lab_ids (sys_init demo_server 0)
      (lab_sys demo_paired (demo_l2\<lparr>pc := Attaching demo_attach [7]\<rparr>) r)"
    using lab_attaching by blast
  have step: "sys_step demo_world (lab_sys demo_paired (demo_l2\<lparr>pc := Attaching demo_attach [7]\<rparr>) r) (lab_sys demo_leased demo_l3 r)"
    by (rule lab_sys_advance [OF demo_steps(5) _ demo_steps(7)]) simp
  have own: "owner (leases (server (lab_sys demo_leased demo_l3 r))) 1 = Some [7]"
    "owner (leases (server (lab_sys demo_paired (demo_l2\<lparr>pc := Attaching demo_attach [7]\<rparr>) r))) 1 \<noteq> Some [7]"
    by (simp_all add: lab_sys_def demo_defs owner_def empty_book_def)
  from grants_follow_policy [OF runs [folded lab_start] step own] own(1) show ?thesis by (auto simp: lab_sys_def)
qed

text \<open>
  With libusb behind it, the hypothesis of the accounting theorem of theory \<open>Session_Properties\<close> about
  completers is met.
\<close>

lemma host_stack_honest:
  assumes "\<And>t. libusb_ok (lib t)" "host_complete w = (\<lambda>t u ds. Some (complete_host_or_emulated (lib t) u ds))"
  shows "honest_completers w (server_start w e host fp export_all exact found)"
  using assms complete_host_answers by (auto simp: honest_completers_def server_start_def server_new_def)

end
